(* ===== verification/Kernel_Prelude.thy ===== *)
theory Kernel_Prelude
  imports Main "HOL-Library.Word"
begin

text \<open>
  Shared vocabulary of the development: the C integer types the sources use, the result type
  of kernel code (a value, or the way control failed to come back), its sequencing operator,
  and the generic lemmas on words, lists and functions that the components share.
\<close>

unbundle bit_operations_syntax

section \<open>C integer types\<close>

type_synonym uchar = "8 word"
type_synonym ushort = "16 word"
type_synonym uint = "32 word"
type_synonym uint64 = "64 word"

text \<open>
  Kernel memory is byte addressed; every address of the 64-bit space holds a byte.
\<close>

type_synonym memory = "uint64 \<Rightarrow> uchar"

section \<open>Results of kernel code\<close>

text \<open>
  A kernel function returns a value, or control does not come back to the caller on this path:
  \<open>Panic\<close> is a call of \<open>panic(msg)\<close>, which never returns; \<open>Spin\<close> is a spin loop whose exit
  condition only another hart or a device can establish; \<open>Block\<close> is a \<open>sleep()\<close> with no wakeup
  yet; \<open>Undefined\<close> is a C operation with no defined result. \<open>'a kres\<close> is the sum of the two.
\<close>

datatype kerr = Panic string | Spin string | Block string | Undefined string

type_synonym 'a kres = "kerr + 'a"

definition bnd :: "'e + 'a \<Rightarrow> ('a \<Rightarrow> 'e + 'b) \<Rightarrow> 'e + 'b" where
  "bnd m f = (case m of Inl e \<Rightarrow> Inl e | Inr x \<Rightarrow> f x)"

definition guard :: "bool \<Rightarrow> 'e \<Rightarrow> 'e + unit" where
  "guard b e = (if b then Inr () else Inl e)"

named_theorems kres_simps \<open>evaluation rules of the result type\<close>

lemma bnd_Inr [simp, kres_simps]: "bnd (Inr x) f = f x"
  by (simp add: bnd_def)

lemma bnd_Inl [simp, kres_simps]: "bnd (Inl e) f = Inl e"
  by (simp add: bnd_def)

lemma bnd_eq_Inr_iff [simp]: "bnd m f = Inr y \<longleftrightarrow> (\<exists>x. m = Inr x \<and> f x = Inr y)"
  by (cases m) simp_all

lemma Inr_eq_bnd_iff [simp]: "Inr y = bnd m f \<longleftrightarrow> (\<exists>x. m = Inr x \<and> f x = Inr y)"
  by (cases m) auto

lemma bnd_eq_Inl_iff:
  "bnd m f = Inl e \<longleftrightarrow> m = Inl e \<or> (\<exists>x. m = Inr x \<and> f x = Inl e)"
  by (cases m) simp_all

lemma bnd_assoc: "bnd (bnd m f) g = bnd m (\<lambda>x. bnd (f x) g)"
  by (cases m) simp_all

lemma bnd_cong [fundef_cong]:
  "m = m' \<Longrightarrow> (\<And>x. m' = Inr x \<Longrightarrow> f x = f' x) \<Longrightarrow> bnd m f = bnd m' f'"
  by (cases m') simp_all

lemma guard_Inr [simp, kres_simps]: "guard b e = Inr u \<longleftrightarrow> b"
  by (simp add: guard_def)

lemma guard_True [simp, kres_simps]: "guard True e = Inr ()"
  by (simp add: guard_def)

lemma guard_False [simp, kres_simps]: "guard False e = Inl e"
  by (simp add: guard_def)

text \<open>A loop over a list of indices whose body may fail.\<close>

primrec foldM :: "('i \<Rightarrow> 's \<Rightarrow> 'e + 's) \<Rightarrow> 'i list \<Rightarrow> 's \<Rightarrow> 'e + 's" where
  "foldM f [] s = Inr s"
| "foldM f (x # xs) s = bnd (f x s) (foldM f xs)"

lemma foldM_append: "foldM f (xs @ ys) s = bnd (foldM f xs s) (foldM f ys)"
  by (induction xs arbitrary: s) (auto simp: bnd_def split: sum.splits)

lemma foldM_cong [fundef_cong]:
  "xs = ys \<Longrightarrow> s = t \<Longrightarrow> (\<And>x s. x \<in> set ys \<Longrightarrow> f x s = g x s) \<Longrightarrow> foldM f xs s = foldM g ys t"
proof (induction xs arbitrary: ys s t)
  case (Cons x xs)
  have "foldM f xs u = foldM g xs u" for u
    by (rule Cons.IH) (use Cons.prems in auto)
  then have "foldM f xs = foldM g xs" by (rule ext)
  then show ?case using Cons.prems by auto
qed simp

lemma foldM_invariant:
  assumes "foldM f xs s = Inr t" and "P s"
    and "\<And>x s t. x \<in> set xs \<Longrightarrow> P s \<Longrightarrow> f x s = Inr t \<Longrightarrow> P t"
  shows "P t"
  using assms
proof (induction xs arbitrary: s)
  case (Cons x xs)
  from Cons.prems(1) obtain u where u: "f x s = Inr u" "foldM f xs u = Inr t" by auto
  have "P u" by (rule Cons.prems(3) [OF _ Cons.prems(2) u(1)]) simp
  then show ?case by (rule Cons.IH [OF u(2)]) (rule Cons.prems(3), auto)
qed simp

section \<open>Words\<close>

lemma unat_less_64: "unat (a :: uint64) < 18446744073709551616"
  by (rule order_less_le_trans [OF unsigned_less]) simp

lemma unat_less_32: "unat (a :: uint) < 4294967296"
  by (rule order_less_le_trans [OF unsigned_less]) simp

lemma unat_ucast_32_64 [simp]: "unat (ucast (n :: uint) :: uint64) = unat n"
  using unat_less_32 [of n] by (simp add: unsigned_ucast_eq take_bit_eq_mod)

lemma uint_neq: "a \<noteq> b \<Longrightarrow> uint a \<noteq> uint b"
  using word_uint_eq_iff by blast

lemma take_bit_self:
  fixes w :: "'a :: len word"
  assumes "n < LENGTH('a)" and "w < 2 ^ n"
  shows "take_bit n w = w"
  by (metis assms take_bit_eq_mask less_mask_eq)

section \<open>Transition systems\<close>

text \<open>
  Interleavings of harts or threads are step relations. A component states its initial states,
  its steps and an invariant; the invariant then holds in every reachable state.
\<close>

inductive reach :: "('s \<Rightarrow> bool) \<Rightarrow> ('s \<Rightarrow> 's \<Rightarrow> bool) \<Rightarrow> 's \<Rightarrow> bool"
  for init :: "'s \<Rightarrow> bool" and step :: "'s \<Rightarrow> 's \<Rightarrow> bool" where
  reach_init: "init s \<Longrightarrow> reach init step s"
| reach_step: "reach init step s \<Longrightarrow> step s t \<Longrightarrow> reach init step t"

locale inv_system =
  fixes init :: "'s \<Rightarrow> bool" and step :: "'s \<Rightarrow> 's \<Rightarrow> bool" and inv :: "'s \<Rightarrow> bool"
  assumes inv_init: "init s \<Longrightarrow> inv s"
    and inv_step: "inv s \<Longrightarrow> step s t \<Longrightarrow> inv t"
begin

lemma inv_reach: "reach init step s \<Longrightarrow> inv s"
  by (induction rule: reach.induct) (auto intro: inv_init inv_step)

end

end
