(* ===== verification/Riscv.thy ===== *)
theory Riscv
  imports Kernel_Prelude
begin

text \<open>
  \<open>kernel/riscv.h\<close> and \<open>kernel/memlayout.h\<close>: the page-size and page-table macros of Sv39, the
  physical and virtual memory layout, and the supervisor status register with the interrupt
  enable operations. The lemmas show the arithmetic meaning of the bit manipulations and that a
  page-table entry, and a virtual address split into its three indices, can be read back.
\<close>

section \<open>Pages\<close>

definition PGSIZE :: uint64 where [simp]: "PGSIZE = 4096"

definition PGSHIFT :: nat where [simp]: "PGSHIFT = 12"

definition PGROUNDUP :: "uint64 \<Rightarrow> uint64" where
  "PGROUNDUP sz = (sz + PGSIZE - 1) AND NOT (PGSIZE - 1)"

definition PGROUNDDOWN :: "uint64 \<Rightarrow> uint64" where
  "PGROUNDDOWN a = a AND NOT (PGSIZE - 1)"

section \<open>Page-table entries\<close>

definition PTE_V :: uint64 where [simp]: "PTE_V = push_bit 0 1"
definition PTE_R :: uint64 where [simp]: "PTE_R = push_bit 1 1"
definition PTE_W :: uint64 where [simp]: "PTE_W = push_bit 2 1"
definition PTE_X :: uint64 where [simp]: "PTE_X = push_bit 3 1"
definition PTE_U :: uint64 where [simp]: "PTE_U = push_bit 4 1"

definition PA2PTE :: "uint64 \<Rightarrow> uint64" where
  "PA2PTE pa = push_bit 10 (drop_bit 12 pa)"

definition PTE2PA :: "uint64 \<Rightarrow> uint64" where
  "PTE2PA pte = push_bit 12 (drop_bit 10 pte)"

definition PTE_FLAGS :: "uint64 \<Rightarrow> uint64" where
  "PTE_FLAGS pte = pte AND 0x3FF"

definition PXMASK :: uint64 where [simp]: "PXMASK = 0x1FF"

definition PXSHIFT :: "nat \<Rightarrow> nat" where
  "PXSHIFT level = PGSHIFT + 9 * level"

definition PX :: "nat \<Rightarrow> uint64 \<Rightarrow> uint64" where
  "PX level va = drop_bit (PXSHIFT level) va AND PXMASK"

definition MAXVA :: uint64 where "MAXVA = push_bit (9 + 9 + 9 + 12 - 1) 1"

definition MAKE_SATP :: "uint64 \<Rightarrow> uint64" where
  "MAKE_SATP pagetable = push_bit 60 8 OR drop_bit 12 pagetable"

section \<open>Memory layout\<close>

definition UART0 :: uint64 where [simp]: "UART0 = 0x10000000"
definition VIRTIO0 :: uint64 where [simp]: "VIRTIO0 = 0x10001000"
definition PLIC :: uint64 where [simp]: "PLIC = 0x0c000000"
definition KERNBASE :: uint64 where [simp]: "KERNBASE = 0x80000000"
definition PHYSTOP :: uint64 where [simp]: "PHYSTOP = KERNBASE + 128 * 1024 * 1024"
definition TRAMPOLINE :: uint64 where "TRAMPOLINE = MAXVA - PGSIZE"
definition KSTACK :: "nat \<Rightarrow> uint64" where
  "KSTACK p = TRAMPOLINE - (of_nat p + 1) * 2 * PGSIZE"
definition TRAPFRAME :: uint64 where "TRAPFRAME = TRAMPOLINE - PGSIZE"

section \<open>Supervisor status register\<close>

definition SSTATUS_SPP :: uint64 where [simp]: "SSTATUS_SPP = push_bit 8 1"
definition SSTATUS_SPIE :: uint64 where [simp]: "SSTATUS_SPIE = push_bit 5 1"
definition SSTATUS_SIE :: uint64 where [simp]: "SSTATUS_SIE = push_bit 1 1"

definition intr_on :: "uint64 \<Rightarrow> uint64" where
  "intr_on sstatus = sstatus OR SSTATUS_SIE"

definition intr_off :: "uint64 \<Rightarrow> uint64" where
  "intr_off sstatus = sstatus AND NOT SSTATUS_SIE"

definition intr_get :: "uint64 \<Rightarrow> bool" where
  "intr_get sstatus \<longleftrightarrow> sstatus AND SSTATUS_SIE \<noteq> 0"

lemma MAXVA_eq: "MAXVA = 0x4000000000"
  by (simp add: MAXVA_def)

lemma TRAMPOLINE_eq: "TRAMPOLINE = 0x3FFFFFF000"
  by (simp add: TRAMPOLINE_def MAXVA_eq)

lemma TRAPFRAME_eq: "TRAPFRAME = 0x3FFFFFE000"
  by (simp add: TRAPFRAME_def TRAMPOLINE_eq)

lemma intr_get_bit: "intr_get x \<longleftrightarrow> bit x 1"
  using and_exp_eq_0_iff_not_bit [of x 1] by (simp add: intr_get_def)

lemma intr_get_on [simp]: "intr_get (intr_on x)"
  by (simp add: intr_get_bit intr_on_def bit_simps)

lemma intr_get_off [simp]: "\<not> intr_get (intr_off x)"
  by (simp add: intr_get_bit intr_off_def bit_simps)

lemma intr_on_off [simp]: "intr_get x \<Longrightarrow> intr_on (intr_off x) = x"
  apply (rule bit_word_eqI)
  apply (auto simp: intr_get_bit intr_on_def intr_off_def bit_simps)
  done

lemma intr_off_idem [simp]: "\<not> intr_get x \<Longrightarrow> intr_off x = x"
  apply (rule bit_word_eqI)
  apply (auto simp: intr_get_bit intr_off_def bit_simps)
  done

section \<open>Arithmetic meaning of the page macros\<close>

definition pg_aligned :: "uint64 \<Rightarrow> bool" where
  "pg_aligned a \<longleftrightarrow> a mod PGSIZE = 0"

lemma low_mask_12: "(4095 :: uint64) = mask 12"
  by (simp add: mask_eq_exp_minus_1)

lemma PGROUNDDOWN_shift: "PGROUNDDOWN a = push_bit 12 (drop_bit 12 a)"
  unfolding PGROUNDDOWN_def
  apply (simp add: low_mask_12 del: mask_numeral)
  apply (rule bit_word_eqI)
  apply (auto simp: bit_simps)
  done

lemma unat_PGROUNDDOWN: "unat (PGROUNDDOWN a) = unat a div 4096 * 4096"
proof -
  have "unat a div 4096 * 4096 < 2 ^ 64"
    using unat_less_64 [of a] div_times_less_eq_dividend [of "unat a" 4096] by simp
  moreover have "unat (PGROUNDDOWN a) = take_bit 64 (push_bit 12 (drop_bit 12 (unat a)))"
    by (simp only: PGROUNDDOWN_shift unsigned_push_bit_eq unat_drop_bit_eq) simp
  ultimately show ?thesis
    by (simp add: push_bit_eq_mult drop_bit_eq_div take_bit_eq_mod)
qed

lemma pg_aligned_unat: "pg_aligned a \<longleftrightarrow> unat a mod 4096 = 0"
  by (simp add: pg_aligned_def word_unat_eq_iff unat_mod_distrib)

lemma PGROUNDDOWN_aligned [simp]: "pg_aligned (PGROUNDDOWN a)"
  by (simp add: pg_aligned_unat unat_PGROUNDDOWN)

lemma PGROUNDDOWN_id: "pg_aligned a \<Longrightarrow> PGROUNDDOWN a = a"
  by (auto simp: pg_aligned_unat word_unat_eq_iff unat_PGROUNDDOWN)

lemma PGROUNDDOWN_le: "PGROUNDDOWN a \<le> a"
  by (simp add: word_le_nat_alt unat_PGROUNDDOWN div_times_less_eq_dividend)

lemma PGROUNDUP_down: "PGROUNDUP a = PGROUNDDOWN (a + 4095)"
  by (simp add: PGROUNDUP_def PGROUNDDOWN_def add.commute)

lemma unat_PGROUNDUP:
  assumes "unat a + 4095 < 2 ^ 64"
  shows "unat (PGROUNDUP a) = (unat a + 4095) div 4096 * 4096"
proof -
  have "unat (a + 4095) = unat a + 4095"
    using assms by (simp add: unat_word_ariths)
  then show ?thesis by (simp add: PGROUNDUP_down unat_PGROUNDDOWN)
qed

lemma PGROUNDUP_aligned [simp]: "pg_aligned (PGROUNDUP a)"
  by (simp add: PGROUNDUP_down)

lemma PGROUNDUP_id:
  assumes "pg_aligned a"
  shows "PGROUNDUP a = a"
proof -
  have m: "unat a mod 4096 = 0" using assms by (simp add: pg_aligned_unat)
  have "unat a < 2 ^ 64" using unat_less_64 [of a] by simp
  moreover obtain k where k: "unat a = 4096 * k" using m by (metis mod_0_imp_dvd dvdE)
  ultimately have "unat a + 4095 < 2 ^ 64" by simp
  then have "unat (PGROUNDUP a) = (unat a + 4095) div 4096 * 4096"
    by (rule unat_PGROUNDUP)
  also have "\<dots> = unat a" using k by simp
  finally show ?thesis by (simp add: word_unat_eq_iff)
qed

lemma pg_aligned_bit:
  assumes "pg_aligned a" and "n < 12"
  shows "\<not> bit a n"
proof -
  have "bit (PGROUNDDOWN a) n \<longleftrightarrow> False"
    using assms(2) by (simp add: PGROUNDDOWN_shift bit_simps)
  then show ?thesis using assms(1) by (simp add: PGROUNDDOWN_id)
qed

text \<open>\<open>PGROUNDDOWN\<close> is the page an address lies in: addresses of different pages differ.\<close>

lemma pg_aligned_bound: "pg_aligned p \<Longrightarrow> unat p \<le> 18446744073709547520"
proof -
  assume "pg_aligned p"
  then obtain k where k: "unat p = 4096 * k" by (metis pg_aligned_unat mod_0_imp_dvd dvdE)
  then show ?thesis using unat_less_64 [of p] by simp
qed

lemma unat_page_off:
  assumes "pg_aligned p" and "unat j < 4096"
  shows "unat (p + j) = unat p + unat j"
  using pg_aligned_bound [OF assms(1)] assms(2) by (simp add: unat_word_ariths)

lemma PGROUNDDOWN_add:
  assumes "pg_aligned p" and "unat j < 4096"
  shows "PGROUNDDOWN (p + j) = p"
proof -
  obtain k where "unat p = 4096 * k" using assms by (metis pg_aligned_unat mod_0_imp_dvd dvdE)
  then show ?thesis
    using assms by (simp add: word_unat_eq_iff unat_PGROUNDDOWN unat_page_off)
qed

lemma PGROUNDDOWN_eq_iff:
  assumes "pg_aligned p"
  shows "PGROUNDDOWN a = p \<longleftrightarrow> unat (a - p) < 4096"
proof
  assume p: "PGROUNDDOWN a = p"
  then have "p \<le> a" using PGROUNDDOWN_le by metis
  then have "unat (a - p) = unat a - unat p" by (simp add: unat_sub_if_size word_le_nat_alt)
  moreover have "unat p = unat a div 4096 * 4096" using p unat_PGROUNDDOWN by metis
  ultimately show "unat (a - p) < 4096" by (simp add: minus_div_mult_eq_mod)
next
  assume "unat (a - p) < 4096"
  then have "PGROUNDDOWN (p + (a - p)) = p" using assms by (intro PGROUNDDOWN_add)
  then show "PGROUNDDOWN a = p" by simp
qed

section \<open>Page-table entries can be read back\<close>

lemma PTE2PA_PA2PTE: "PTE2PA (PA2PTE pa) = PGROUNDDOWN pa"
  apply (rule bit_word_eqI)
  apply (auto simp: PTE2PA_def PA2PTE_def PGROUNDDOWN_shift bit_simps)
  done

lemma PTE2PA_mk:
  assumes "flags < 1024"
  shows "PTE2PA (PA2PTE pa OR flags) = PGROUNDDOWN pa"
proof -
  have "take_bit 10 flags = flags"
    using assms by (simp add: take_bit_self)
  then have "\<not> bit flags n" if "10 \<le> n" for n
    using that by (metis bit_take_bit_iff not_le)
  then show ?thesis
    by (intro bit_word_eqI)
      (auto simp: PTE2PA_def PA2PTE_def PGROUNDDOWN_shift bit_simps)
qed

lemma PTE_FLAGS_mk:
  assumes "flags < 1024"
  shows "PTE_FLAGS (PA2PTE pa OR flags) = flags"
proof -
  have fl: "take_bit 10 flags = flags"
    using assms by (simp add: take_bit_self)
  have "PTE_FLAGS (PA2PTE pa OR flags) = take_bit 10 (PA2PTE pa OR flags)"
    by (simp add: PTE_FLAGS_def take_bit_eq_mask mask_eq_exp_minus_1)
  also have "\<dots> = take_bit 10 flags"
    by (rule bit_word_eqI) (auto simp: PA2PTE_def bit_simps)
  finally show ?thesis using fl by simp
qed

section \<open>Virtual addresses as three indices and an offset\<close>

lemma unat_PX: "unat (PX l va) = unat va div 2 ^ (12 + 9 * l) mod 512"
proof -
  have "(0x1FF :: uint64) = mask 9" by (simp add: mask_eq_exp_minus_1)
  then have "PX l va = take_bit 9 (drop_bit (12 + 9 * l) va)"
    by (simp add: PX_def PXSHIFT_def take_bit_eq_mask)
  then have "unat (PX l va) = take_bit 9 (drop_bit (12 + 9 * l) (unat va))"
    by (simp only: unsigned_take_bit_eq unat_drop_bit_eq)
  then show ?thesis
    by (simp add: take_bit_eq_mod drop_bit_eq_div)
qed

lemma PX_less: "PX l va < 512"
  by (simp add: word_less_nat_alt unat_PX)

lemma va_split:
  assumes "va < MAXVA"
  shows "unat va = unat (PX 2 va) * 2 ^ 30 + unat (PX 1 va) * 2 ^ 21
    + unat (PX 0 va) * 2 ^ 12 + unat va mod 4096"
proof -
  have "unat va < 2 ^ 38" using assms by (simp add: word_less_nat_alt MAXVA_eq)
  then have top: "unat va div 2 ^ 30 mod 512 = unat va div 2 ^ 30" by simp
  let ?q = "unat va div 4096"
  have q: "unat va div 2 ^ 30 = ?q div 512 div 512" "unat va div 2 ^ 21 = ?q div 512"
    by (simp_all flip: div_mult2_eq)
  have "n = c * 1073741824 + t * 2097152 + r * 4096 + s"
    if "n = a * 4096 + s" "a = b * 512 + r" "b = c * 512 + t" for n a b c r s t :: nat
    using that by simp
  from this [of "unat va" ?q "unat va mod 4096" "?q div 512" "?q mod 512"
      "?q div 512 div 512" "?q div 512 mod 512"]
  have "unat va = ?q div 512 div 512 * 1073741824 + ?q div 512 mod 512 * 2097152
      + ?q mod 512 * 4096 + unat va mod 4096"
    by simp
  then show ?thesis using top q by (simp add: unat_PX)
qed

lemma PX_inj:
  assumes "va < MAXVA" "va' < MAXVA" "pg_aligned va" "pg_aligned va'"
    and "PX 2 va = PX 2 va'" "PX 1 va = PX 1 va'" "PX 0 va = PX 0 va'"
  shows "va = va'"
  using va_split [OF assms(1)] va_split [OF assms(2)] assms(3-)
  by (simp add: word_unat_eq_iff pg_aligned_unat)

section \<open>Correctness of the address macros\<close>

text \<open>
  C39. A page-table entry built from a physical address and flag bits gives both back.
\<close>

theorem pte_roundtrip:
  assumes "flags < 1024"
  shows "PTE2PA (PA2PTE pa OR flags) = PGROUNDDOWN pa \<and> PTE_FLAGS (PA2PTE pa OR flags) = flags"
  using PTE2PA_mk [OF assms] PTE_FLAGS_mk [OF assms] by simp

theorem pte_roundtrip_witness:
  "PTE2PA (PA2PTE 0x87654000 OR 0x1f) = 0x87654000 \<and> PTE_FLAGS (PA2PTE 0x87654000 OR 0x1f) = 0x1f"
  using pte_roundtrip [of "0x1f" "0x87654000"] by (simp add: PGROUNDDOWN_def)

text \<open>
  C38. The three 9-bit indices of \<open>walk\<close> lie within a page-table page and identify a page: two
  page-aligned addresses below \<open>MAXVA\<close> with the same indices are equal.
\<close>

theorem px_identifies_page:
  assumes "va < MAXVA" and "va' < MAXVA" and "pg_aligned va" and "pg_aligned va'"
  shows "(\<forall>l. PX l va < 512) \<and> (PX 2 va = PX 2 va' \<and> PX 1 va = PX 1 va' \<and> PX 0 va = PX 0 va' \<longleftrightarrow> va = va')"
  using PX_less PX_inj [OF assms] by blast

theorem px_identifies_page_witness:
  "\<not> (PX 2 0x1000 = PX 2 0x40001000 \<and> PX 1 0x1000 = PX 1 0x40001000 \<and> PX 0 0x1000 = PX 0 0x40001000)"
  using px_identifies_page [of "0x1000" "0x40001000"] by (simp add: MAXVA_eq pg_aligned_def)

end
