(* ===== verification/Kstring.thy ===== *)
theory Kstring
  imports Riscv
begin

text \<open>
  \<open>kernel/string.c\<close>. The block operations \<open>memset\<close> and \<open>memmove\<close> work on the byte memory, since
  whether the two regions of \<open>memmove\<close> overlap depends on their addresses. The other routines
  only read forward from a pointer or fill a buffer, so a \<open>char *\<close> is the sequence of bytes from
  that pointer onwards and a pointer increment is a shift of the sequence. Lengths are the
  unsigned values of the C parameters; an \<open>int\<close> parameter is an \<open>int\<close>.
\<close>

section \<open>Block operations on memory\<close>

definition store8 :: "uint64 \<Rightarrow> uchar \<Rightarrow> memory \<Rightarrow> memory" where
  "store8 a v m = m(a := v)"

definition memset :: "memory \<Rightarrow> uint64 \<Rightarrow> uint \<Rightarrow> uint \<Rightarrow> memory" where
  "memset m dst c n = fold (\<lambda>i m. store8 (dst + of_nat i) (ucast c) m) [0..<unat n] m"

definition memmove :: "memory \<Rightarrow> uint64 \<Rightarrow> uint64 \<Rightarrow> uint \<Rightarrow> memory" where
  "memmove m dst src n =
     (if n = 0 then m
      else if src < dst \<and> src + ucast n > dst
      then fold (\<lambda>i m. store8 (dst + of_nat i) (m (src + of_nat i)) m) (rev [0..<unat n]) m
      else fold (\<lambda>i m. store8 (dst + of_nat i) (m (src + of_nat i)) m) [0..<unat n] m)"

definition memcpy :: "memory \<Rightarrow> uint64 \<Rightarrow> uint64 \<Rightarrow> uint \<Rightarrow> memory" where
  "memcpy m dst src n = memmove m dst src n"

section \<open>Byte sequences\<close>

type_synonym bytes = "nat \<Rightarrow> uchar"

abbreviation adv :: "bytes \<Rightarrow> bytes" where
  "adv s \<equiv> (\<lambda>i. s (Suc i))"

fun memcmp :: "bytes \<Rightarrow> bytes \<Rightarrow> nat \<Rightarrow> int" where
  "memcmp s1 s2 0 = 0"
| "memcmp s1 s2 (Suc n) =
     (if s1 0 \<noteq> s2 0 then uint (s1 0) - uint (s2 0) else memcmp (adv s1) (adv s2) n)"

fun strncmp :: "bytes \<Rightarrow> bytes \<Rightarrow> nat \<Rightarrow> int" where
  "strncmp p q 0 = 0"
| "strncmp p q (Suc n) =
     (if p 0 \<noteq> 0 \<and> p 0 = q 0 then strncmp (adv p) (adv q) n else uint (p 0) - uint (q 0))"

text \<open>
  A destination buffer is the array it is in. The copy loop of \<open>strncpy\<close> writes index \<open>i\<close> of the buffer and counts \<open>n\<close> down; it leaves the
  position and the count for the padding loop.
\<close>

function strncpy_copy :: "uchar list \<Rightarrow> bytes \<Rightarrow> nat \<Rightarrow> int \<Rightarrow> uchar list \<times> nat \<times> int" where
  "strncpy_copy s t i n =
     (if n > 0 then
        (if t i \<noteq> 0 then strncpy_copy (s[i := t i]) t (Suc i) (n - 1)
         else (s[i := t i], Suc i, n - 1))
      else (s, i, n - 1))"
  by pat_completeness auto
termination
  by (relation "measure (\<lambda>(s, t, i, n). nat n)") auto

function strncpy_pad :: "uchar list \<Rightarrow> nat \<Rightarrow> int \<Rightarrow> uchar list" where
  "strncpy_pad s i n = (if n > 0 then strncpy_pad (s[i := 0]) (Suc i) (n - 1) else s)"
  by pat_completeness auto
termination
  by (relation "measure (\<lambda>(s, i, n). nat n)") auto

definition strncpy :: "uchar list \<Rightarrow> bytes \<Rightarrow> int \<Rightarrow> uchar list" where
  "strncpy s t n = (case strncpy_copy s t 0 n of (s, i, n) \<Rightarrow> strncpy_pad s i n)"

function safestrcpy_copy :: "uchar list \<Rightarrow> bytes \<Rightarrow> nat \<Rightarrow> int \<Rightarrow> uchar list \<times> nat" where
  "safestrcpy_copy s t i n =
     (if n - 1 > 0 then
        (if t i \<noteq> 0 then safestrcpy_copy (s[i := t i]) t (Suc i) (n - 1)
         else (s[i := t i], Suc i))
      else (s, i))"
  by pat_completeness auto
termination
  by (relation "measure (\<lambda>(s, t, i, n). nat n)") auto

definition safestrcpy :: "uchar list \<Rightarrow> bytes \<Rightarrow> int \<Rightarrow> uchar list" where
  "safestrcpy s t n =
     (if n \<le> 0 then s else (case safestrcpy_copy s t 0 n of (s, i) \<Rightarrow> s[i := 0]))"

partial_function (option) strlen_from :: "bytes \<Rightarrow> nat \<Rightarrow> nat option" where
  "strlen_from s n = (if s n \<noteq> 0 then strlen_from s (Suc n) else Some n)"

definition strlen :: "bytes \<Rightarrow> nat option" where
  "strlen s = strlen_from s 0"

declare strncpy_copy.simps [simp del] strncpy_pad.simps [simp del] safestrcpy_copy.simps [simp del]

section \<open>What the block operations compute\<close>

lemma addr_off_eq:
  fixes a dst :: uint64
  assumes "k < 18446744073709551616"
  shows "a = dst + of_nat k \<longleftrightarrow> unat (a - dst) = k"
proof
  assume "a = dst + of_nat k"
  then show "unat (a - dst) = k" using assms by (simp add: unat_of_nat)
next
  assume "unat (a - dst) = k"
  then have "a - dst = of_nat k" using assms by (simp add: word_unat_eq_iff unat_of_nat)
  then show "a = dst + of_nat k" by (metis add_diff_cancel_left' diff_add_cancel add.commute)
qed

lemma store8_apply: "store8 a v m b = (if b = a then v else m b)"
  by (simp add: store8_def)

lemma fold_fill:
  assumes "k \<le> 18446744073709551616"
  shows "fold (\<lambda>i m. store8 (dst + of_nat i) c m) [0..<k] m a
    = (if unat (a - dst) < k then c else m a)"
  using assms
proof (induction k)
  case (Suc k)
  have "a = dst + of_nat k \<longleftrightarrow> unat (a - dst) = k"
    using Suc.prems by (intro addr_off_eq) simp
  with Suc show ?case by (simp add: store8_apply less_Suc_eq)
qed simp

lemma memset_apply:
  "memset m dst c n a = (if unat (a - dst) < unat n then ucast c else m a)"
  unfolding memset_def by (rule fold_fill) (use unat_less_32 [of n] in simp)

text \<open>
  Copying cell by cell equals a simultaneous copy when no source cell has been written before
  it is read; \<open>memmove\<close> chooses its direction for this.
\<close>

lemma fold_copy_up:
  assumes "k < 18446744073709551616"
    and "\<And>i j. i < j \<Longrightarrow> j < k \<Longrightarrow> src + of_nat j \<noteq> dst + of_nat i"
  shows "fold (\<lambda>i m. store8 (dst + of_nat i) (m (src + of_nat i)) m) [0..<k] m a
    = (if unat (a - dst) < k then m (src + (a - dst)) else m a)"
  using assms
proof (induction k arbitrary: a)
  case (Suc k)
  let ?F = "fold (\<lambda>i m. store8 (dst + of_nat i) (m (src + of_nat i)) m) [0..<k] m"
  have IH: "?F b = (if unat (b - dst) < k then m (src + (b - dst)) else m b)" for b
    using Suc by simp
  have "\<not> unat (src + of_nat k - dst) < k"
  proof
    assume lt: "unat (src + of_nat k - dst) < k"
    then have "src + of_nat k = dst + of_nat (unat (src + of_nat k - dst))"
      using Suc.prems(1) by (subst addr_off_eq) auto
    with Suc.prems(2) lt show False by blast
  qed
  then have r: "?F (src + of_nat k) = m (src + of_nat k)" by (simp add: IH)
  have e: "a = dst + of_nat k \<longleftrightarrow> unat (a - dst) = k"
    using Suc.prems by (intro addr_off_eq) simp
  have "fold (\<lambda>i m. store8 (dst + of_nat i) (m (src + of_nat i)) m) [0..<Suc k] m a
    = (if a = dst + of_nat k then m (src + of_nat k) else ?F a)"
    by (simp add: store8_apply r)
  then show ?case using e by (auto simp: IH less_Suc_eq)
qed simp

lemma fold_copy_down:
  assumes "k < 18446744073709551616"
    and "\<And>i j. i < j \<Longrightarrow> j < k \<Longrightarrow> src + of_nat i \<noteq> dst + of_nat j"
  shows "fold (\<lambda>i m. store8 (dst + of_nat i) (m (src + of_nat i)) m) (rev [0..<k]) m a
    = (if unat (a - dst) < k then m (src + (a - dst)) else m a)"
  using assms
proof (induction k arbitrary: m)
  case (Suc k)
  let ?m = "store8 (dst + of_nat k) (m (src + of_nat k)) m"
  have e: "a = dst + of_nat k \<longleftrightarrow> unat (a - dst) = k"
    using Suc.prems by (intro addr_off_eq) simp
  have s: "?m (src + (a - dst)) = m (src + (a - dst))" if "unat (a - dst) < k"
  proof -
    have "src + of_nat (unat (a - dst)) \<noteq> dst + of_nat k" using Suc.prems(2) that by blast
    moreover have "of_nat (unat (a - dst)) = a - dst" by (simp add: of_nat_unat)
    ultimately show ?thesis by (simp add: store8_apply)
  qed
  have "fold (\<lambda>i m. store8 (dst + of_nat i) (m (src + of_nat i)) m) (rev [0..<Suc k]) m a
    = (if unat (a - dst) < k then ?m (src + (a - dst)) else ?m a)"
    using Suc by simp
  also have "\<dots> = (if unat (a - dst) < Suc k then m (src + (a - dst)) else m a)"
    using e s by (auto simp: store8_apply less_Suc_eq)
  finally show ?case .
qed simp

lemma memmove_apply:
  assumes "unat src + unat n < 18446744073709551616"
    and "unat dst + unat n < 18446744073709551616"
  shows "memmove m dst src n a
    = (if unat (a - dst) < unat n then m (src + (a - dst)) else m a)"
proof (cases "n = 0")
  case False
  have k: "unat n < 18446744073709551616" using unat_less_32 [of n] by simp
  have off: "unat (src + of_nat i) = unat src + i" "unat (dst + of_nat i) = unat dst + i"
    if "i < unat n" for i
    using that assms by (simp_all add: unat_word_ariths unat_of_nat)
  have over: "src < dst \<and> src + ucast n > dst
    \<longleftrightarrow> unat src < unat dst \<and> unat dst < unat src + unat n"
    using assms by (auto simp: word_less_nat_alt unat_word_ariths)
  show ?thesis
  proof (cases "src < dst \<and> src + ucast n > dst")
    case True
    have "src + of_nat i \<noteq> dst + of_nat j" if "i < j" "j < unat n" for i j
      using that True over off [of i] off [of j] by (auto simp: word_unat_eq_iff)
    then show ?thesis
      using True False by (simp add: memmove_def fold_copy_down [OF k])
  next
    case F: False
    have up: "src + of_nat j \<noteq> dst + of_nat i" if "i < j" "j < unat n" for i j
      using that F over off [of i] off [of j] by (auto simp: word_unat_eq_iff)
    show ?thesis
      using F False by (simp only: memmove_def fold_copy_up [OF k up] if_False)
  qed
qed (simp add: memmove_def)

section \<open>What the string routines compute\<close>

text \<open>The C string held in the first \<open>n\<close> bytes: up to a NUL byte, or all of them.\<close>

definition cname :: "nat \<Rightarrow> bytes \<Rightarrow> uchar list" where
  "cname n s = takeWhile (\<lambda>c. c \<noteq> 0) (map s [0..<n])"

lemma cname_0 [simp]: "cname 0 s = []"
  by (simp add: cname_def)

lemma cname_Suc [simp]:
  "cname (Suc n) s = (if s 0 = 0 then [] else s 0 # cname n (adv s))"
proof -
  have "map s [0..<Suc n] = s 0 # map (adv s) [0..<n]"
    by (simp add: upt_conv_Cons map_Suc_upt [symmetric] comp_def del: upt_Suc)
  then show ?thesis by (simp add: cname_def)
qed

lemma cname_cong: "(\<And>j. j < n \<Longrightarrow> s j = t j) \<Longrightarrow> cname n s = cname n t"
  unfolding cname_def by (rule arg_cong [where f = "takeWhile _"]) simp

lemma memcmp_eq_0: "memcmp s1 s2 n = 0 \<longleftrightarrow> (\<forall>i<n. s1 i = s2 i)"
proof (induction n arbitrary: s1 s2)
  case (Suc n)
  have "(\<forall>i<Suc n. s1 i = s2 i) \<longleftrightarrow> s1 0 = s2 0 \<and> (\<forall>i<n. s1 (Suc i) = s2 (Suc i))"
    by (simp only: All_less_Suc2)
  with Suc show ?case by (simp add: uint_neq)
qed simp

lemma strncmp_eq_0: "strncmp p q n = 0 \<longleftrightarrow> cname n p = cname n q"
proof (induction p q n rule: strncmp.induct)
  case (2 p q n)
  show ?case
  proof (cases "p 0 = q 0")
    case False
    then show ?thesis using uint_neq [OF False] by auto
  qed (use 2 in simp)
qed simp

lemma strncpy_pad_length [simp]: "length (strncpy_pad s i n) = length s"
  by (induction s i n rule: strncpy_pad.induct) (subst strncpy_pad.simps, simp)

lemma strncpy_pad_nth:
  "j < length s \<Longrightarrow> strncpy_pad s i n ! j = (if i \<le> j \<and> int j < int i + n then 0 else s ! j)"
  by (induction s i n rule: strncpy_pad.induct)
    (subst strncpy_pad.simps, auto simp: nth_list_update)

lemma strncpy_copy_pad:
  assumes "j < length s"
  shows "(case strncpy_copy s t i n of (s', i', n') \<Rightarrow> strncpy_pad s' i' n' ! j)
    = (if i \<le> j \<and> int j < int i + n
       then (if \<exists>k. i \<le> k \<and> k < j \<and> t k = 0 then 0 else t j) else s ! j)"
  using assms
proof (induction s t i n rule: strncpy_copy.induct)
  case (1 s t i n)
  show ?case
  proof (cases "n > 0 \<and> t i \<noteq> 0")
    case True
    have "(\<exists>k\<ge>i. k < j \<and> t k = 0) \<longleftrightarrow> (\<exists>k\<ge>Suc i. k < j \<and> t k = 0)"
      using True by (metis Suc_leD not_less_eq_eq le_antisym)
    with True 1 show ?thesis
      by (subst strncpy_copy.simps) (auto simp: nth_list_update not_less_eq_eq)
  next
    case False
    have "(\<exists>k\<ge>i. k < j \<and> t k = 0) \<longleftrightarrow> i < j" if "t i = 0"
      using that by auto
    with False "1.prems" show ?thesis
      by (subst strncpy_copy.simps) (auto simp: strncpy_pad_nth nth_list_update)
  qed
qed

lemma strncpy_nth:
  "j < length s \<Longrightarrow> strncpy s t n ! j
    = (if int j < n then (if \<exists>k<j. t k = 0 then 0 else t j) else s ! j)"
  using strncpy_copy_pad [of j s t 0 n]
  by (cases "strncpy_copy s t 0 n") (simp add: strncpy_def)

lemma strncpy_copy_length: "length (fst (strncpy_copy s t i n)) = length s"
  by (induction s t i n rule: strncpy_copy.induct) (subst strncpy_copy.simps, simp)

lemma strncpy_length [simp]: "length (strncpy s t n) = length s"
  using strncpy_copy_length [of s t 0 n]
  by (cases "strncpy_copy s t 0 n") (simp add: strncpy_def)

text \<open>A list used as a C string: past its end it reads NUL.\<close>

definition bytes_of :: "uchar list \<Rightarrow> bytes" where
  "bytes_of xs i = (if i < length xs then xs ! i else 0)"

lemma cname_zeroed: "cname n (\<lambda>j. if \<exists>k<j. t k = 0 then 0 else t j) = cname n t"
proof (induction n arbitrary: t)
  case (Suc n)
  show ?case
  proof (cases "t 0 = 0")
    case False
    then have "(\<lambda>j. if \<exists>k<Suc j. t k = 0 then 0 else t (Suc j))
      = (\<lambda>j. if \<exists>k<j. t (Suc k) = 0 then 0 else t (Suc j))"
      by (simp only: Ex_less_Suc2) simp
    with False Suc [of "adv t"] show ?thesis by simp
  qed simp
qed simp

lemma cname_strncpy:
  assumes "n \<le> length s"
  shows "cname n (bytes_of (strncpy s t (int n))) = cname n t"
proof -
  have "cname n (bytes_of (strncpy s t (int n)))
    = cname n (\<lambda>j. if \<exists>k<j. t k = 0 then 0 else t j)"
    using assms by (intro cname_cong) (simp add: bytes_of_def strncpy_nth)
  then show ?thesis by (simp only: cname_zeroed)
qed

lemma safestrcpy_copy_length: "length (fst (safestrcpy_copy s t i n)) = length s"
  by (induction s t i n rule: safestrcpy_copy.induct) (subst safestrcpy_copy.simps, simp)

lemma safestrcpy_length [simp]: "length (safestrcpy s t n) = length s"
  using safestrcpy_copy_length [of s t 0 n]
  by (cases "safestrcpy_copy s t 0 n") (simp add: safestrcpy_def)

lemma safestrcpy_copy_frame:
  assumes "safestrcpy_copy s t i n = (s', i')" and "0 < n"
  shows "i \<le> i' \<and> int i' < int i + n \<and> (\<forall>j. j < i \<or> int j \<ge> int i + n \<longrightarrow> s' ! j = s ! j)"
  using assms
proof (induction s t i n rule: safestrcpy_copy.induct)
  case (1 s t i n)
  show ?case
  proof (cases "n - 1 > 0 \<and> t i \<noteq> 0")
    case True
    then have "safestrcpy_copy (s[i := t i]) t (Suc i) (n - 1) = (s', i')"
      using "1.prems"(1) by (subst (asm) safestrcpy_copy.simps) simp
    with "1.IH" True have "Suc i \<le> i' \<and> int i' < int (Suc i) + (n - 1) \<and>
      (\<forall>j. j < Suc i \<or> int j \<ge> int (Suc i) + (n - 1) \<longrightarrow> s' ! j = s[i := t i] ! j)"
      by simp
    then show ?thesis by auto
  next
    case False
    then show ?thesis
      using "1.prems" by (subst (asm) safestrcpy_copy.simps) (auto split: if_splits)
  qed
qed

lemma safestrcpy_copy_cname:
  assumes "safestrcpy_copy s t i n = (s', i')" and "0 < n" and "int i + n \<le> int (length s)"
  shows "takeWhile (\<lambda>c. c \<noteq> 0) (drop i (s'[i' := 0])) = cname (nat (n - 1)) (\<lambda>k. t (i + k))"
  using assms
proof (induction s t i n rule: safestrcpy_copy.induct)
  case (1 s t i n)
  have len: "length s' = length s"
    using safestrcpy_copy_length [of s t i n] "1.prems"(1) by simp
  have d: "drop i (s'[i' := 0]) = (s'[i' := 0]) ! i # drop (Suc i) (s'[i' := 0])"
    using "1.prems" len by (intro Cons_nth_drop_Suc [symmetric]) simp
  show ?case
  proof (cases "n - 1 > 0 \<and> t i \<noteq> 0")
    case True
    then have rec: "safestrcpy_copy (s[i := t i]) t (Suc i) (n - 1) = (s', i')"
      using "1.prems"(1) by (subst (asm) safestrcpy_copy.simps) simp
    have "Suc i \<le> i'" and "s' ! i = t i"
      using safestrcpy_copy_frame [OF rec] True "1.prems"(3) by auto
    moreover have "nat (n - 1) = Suc (nat (n - 1 - 1))" using True by arith
    ultimately show ?thesis
      using d "1.IH" [OF _ _ rec] True "1.prems"(3) by simp
  next
    case False
    then consider "n = 1" "s' = s" "i' = i" | "n > 1" "t i = 0" "s' = s[i := 0]" "i' = Suc i"
      using "1.prems"(1,2) by (subst (asm) safestrcpy_copy.simps) (auto split: if_splits)
    then show ?thesis
    proof cases
      case 1
      with d "1.prems"(3) show ?thesis by simp
    next
      case 2
      moreover have "nat (n - 1) = Suc (nat (n - 1 - 1))" using 2 by arith
      ultimately show ?thesis using d "1.prems"(3) by simp
    qed
  qed
qed

text \<open>The copy is the source truncated to fit, always NUL terminated inside the buffer.\<close>

lemma safestrcpy_cname:
  assumes "0 < n" and "n = int (length s)"
  shows "takeWhile (\<lambda>c. c \<noteq> 0) (safestrcpy s t n) = cname (nat (n - 1)) t
    \<and> 0 \<in> set (safestrcpy s t n)"
proof -
  obtain s' i' where c: "safestrcpy_copy s t 0 n = (s', i')" by fastforce
  have "length s' = length s" using safestrcpy_copy_length [of s t 0 n] c by simp
  moreover have "int i' < n" using safestrcpy_copy_frame [OF c] assms by simp
  ultimately have "0 \<in> set (s'[i' := 0])"
    using assms by (intro set_update_memI) simp
  then show ?thesis
    using c assms safestrcpy_copy_cname [OF c assms(1)] by (simp add: safestrcpy_def)
qed

lemma strlen_from_eq:
  "s k = 0 \<Longrightarrow> n \<le> k \<Longrightarrow> (\<And>j. n \<le> j \<Longrightarrow> j < k \<Longrightarrow> s j \<noteq> 0) \<Longrightarrow> strlen_from s n = Some k"
proof (induction "k - n" arbitrary: n)
  case 0
  then show ?case by (simp add: strlen_from.simps)
next
  case (Suc d)
  then have "s n \<noteq> 0" "strlen_from s (Suc n) = Some k" by simp_all
  then show ?case by (simp add: strlen_from.simps [of s n])
qed

lemma strlen_Some_iff:
  "strlen s = Some k \<longleftrightarrow> s k = 0 \<and> (\<forall>j<k. s j \<noteq> 0)"
proof
  assume "strlen s = Some k"
  then have ret: "strlen_from s 0 = Some k" by (simp add: strlen_def)
  have "0 \<le> k \<and> s k = 0 \<and> (\<forall>j. 0 \<le> j \<and> j < k \<longrightarrow> s j \<noteq> 0)"
  proof (rule strlen_from.raw_induct
      [where P = "\<lambda>s n r. n \<le> r \<and> s r = 0 \<and> (\<forall>j. n \<le> j \<and> j < r \<longrightarrow> s j \<noteq> 0)", OF _ ret])
    fix f :: "bytes \<Rightarrow> nat \<Rightarrow> nat option" and s n r
    assume IH: "\<And>s n r. f s n = Some r \<Longrightarrow> n \<le> r \<and> s r = 0 \<and> (\<forall>j. n \<le> j \<and> j < r \<longrightarrow> s j \<noteq> 0)"
      and eq: "(if s n \<noteq> 0 then f s (Suc n) else Some n) = Some r"
    show "n \<le> r \<and> s r = 0 \<and> (\<forall>j. n \<le> j \<and> j < r \<longrightarrow> s j \<noteq> 0)"
      using eq IH [of s "Suc n" r]
      by (auto split: if_splits simp: Suc_le_eq) (metis le_neq_implies_less)
  qed
  then show "s k = 0 \<and> (\<forall>j<k. s j \<noteq> 0)" by simp
next
  assume "s k = 0 \<and> (\<forall>j<k. s j \<noteq> 0)"
  then show "strlen s = Some k" by (auto simp: strlen_def intro: strlen_from_eq)
qed

section \<open>Correctness of the string routines\<close>

text \<open>
  C30. \<open>memmove\<close> copies simultaneously even when source and destination overlap: afterwards every
  destination byte holds what its source byte held before the call, and no other byte changed.
  The ranges must not wrap around the address space.
\<close>

theorem memmove_correct:
  assumes "unat src + unat n < 2 ^ 64" and "unat dst + unat n < 2 ^ 64"
  shows "memmove m dst src n a = (if unat (a - dst) < unat n then m (src + (a - dst)) else m a)"
  using assms by (intro memmove_apply) simp_all

theorem memmove_correct_witness:
  "memmove (\<lambda>a. ucast a) 0x1002 0x1000 4 0x1003 = 1 \<and> memmove (\<lambda>a. ucast a) 0x1002 0x1000 4 0x1007 = 7"
  using memmove_correct [of "0x1000" 4 "0x1002" "\<lambda>a. ucast a" "0x1003"]
    memmove_correct [of "0x1000" 4 "0x1002" "\<lambda>a. ucast a" "0x1007"] by simp

text \<open>
  C31. Names in fixed-size fields: after \<open>strncpy\<close> of \<open>t\<close> into a field of \<open>n\<close> bytes, comparing the
  field with any \<open>u\<close> by \<open>strncmp\<close> over \<open>n\<close> bytes finds them equal iff \<open>t\<close> and \<open>u\<close> agree up to the
  first NUL or \<open>n\<close> bytes. (Directory entries rely on this; the field need not be terminated.)
\<close>

theorem strncpy_strncmp:
  assumes "n \<le> length s"
  shows "strncmp (bytes_of (strncpy s t (int n))) u n = 0 \<longleftrightarrow> cname n t = cname n u"
  using cname_strncpy [OF assms, of t] by (simp add: strncmp_eq_0)

theorem strncpy_strncmp_witness:
  "strncmp (bytes_of (strncpy [9, 9, 9] (bytes_of [97, 98, 0]) 3)) (bytes_of [97, 98, 0]) 3 = 0"
  using strncpy_strncmp [of 3 "[9, 9, 9]" "bytes_of [97, 98, 0]" "bytes_of [97, 98, 0]"] by simp

text \<open>
  C37. \<open>safestrcpy\<close> with the size of the destination always leaves a terminated string there, and the
  string is the source cut to one byte less than the size.
\<close>

theorem safestrcpy_terminates_string:
  assumes "0 < n" and "n = int (length s)"
  shows "0 \<in> set (safestrcpy s t n) \<and> takeWhile (\<lambda>c. c \<noteq> 0) (safestrcpy s t n) = cname (nat (n - 1)) t"
  using safestrcpy_cname [OF assms] by simp

theorem safestrcpy_terminates_string_witness:
  "0 \<in> set (safestrcpy [9, 9, 9] (bytes_of [97, 98, 99, 100, 0]) 3)"
  by (rule conjunct1 [OF safestrcpy_terminates_string]) simp_all

end
