(* ===== verification/Kmem.thy ===== *)
theory Kmem
  imports Kstring
begin

text \<open>
  64-bit loads and stores on the byte memory (RISC-V is little endian) and the effect of the
  block operations on whole pages.
\<close>

definition load64 :: "memory \<Rightarrow> uint64 \<Rightarrow> uint64" where
  "load64 m a = ucast (m a) OR push_bit 8 (ucast (m (a + 1))) OR push_bit 16 (ucast (m (a + 2)))
     OR push_bit 24 (ucast (m (a + 3))) OR push_bit 32 (ucast (m (a + 4)))
     OR push_bit 40 (ucast (m (a + 5))) OR push_bit 48 (ucast (m (a + 6)))
     OR push_bit 56 (ucast (m (a + 7)))"

definition store64 :: "uint64 \<Rightarrow> uint64 \<Rightarrow> memory \<Rightarrow> memory" where
  "store64 a v m =
     m(a := ucast v, a + 1 := ucast (drop_bit 8 v), a + 2 := ucast (drop_bit 16 v),
       a + 3 := ucast (drop_bit 24 v), a + 4 := ucast (drop_bit 32 v),
       a + 5 := ucast (drop_bit 40 v), a + 6 := ucast (drop_bit 48 v),
       a + 7 := ucast (drop_bit 56 v))"

lemma take_bit_byte_step:
  fixes v :: uint64
  shows "take_bit k v OR push_bit k (take_bit 8 (drop_bit k v)) = take_bit (k + 8) v"
  by (rule bit_word_eqI) (auto simp: bit_simps not_less)

lemma ucast_ucast_byte: "ucast (ucast (v :: uint64) :: uchar) = take_bit 8 v"
  by (rule bit_word_eqI) (auto simp: bit_simps)

lemma bytes_join:
  fixes v :: uint64
  shows "take_bit 8 v OR push_bit 8 (take_bit 8 (drop_bit 8 v))
     OR push_bit 16 (take_bit 8 (drop_bit 16 v)) OR push_bit 24 (take_bit 8 (drop_bit 24 v))
     OR push_bit 32 (take_bit 8 (drop_bit 32 v)) OR push_bit 40 (take_bit 8 (drop_bit 40 v))
     OR push_bit 48 (take_bit 8 (drop_bit 48 v)) OR push_bit 56 (take_bit 8 (drop_bit 56 v)) = v"
proof -
  have "take_bit 64 v = v" by (simp add: take_bit_word_beyond_length_eq)
  then show ?thesis
    using take_bit_byte_step [of 8 v] take_bit_byte_step [of 16 v] take_bit_byte_step [of 24 v]
      take_bit_byte_step [of 32 v] take_bit_byte_step [of 40 v] take_bit_byte_step [of 48 v]
      take_bit_byte_step [of 56 v]
    by (simp only: or.assoc [symmetric] numeral_plus_numeral add_num_simps)
qed

lemma load64_store64 [simp]: "load64 (store64 a v m) a = v"
  using bytes_join [of v] by (simp add: load64_def store64_def ucast_ucast_byte)

section \<open>Frames of loads, stores and page fills\<close>

definition al8 :: "uint64 \<Rightarrow> bool" where
  "al8 a \<longleftrightarrow> unat a mod 8 = 0"

lemma pg_aligned_al8 [simp]: "pg_aligned a \<Longrightarrow> al8 a"
  using mod_mod_cancel [of 8 4096 "unat a"] by (simp add: pg_aligned_unat al8_def)

lemma load64_cong:
  assumes "\<And>i. unat i < 8 \<Longrightarrow> m (b + i) = m' (b + i)"
  shows "load64 m b = load64 m' b"
  using assms [of 0] assms [of 1] assms [of 2] assms [of 3] assms [of 4] assms [of 5]
    assms [of 6] assms [of 7]
  by (simp add: load64_def)

lemma store64_frame:
  assumes "8 \<le> unat (b - a)"
  shows "store64 a v m b = m b"
proof -
  have "b \<noteq> a + i" if "unat i < 8" for i
    using that assms by (metis add_diff_cancel_left' not_le)
  from this [of 0] this [of 1] this [of 2] this [of 3] this [of 4] this [of 5] this [of 6]
    this [of 7]
  show ?thesis by (simp add: store64_def)
qed

lemma al8_off:
  assumes "al8 a" and "unat i < 8"
  shows "unat (a + i) = unat a + unat i"
proof -
  obtain k where "unat a = 8 * k" using assms(1) unfolding al8_def by (metis mod_0_imp_dvd dvdE)
  then have "unat a \<le> 18446744073709551608" using unat_less_64 [of a] by simp
  then show ?thesis using assms(2) by (simp add: unat_word_ariths)
qed

lemma al8_apart:
  assumes "al8 a" "al8 b" "a \<noteq> b" "unat i < 8"
  shows "8 \<le> unat (b + i - a)"
proof (rule ccontr)
  assume "\<not> 8 \<le> unat (b + i - a)"
  then have lt: "unat (b + i - a) < 8" by simp
  then have "unat a + unat (b + i - a) = unat b + unat i"
    using al8_off [OF assms(1) lt] al8_off [OF assms(2,4)] by simp
  moreover obtain k j where "unat a = 8 * k" "unat b = 8 * j"
    using assms(1,2) unfolding al8_def by (metis mod_0_imp_dvd dvdE)
  ultimately have "unat a = unat b" using lt assms(4) by presburger
  with assms(3) show False by (simp add: word_unat_eq_iff)
qed

lemma load64_store64_other:
  "al8 a \<Longrightarrow> al8 b \<Longrightarrow> a \<noteq> b \<Longrightarrow> load64 (store64 a v m) b = load64 m b"
  by (rule load64_cong) (simp add: store64_frame al8_apart)

lemma PGROUNDDOWN_al8:
  assumes "al8 a" and "unat i < 8"
  shows "PGROUNDDOWN (a + i) = PGROUNDDOWN a"
proof -
  obtain k where k: "unat a = 8 * k" using assms(1) unfolding al8_def by (metis mod_0_imp_dvd dvdE)
  have "(8 * k + unat i) div 4096 = (8 * k + unat i) div 8 div 512"
    by (simp flip: div_mult2_eq)
  also have "\<dots> = 8 * k div 4096" using assms(2) by (simp flip: div_mult2_eq)
  finally show ?thesis
    using k by (simp add: word_unat_eq_iff unat_PGROUNDDOWN al8_off [OF assms])
qed

lemma load64_page_cong:
  assumes "al8 b" and "\<And>x. PGROUNDDOWN x = PGROUNDDOWN b \<Longrightarrow> m x = m' x"
  shows "load64 m b = load64 m' b"
  by (rule load64_cong) (simp add: assms PGROUNDDOWN_al8)

lemma store64_page:
  assumes "al8 a" and "PGROUNDDOWN x \<noteq> PGROUNDDOWN a"
  shows "store64 a v m x = m x"
proof (rule store64_frame, rule ccontr)
  assume "\<not> 8 \<le> unat (x - a)"
  then have "PGROUNDDOWN (a + (x - a)) = PGROUNDDOWN a" using assms(1) by (intro PGROUNDDOWN_al8) simp_all
  with assms(2) show False by simp
qed

lemma memset_page:
  "pg_aligned p \<Longrightarrow> memset m p c 4096 x = (if PGROUNDDOWN x = p then ucast c else m x)"
  by (simp add: memset_apply PGROUNDDOWN_eq_iff)

lemma load64_memset_page:
  "al8 b \<Longrightarrow> pg_aligned p \<Longrightarrow> PGROUNDDOWN b \<noteq> p \<Longrightarrow> load64 (memset m p c 4096) b = load64 m b"
  by (rule load64_page_cong) (simp_all add: memset_page)

lemma load64_memset_zero:
  assumes "al8 b" "pg_aligned p" "PGROUNDDOWN b = p"
  shows "load64 (memset m p 0 4096) b = 0"
proof -
  have "load64 (memset m p 0 4096) b = load64 (\<lambda>_. 0) b"
    using assms by (intro load64_page_cong) (simp_all add: memset_page)
  then show ?thesis by (simp add: load64_def)
qed

lemma memmove_page:
  assumes "pg_aligned d" "unat d + 4096 < 18446744073709551616"
    and "unat src + 4096 < 18446744073709551616"
  shows "memmove m d src 4096 x = (if PGROUNDDOWN x = d then m (src + (x - d)) else m x)"
  using assms by (simp add: memmove_apply PGROUNDDOWN_eq_iff)

end
