(* ===== verification/Kalloc.thy ===== *)
theory Kalloc
  imports Kmem Spinlock
begin

text \<open>
  \<open>kernel/kalloc.c\<close>, the physical page allocator. The free list lives in the free pages
  themselves: the first eight bytes of a free page hold the address of the next one
  (\<open>struct run\<close>). \<open>kend\<close>, \<open>etext\<close> and \<open>trampoline\<close> are the addresses of linker symbols and are
  never written. The theory relates the linked list in memory to a list of pages, shows what each
  operation does to it, and states the allocator's contract as a locale.
\<close>

section \<open>State and operations\<close>

record kstate =
  mach :: machine
  mem :: memory
  freelist :: uint64
  kend :: uint64
  etext :: uint64
  trampoline :: uint64

definition kacquire :: "nat \<Rightarrow> lockid \<Rightarrow> 'a kstate_scheme \<Rightarrow> 'a kstate_scheme kres" where
  "kacquire c l s = bnd (acquire c l (mach s)) (\<lambda>m. Inr (s\<lparr>mach := m\<rparr>))"

definition krelease :: "nat \<Rightarrow> lockid \<Rightarrow> 'a kstate_scheme \<Rightarrow> 'a kstate_scheme kres" where
  "krelease c l s = bnd (release c l (mach s)) (\<lambda>m. Inr (s\<lparr>mach := m\<rparr>))"

definition kfree :: "nat \<Rightarrow> uint64 \<Rightarrow> 'a kstate_scheme \<Rightarrow> 'a kstate_scheme kres" where
  "kfree c pa s =
     (if pa mod PGSIZE \<noteq> 0 \<or> pa < kend s \<or> pa \<ge> PHYSTOP then Inl (Panic ''kfree'')
      else let s = s\<lparr>mem := memset (mem s) pa 1 (ucast PGSIZE)\<rparr>; r = pa
           in bnd (kacquire c KmemLock s) (\<lambda>s.
              let s = s\<lparr>mem := store64 r (freelist s) (mem s)\<rparr>;
                  s = s\<lparr>freelist := r\<rparr>
              in krelease c KmemLock s))"

definition kalloc :: "nat \<Rightarrow> 'a kstate_scheme \<Rightarrow> (uint64 \<times> 'a kstate_scheme) kres" where
  "kalloc c s =
     bnd (kacquire c KmemLock s) (\<lambda>s.
     let r = freelist s;
         s = (if r \<noteq> 0 then s\<lparr>freelist := load64 (mem s) r\<rparr> else s)
     in bnd (krelease c KmemLock s) (\<lambda>s.
        let s = (if r \<noteq> 0 then s\<lparr>mem := memset (mem s) r 5 (ucast PGSIZE)\<rparr> else s)
        in Inr (r, s)))"

lemma page_step_le: "unat (p :: uint64) + 4096 \<le> unat (e :: uint64) \<Longrightarrow> unat (p + 4096) = unat p + 4096 \<and> unat p < unat e"
  using unat_less_64 [of e] by (simp add: unat_word_ariths)

text \<open>Pointer comparison in \<open>freerange\<close> is on addresses that do not wrap around.\<close>

function freerange_loop :: "nat \<Rightarrow> uint64 \<Rightarrow> uint64 \<Rightarrow> 'a kstate_scheme \<Rightarrow> 'a kstate_scheme kres" where
  "freerange_loop c p pa_end s =
     (if unat p + unat PGSIZE \<le> unat pa_end
      then bnd (kfree c p s) (\<lambda>s. freerange_loop c (p + PGSIZE) pa_end s)
      else Inr s)"
  by pat_completeness auto
termination
  by (relation "measure (\<lambda>(c, p, pa_end, s). unat pa_end - unat p)")
    (auto dest!: page_step_le)

definition freerange :: "nat \<Rightarrow> uint64 \<Rightarrow> uint64 \<Rightarrow> 'a kstate_scheme \<Rightarrow> 'a kstate_scheme kres" where
  "freerange c pa_start pa_end s = freerange_loop c (PGROUNDUP pa_start) pa_end s"

definition kinit :: "nat \<Rightarrow> 'a kstate_scheme \<Rightarrow> 'a kstate_scheme kres" where
  "kinit c s = freerange c (kend s) PHYSTOP (s\<lparr>mach := initlock KmemLock ''kmem'' (mach s)\<rparr>)"

declare freerange_loop.simps [simp del]

section \<open>The free list in memory\<close>

primrec run_list :: "memory \<Rightarrow> uint64 \<Rightarrow> uint64 list \<Rightarrow> bool" where
  "run_list m r [] \<longleftrightarrow> r = 0"
| "run_list m r (p # ps) \<longleftrightarrow> r = p \<and> p \<noteq> 0 \<and> run_list m (load64 m p) ps"

text \<open>The pages the allocator manages: aligned, above the kernel image, below the end of RAM.\<close>

definition ram_page :: "'a kstate_scheme \<Rightarrow> uint64 \<Rightarrow> bool" where
  "ram_page s p \<longleftrightarrow> pg_aligned p \<and> kend s \<le> p \<and> p < PHYSTOP \<and> p \<noteq> 0"

definition kmem_list :: "'a kstate_scheme \<Rightarrow> uint64 list \<Rightarrow> bool" where
  "kmem_list s ps \<longleftrightarrow> run_list (mem s) (freelist s) ps \<and> distinct ps \<and> (\<forall>p\<in>set ps. ram_page s p)"

definition kmem_ready :: "nat \<Rightarrow> 'a kstate_scheme \<Rightarrow> bool" where
  "kmem_ready c s \<longleftrightarrow> cpu_ok c (mach s) \<and> lock_free KmemLock (mach s)"

lemma run_list_cong:
  "\<forall>p\<in>set ps. load64 m p = load64 m' p \<Longrightarrow> run_list m r ps = run_list m' r ps"
  by (induction ps arbitrary: r) auto

lemma run_list_unique: "run_list m r ps \<Longrightarrow> run_list m r qs \<Longrightarrow> ps = qs"
proof (induction ps arbitrary: r qs)
  case Nil
  then show ?case by (cases qs) auto
next
  case (Cons p ps)
  then show ?case by (cases qs) auto
qed

lemma PHYSTOP_eq: "PHYSTOP = 0x88000000"
  by simp

lemma kalloc_empty:
  "kmem_ready c s \<Longrightarrow> kmem_list s [] \<Longrightarrow> kalloc c s = Inr (0, s\<lparr>mach := crit c (mach s)\<rparr>)"
  by (simp add: kalloc_def kacquire_def krelease_def kmem_ready_def kmem_list_def lock_rules)

lemma kalloc_Cons:
  assumes "kmem_ready c s" and "kmem_list s (p # ps)"
  shows "kalloc c s = Inr (p, s\<lparr>mach := crit c (mach s), freelist := load64 (mem s) p,
      mem := memset (mem s) p 5 4096\<rparr>)"
  using assms
  by (simp add: kalloc_def kacquire_def krelease_def kmem_ready_def kmem_list_def lock_rules)

lemma kfree_eq:
  assumes "kmem_ready c s" and "ram_page s p"
  shows "kfree c p s = Inr (s\<lparr>mach := crit c (mach s), freelist := p,
      mem := store64 p (freelist s) (memset (mem s) p 1 4096)\<rparr>)"
proof -
  have "\<not> (p mod PGSIZE \<noteq> 0 \<or> p < kend s \<or> p \<ge> PHYSTOP)"
    using assms(2) unfolding ram_page_def pg_aligned_def by (blast dest: leD)
  then show ?thesis
    using assms(1) unfolding kfree_def
    by (simp only: if_False) (simp add: kacquire_def krelease_def kmem_ready_def lock_rules)
qed

lemma kmem_list_kalloc:
  assumes "kmem_list s (p # ps)"
  shows "kmem_list (s\<lparr>mach := x, freelist := load64 (mem s) p, mem := memset (mem s) p 5 4096\<rparr>) ps"
proof -
  have p: "pg_aligned p" and ps: "\<forall>q\<in>set ps. pg_aligned q \<and> q \<noteq> p"
    using assms by (auto simp: kmem_list_def ram_page_def)
  have "\<forall>q\<in>set ps. load64 (mem s) q = load64 (memset (mem s) p 5 4096) q"
    using p ps by (auto simp: load64_memset_page PGROUNDDOWN_id)
  from run_list_cong [OF this] assms show ?thesis
    by (simp add: kmem_list_def ram_page_def)
qed

lemma kmem_list_kfree:
  assumes "kmem_list s ps" and "ram_page s p" and "p \<notin> set ps"
  shows "kmem_list (s\<lparr>mach := x, freelist := p,
      mem := store64 p (freelist s) (memset (mem s) p 1 4096)\<rparr>) (p # ps)"
proof -
  have p: "pg_aligned p" "p \<noteq> 0" and ps: "\<forall>q\<in>set ps. pg_aligned q \<and> q \<noteq> p"
    using assms by (auto simp: kmem_list_def ram_page_def)
  have "\<forall>q\<in>set ps. load64 (mem s) q = load64 (store64 p (freelist s) (memset (mem s) p 1 4096)) q"
    using p ps by (auto simp: load64_store64_other load64_memset_page PGROUNDDOWN_id)
  from run_list_cong [OF this] assms p show ?thesis
    by (simp add: kmem_list_def ram_page_def)
qed

section \<open>The contract of the allocator\<close>

definition free_pages :: "'a kstate_scheme \<Rightarrow> uint64 set" where
  "free_pages s = {p. \<exists>ps. kmem_list s ps \<and> p \<in> set ps}"

definition kmem_ok :: "nat \<Rightarrow> 'a kstate_scheme \<Rightarrow> bool" where
  "kmem_ok c s \<longleftrightarrow> kmem_ready c s \<and> (\<exists>ps. kmem_list s ps)"

lemma free_pages_eq: "kmem_list s ps \<Longrightarrow> free_pages s = set ps"
proof -
  assume l: "kmem_list s ps"
  then have "qs = ps" if "kmem_list s qs" for qs
    using that run_list_unique unfolding kmem_list_def by blast
  with l show ?thesis unfolding free_pages_def by blast
qed

text \<open>
  A page allocator: \<open>avail\<close> is the set of free pages, \<open>page\<close> the pages it may be given, \<open>ok\<close> its
  invariant. Allocation removes a page from the set or reports exhaustion with the null
  address; freeing a page that is not free adds it.
\<close>

locale page_allocator =
  fixes alloc :: "'s \<Rightarrow> (uint64 \<times> 's) kres"
    and dealloc :: "uint64 \<Rightarrow> 's \<Rightarrow> 's kres"
    and avail :: "'s \<Rightarrow> uint64 set"
    and page :: "'s \<Rightarrow> uint64 \<Rightarrow> bool"
    and ok :: "'s \<Rightarrow> bool"
  assumes alloc_some: "ok s \<Longrightarrow> avail s \<noteq> {} \<Longrightarrow>
      \<exists>p s'. alloc s = Inr (p, s') \<and> p \<in> avail s \<and> avail s' = avail s - {p} \<and> ok s' \<and> page s' = page s"
    and alloc_none: "ok s \<Longrightarrow> avail s = {} \<Longrightarrow>
      \<exists>s'. alloc s = Inr (0, s') \<and> avail s' = {} \<and> ok s' \<and> page s' = page s"
    and dealloc_ok: "ok s \<Longrightarrow> page s p \<Longrightarrow> p \<notin> avail s \<Longrightarrow>
      \<exists>s'. dealloc p s = Inr s' \<and> avail s' = insert p (avail s) \<and> ok s' \<and> page s' = page s"
    and avail_page: "ok s \<Longrightarrow> p \<in> avail s \<Longrightarrow> page s p \<and> p \<noteq> 0"
    and avail_finite: "ok s \<Longrightarrow> finite (avail s)"
begin

lemma alloc_total: "ok s \<Longrightarrow> \<exists>p s'. alloc s = Inr (p, s') \<and> ok s'"
  using alloc_some alloc_none by (metis (no_types))

lemma alloc_null_iff: "ok s \<Longrightarrow> alloc s = Inr (p, s') \<Longrightarrow> p = 0 \<longleftrightarrow> avail s = {}"
  using alloc_some [of s] alloc_none [of s] avail_page [of s] by fastforce

lemma alloc_fresh:
  assumes "ok s" "alloc s = Inr (p, s')" "p \<noteq> 0"
  shows "p \<in> avail s \<and> avail s' = avail s - {p} \<and> ok s' \<and> page s' p"
  using assms alloc_some [of s] alloc_null_iff [of s p s'] avail_page [of s p] by fastforce

lemma alloc_distinct:
  assumes "ok s" "alloc s = Inr (p, s')" "alloc s' = Inr (q, s'')" "p \<noteq> 0" "q \<noteq> 0"
  shows "p \<noteq> q"
  using alloc_fresh [OF assms(1,2,4)] alloc_fresh [of s' q s''] assms by auto

lemma alloc_dealloc:
  assumes "ok s" "alloc s = Inr (p, s')" "p \<noteq> 0"
  shows "\<exists>s''. dealloc p s' = Inr s'' \<and> avail s'' = avail s \<and> ok s''"
  using alloc_fresh [OF assms] dealloc_ok [of s' p] by auto

lemma alloc_count:
  assumes "ok s" "alloc s = Inr (p, s')" "p \<noteq> 0"
  shows "card (avail s) = Suc (card (avail s'))"
  using alloc_fresh [OF assms] avail_finite [OF assms(1)]
  by (metis card_Suc_Diff1)

end

interpretation kalloc: page_allocator "kalloc c" "kfree c" free_pages ram_page "kmem_ok c"
proof (unfold_locales, goal_cases)
  case (1 s)
  then obtain qs where r: "kmem_ready c s" and q: "kmem_list s qs" unfolding kmem_ok_def by blast
  with 1(2) have "qs \<noteq> []" by (simp add: free_pages_eq)
  with q obtain p ps where l: "kmem_list s (p # ps)" by (cases qs) auto
  have l': "kmem_list (s\<lparr>mach := crit c (mach s), freelist := load64 (mem s) p,
      mem := memset (mem s) p 5 4096\<rparr>) ps" (is "kmem_list ?s _")
    by (rule kmem_list_kalloc [OF l])
  have "p \<notin> set ps" using l by (simp add: kmem_list_def)
  then have "free_pages ?s = free_pages s - {p}" by (simp add: free_pages_eq [OF l] free_pages_eq [OF l'])
  moreover have "kmem_ok c ?s" using l' r by (auto simp: kmem_ok_def kmem_ready_def)
  moreover have "ram_page ?s = ram_page s" by (simp add: ram_page_def fun_eq_iff)
  ultimately show ?case
    using kalloc_Cons [OF r l] free_pages_eq [OF l] by auto
next
  case (2 s)
  then have r: "kmem_ready c s" and l: "kmem_list s []"
    by (auto simp: kmem_ok_def free_pages_eq)
  have l': "kmem_list (s\<lparr>mach := crit c (mach s)\<rparr>) []" using l by (simp add: kmem_list_def)
  show ?case
    using kalloc_empty [OF r l] free_pages_eq [OF l'] l' r
    by (auto simp: kmem_ok_def kmem_ready_def ram_page_def fun_eq_iff)
next
  case (3 s p)
  then obtain ps where r: "kmem_ready c s" and l: "kmem_list s ps" and n: "p \<notin> set ps"
    by (auto simp: kmem_ok_def free_pages_eq)
  have l': "kmem_list (s\<lparr>mach := crit c (mach s), freelist := p,
      mem := store64 p (freelist s) (memset (mem s) p 1 4096)\<rparr>) (p # ps)" (is "kmem_list ?s _")
    by (rule kmem_list_kfree [OF l 3(2) n])
  have "kmem_ok c ?s" using l' r by (auto simp: kmem_ok_def kmem_ready_def)
  moreover have "ram_page ?s = ram_page s" by (simp add: ram_page_def fun_eq_iff)
  ultimately show ?case
    using kfree_eq [OF r 3(2)] free_pages_eq [OF l] free_pages_eq [OF l'] by auto
next
  case (4 s p)
  then show ?case by (auto simp: kmem_ok_def free_pages_def kmem_list_def ram_page_def)
next
  case (5 s)
  then show ?case by (auto simp: kmem_ok_def free_pages_eq)
qed

section \<open>Frames of the allocator\<close>

text \<open>What a call of the allocator leaves alone: everything but memory, the free list and the
  interrupt bookkeeping of the calling hart.\<close>

definition kmem_only :: "nat \<Rightarrow> 'a kstate_scheme \<Rightarrow> 'a kstate_scheme \<Rightarrow> bool" where
  "kmem_only c s s' \<longleftrightarrow> kend s' = kend s \<and> etext s' = etext s \<and> trampoline s' = trampoline s
     \<and> kstate.more s' = kstate.more s \<and> crit c (mach s') = crit c (mach s)"

lemma kmem_only_refl [simp]: "kmem_only c s s"
  by (simp add: kmem_only_def)

lemma kmem_only_trans: "kmem_only c s s' \<Longrightarrow> kmem_only c s' s'' \<Longrightarrow> kmem_only c s s''"
  by (simp add: kmem_only_def)

lemma kmem_only_upd [simp]:
  "kmem_only c s (s\<lparr>mem := m\<rparr>)" "kmem_only c s (s\<lparr>mach := crit c (mach s), mem := m\<rparr>)"
  "kmem_only c s (s\<lparr>mach := crit c (mach s), freelist := r, mem := m\<rparr>)"
  "kmem_only c s (s\<lparr>mach := crit c (mach s)\<rparr>)"
  by (simp_all add: kmem_only_def)

lemma kmem_only_ram: "kmem_only c s s' \<Longrightarrow> ram_page s' p = ram_page s p"
  by (simp add: kmem_only_def ram_page_def)

lemma free_list_frame:
  assumes "kmem_list s ps" "\<And>x. PGROUNDDOWN x \<in> set ps \<Longrightarrow> m x = mem s x"
  shows "kmem_list (s\<lparr>mem := m\<rparr>) ps"
proof -
  have "load64 (mem s) p = load64 m p" if "p \<in> set ps" for p
  proof -
    have "pg_aligned p" using assms(1) that by (simp add: kmem_list_def ram_page_def)
    then show ?thesis using assms(2) that by (intro load64_page_cong) (simp_all add: PGROUNDDOWN_id)
  qed
  then have "run_list (mem s) (freelist s) ps = run_list m (freelist s) ps" by (intro run_list_cong) simp
  with assms(1) show ?thesis by (simp add: kmem_list_def ram_page_def)
qed

lemma kmem_frame:
  assumes "kmem_ok c s" "\<And>x. PGROUNDDOWN x \<in> free_pages s \<Longrightarrow> m x = mem s x"
  shows "kmem_ok c (s\<lparr>mem := m\<rparr>) \<and> free_pages (s\<lparr>mem := m\<rparr>) = free_pages s"
proof -
  obtain ps where ps: "kmem_list s ps" using assms(1) by (auto simp: kmem_ok_def)
  have "kmem_list (s\<lparr>mem := m\<rparr>) ps"
    using ps assms(2) free_pages_eq [OF ps] by (intro free_list_frame) auto
  then show ?thesis using ps assms(1) by (auto simp: kmem_ok_def kmem_ready_def free_pages_eq)
qed

lemma kalloc_cases:
  assumes "kmem_ok c s"
  obtains (none) "free_pages s = {}" "kalloc c s = Inr (0, s\<lparr>mach := crit c (mach s)\<rparr>)"
      "kmem_ok c (s\<lparr>mach := crit c (mach s)\<rparr>)" "free_pages (s\<lparr>mach := crit c (mach s)\<rparr>) = {}"
  | (page) p s' where "p \<in> free_pages s" "ram_page s p" "kalloc c s = Inr (p, s')"
      "mem s' = memset (mem s) p 5 4096" "kmem_only c s s'" "kmem_ok c s'"
      "free_pages s' = free_pages s - {p}"
proof -
  obtain ps where r: "kmem_ready c s" and l: "kmem_list s ps" using assms by (auto simp: kmem_ok_def)
  show thesis
  proof (cases ps)
    case Nil
    have l': "kmem_list (s\<lparr>mach := crit c (mach s)\<rparr>) []" using l Nil by (simp add: kmem_list_def)
    show thesis
      using none kalloc_empty [OF r] l Nil free_pages_eq [OF l] free_pages_eq [OF l'] l' r
      by (auto simp: kmem_ok_def kmem_ready_def)
  next
    case (Cons p qs)
    let ?s = "s\<lparr>mach := crit c (mach s), freelist := load64 (mem s) p, mem := memset (mem s) p 5 4096\<rparr>"
    have l': "kmem_list ?s qs" using l Cons by (intro kmem_list_kalloc) simp
    have "p \<notin> set qs" "ram_page s p" using l Cons by (auto simp: kmem_list_def)
    then show thesis
      using page [of p ?s] kalloc_Cons [OF r] l l' r Cons free_pages_eq [OF l] free_pages_eq [OF l']
      by (auto simp: kmem_ok_def kmem_ready_def)
  qed
qed

lemma kfree_page:
  assumes "kmem_ok c s" "ram_page s p" "p \<notin> free_pages s"
  obtains s' where "kfree c p s = Inr s'" "kmem_only c s s'" "kmem_ok c s'"
    "free_pages s' = insert p (free_pages s)" "\<And>x. PGROUNDDOWN x \<noteq> p \<Longrightarrow> mem s' x = mem s x"
proof -
  obtain ps where r: "kmem_ready c s" and l: "kmem_list s ps" using assms(1) by (auto simp: kmem_ok_def)
  have n: "p \<notin> set ps" and p: "pg_aligned p" using assms(2,3) free_pages_eq [OF l] by (auto simp: ram_page_def)
  let ?s = "s\<lparr>mach := crit c (mach s), freelist := p,
      mem := store64 p (freelist s) (memset (mem s) p 1 4096)\<rparr>"
  have l': "kmem_list ?s (p # ps)" by (rule kmem_list_kfree [OF l assms(2) n])
  show thesis
    using that [of ?s] kfree_eq [OF r assms(2)] l' r p free_pages_eq [OF l] free_pages_eq [OF l']
    by (auto simp: kmem_ok_def kmem_ready_def store64_page memset_page PGROUNDDOWN_id)
qed

section \<open>Initialisation frees all of RAM\<close>

lemma pg_aligned_step: "pg_aligned p \<Longrightarrow> pg_aligned (p + 4096)"
  by (simp add: pg_aligned_unat unat_word_ariths mod_mod_cancel)

lemma aligned_next:
  assumes "pg_aligned p" "pg_aligned q" "unat p < unat q"
  shows "unat p + 4096 \<le> unat q"
proof -
  obtain i j where "unat p = 4096 * i" "unat q = 4096 * j"
    using assms(1,2) by (metis pg_aligned_unat mod_0_imp_dvd dvdE)
  then show ?thesis using assms(3) by simp
qed

lemma freerange_loop_list:
  assumes "kmem_ready c s" "kmem_list s ps" "pg_aligned p" "kend s \<le> p" "p \<noteq> 0"
    and "pa_end \<le> PHYSTOP" "\<forall>q\<in>set ps. q < p"
  shows "\<exists>s' ps'. freerange_loop c p pa_end s = Inr s' \<and> kmem_list s' ps' \<and> kmem_ready c s'
    \<and> set ps' = set ps \<union> {q. pg_aligned q \<and> p \<le> q \<and> unat q + 4096 \<le> unat pa_end}
    \<and> kend s' = kend s"
  using assms
proof (induction c p pa_end s arbitrary: ps rule: freerange_loop.induct)
  case (1 c p pa_end s)
  show ?case
  proof (cases "unat p + 4096 \<le> unat pa_end")
    case True
    have up: "unat (p + 4096) = unat p + 4096" "unat p < unat pa_end" using page_step_le [OF True] by auto
    have "p < PHYSTOP" using up(2) "1.prems"(6) word_less_nat_alt by (metis order_less_le_trans)
    then have r: "ram_page s p" using "1.prems" by (simp add: ram_page_def)
    have n: "p \<notin> set ps" using "1.prems"(7) by auto
    let ?s = "s\<lparr>mach := crit c (mach s), freelist := p,
      mem := store64 p (freelist s) (memset (mem s) p 1 4096)\<rparr>"
    have k: "kfree c p s = Inr ?s" by (rule kfree_eq [OF "1.prems"(1) r])
    have l: "kmem_list ?s (p # ps)" by (rule kmem_list_kfree [OF "1.prems"(2) r n])
    have lt: "\<forall>q\<in>set (p # ps). q < p + 4096"
      using "1.prems"(7) up by (auto simp: word_less_nat_alt)
    have ready: "kmem_ready c ?s" using "1.prems"(1) by (simp add: kmem_ready_def)
    have ne: "p + 4096 \<noteq> 0" and ge: "kend ?s \<le> p + 4096"
      using up "1.prems"(4) by (auto simp: word_le_nat_alt)
    from "1.IH" [OF _ k ready l] obtain s' ps' where IH:
      "freerange_loop c (p + 4096) pa_end ?s = Inr s'" "kmem_list s' ps'" "kmem_ready c s'"
      "set ps' = set (p # ps) \<union> {q. pg_aligned q \<and> p + 4096 \<le> q \<and> unat q + 4096 \<le> unat pa_end}"
      "kend s' = kend s"
      using True ne ge lt "1.prems"(3,6) pg_aligned_step by auto
    have "q = p \<or> p + 4096 \<le> q \<longleftrightarrow> p \<le> q" if "pg_aligned q" for q
      using aligned_next [OF "1.prems"(3) that] up
      by (cases "unat p < unat q") (auto simp: word_le_nat_alt word_unat_eq_iff)
    then have "set ps' = set ps \<union> {q. pg_aligned q \<and> p \<le> q \<and> unat q + 4096 \<le> unat pa_end}"
      using IH(4) "1.prems"(3) True by auto
    then show ?thesis
      using IH True k by (subst freerange_loop.simps) auto
  next
    case False
    then have "{q. pg_aligned q \<and> p \<le> q \<and> unat q + 4096 \<le> unat pa_end} = {}"
      by (auto simp: word_le_nat_alt)
    with False "1.prems"(1,2) show ?thesis
      by (subst freerange_loop.simps) auto
  qed
qed

lemma kinit_frees_all:
  assumes "cpu_ok c (mach s)" and "freelist s = 0" and "0 < kend s" and "kend s \<le> PHYSTOP"
  shows "\<exists>s'. kinit c s = Inr s' \<and> kmem_ok c s' \<and> free_pages s' = {p. ram_page s p}"
proof -
  let ?s = "s\<lparr>mach := initlock KmemLock ''kmem'' (mach s)\<rparr>"
  have ready: "kmem_ready c ?s"
    using assms(1) by (simp add: kmem_ready_def initlock_def cpu_ok_def lock_free_def set_lock_def)
  have l: "kmem_list ?s []" using assms(2) by (simp add: kmem_list_def)
  have up: "unat (PGROUNDUP (kend s)) = (unat (kend s) + 4095) div 4096 * 4096"
    using assms(4) by (intro unat_PGROUNDUP) (simp add: word_le_nat_alt)
  have ge: "kend s \<le> PGROUNDUP (kend s)" and ne: "PGROUNDUP (kend s) \<noteq> 0"
    using up assms(3) by (auto simp: word_le_nat_alt word_less_nat_alt word_unat_eq_iff)
  obtain s' ps' where loop: "freerange_loop c (PGROUNDUP (kend s)) PHYSTOP ?s = Inr s'"
      "kmem_list s' ps'" "kmem_ready c s'"
      "set ps' = {q. pg_aligned q \<and> PGROUNDUP (kend s) \<le> q \<and> unat q + 4096 \<le> unat PHYSTOP}"
    using freerange_loop_list [OF ready l PGROUNDUP_aligned [of "kend s"], of PHYSTOP] ge ne by auto
  have "PGROUNDUP (kend s) \<le> q \<and> unat q + 4096 \<le> unat PHYSTOP
      \<longleftrightarrow> kend s \<le> q \<and> q < PHYSTOP \<and> q \<noteq> 0" if q: "pg_aligned q" for q
  proof -
    obtain j where j: "unat q = 4096 * j" using q by (metis pg_aligned_unat mod_0_imp_dvd dvdE)
    have "PGROUNDUP (kend s) \<le> q \<longleftrightarrow> kend s \<le> q"
      using div_less_iff_less_mult [of 4096 "unat (kend s) + 4095" "Suc j"]
      unfolding word_le_nat_alt up j by (simp add: mult.commute less_Suc_eq_le)
    moreover have "unat q + 4096 \<le> unat PHYSTOP \<longleftrightarrow> q < PHYSTOP"
      unfolding word_less_nat_alt j by simp arith
    moreover have "kend s \<le> q \<Longrightarrow> q \<noteq> 0" using assms(3) by auto
    ultimately show ?thesis by blast
  qed
  then have "set ps' = {p. ram_page s p}" using loop(4) by (auto simp: ram_page_def)
  then show ?thesis
    using loop free_pages_eq [OF loop(2)] by (auto simp: kinit_def freerange_def kmem_ok_def)
qed

section \<open>Correctness of the allocator\<close>

text \<open>A machine with two free pages, and one before \<open>kinit()\<close>, for the examples below.\<close>

definition demo_machine :: machine where
  "demo_machine = \<lparr>cpus = (\<lambda>_. \<lparr>cproc = None, noff = 0, intena = False\<rparr>),
     sstatus = (\<lambda>_. SSTATUS_SIE), locks = (\<lambda>_. \<lparr>locked = 0, lname = ''lock'', lcpu = None\<rparr>)\<rparr>"

definition demo_state :: "uint64 \<Rightarrow> memory \<Rightarrow> kstate" where
  "demo_state fl m = \<lparr>mach = demo_machine, mem = m, freelist = fl, kend = 0x80022000,
     etext = 0x80008000, trampoline = 0x80007000\<rparr>"

definition demo_free :: kstate where
  "demo_free = demo_state 0x87fff000 (store64 0x87fff000 0x87ffe000 (\<lambda>_. 0))"

lemma demo_state_fields [simp]:
  "mem (demo_state fl m) = m" "freelist (demo_state fl m) = fl" "kend (demo_state fl m) = 0x80022000"
  "mach (demo_state fl m) = demo_machine"
  by (simp_all add: demo_state_def)

lemma demo_machine_ok: "cpu_ok c demo_machine" "lock_free l demo_machine"
  by (simp_all add: demo_machine_def cpu_ok_def lock_free_def)

lemma load64_zero [simp]: "load64 (\<lambda>_. 0) a = 0"
  by (simp add: load64_def)

lemma demo_free_list: "kmem_list demo_free [0x87fff000, 0x87ffe000]"
proof -
  have "load64 (store64 0x87fff000 0x87ffe000 (\<lambda>_. 0)) 0x87ffe000 = 0"
    by (subst load64_store64_other) (simp_all add: al8_def)
  then show ?thesis
    by (simp add: kmem_list_def demo_free_def ram_page_def pg_aligned_def)
qed

lemma demo_free_ok: "kmem_ok c demo_free" "free_pages demo_free = {0x87fff000, 0x87ffe000}"
  using demo_free_list demo_machine_ok free_pages_eq [OF demo_free_list]
  by (auto simp: kmem_ok_def kmem_ready_def demo_free_def)



text \<open>
  C24. \<open>kinit()\<close> puts every page-aligned address between the end of the kernel image and \<open>PHYSTOP\<close>
  on the free list, each once, and leaves the allocator's lock free.
\<close>

theorem kinit_frees_all_pages:
  assumes "cpu_ok c (mach s)" and "freelist s = 0" and "0 < kend s" and "kend s \<le> PHYSTOP"
  shows "\<exists>s'. kinit c s = Inr s' \<and> kmem_ok c s' \<and> free_pages s' = {p. ram_page s p}"
  by (rule kinit_frees_all [OF assms])

theorem kinit_frees_all_pages_witness:
  "\<exists>s'. kinit 0 (demo_state 0 (\<lambda>_. 0)) = Inr s' \<and> kmem_ok 0 s' \<and> 0x87fff000 \<in> free_pages s'
    \<and> 0x80021000 \<notin> free_pages s'"
  using kinit_frees_all_pages [of 0 "demo_state 0 (\<lambda>_. 0)"] demo_machine_ok
  by (auto simp: ram_page_def pg_aligned_def)

end
