(* ===== verification/Vm.thy ===== *)
theory Vm
  imports Kalloc
begin

text \<open>
  \<open>kernel/vm.c\<close>, Sv39 page tables. A page table is the physical address of its root page; entries
  are loaded from and stored to the byte memory, and page-table pages come from \<open>kalloc\<close>. A C
  return value 0 / -1 is an \<open>int\<close>; a function that also writes through a pointer returns what it
  wrote. Loops whose bound is unsigned arithmetic take the number of iterations the code can make
  as fuel; running out of fuel would be a loop that does not end (\<open>Spin\<close>).
\<close>

section \<open>Walking a page table\<close>

fun walk_loop :: "nat \<Rightarrow> nat \<Rightarrow> uint64 \<Rightarrow> uint64 \<Rightarrow> bool \<Rightarrow> 'a kstate_scheme \<Rightarrow>
    (uint64 \<times> 'a kstate_scheme) kres" where
  "walk_loop c 0 pagetable va alloc s = Inr (pagetable + 8 * PX 0 va, s)"
| "walk_loop c (Suc l) pagetable va alloc s =
     (let pte = pagetable + 8 * PX (Suc l) va; v = load64 (mem s) pte
      in if v AND PTE_V \<noteq> 0 then walk_loop c l (PTE2PA v) va alloc s
         else if \<not> alloc then Inr (0, s)
         else bnd (kalloc c s) (\<lambda>(pagetable, s).
           if pagetable = 0 then Inr (0, s)
           else let s = s\<lparr>mem := memset (mem s) pagetable 0 (ucast PGSIZE)\<rparr>;
                    s = s\<lparr>mem := store64 pte (PA2PTE pagetable OR PTE_V) (mem s)\<rparr>
                in walk_loop c l pagetable va alloc s))"

definition walk :: "nat \<Rightarrow> uint64 \<Rightarrow> uint64 \<Rightarrow> bool \<Rightarrow> 'a kstate_scheme \<Rightarrow>
    (uint64 \<times> 'a kstate_scheme) kres" where
  "walk c pagetable va alloc s =
     (if va \<ge> MAXVA then Inl (Panic ''walk'') else walk_loop c 2 pagetable va alloc s)"

definition walkaddr :: "nat \<Rightarrow> uint64 \<Rightarrow> uint64 \<Rightarrow> 'a kstate_scheme \<Rightarrow> uint64 kres" where
  "walkaddr c pagetable va s =
     (if va \<ge> MAXVA then Inr 0
      else bnd (walk c pagetable va False s) (\<lambda>(pte, s).
        if pte = 0 then Inr 0
        else let v = load64 (mem s) pte
             in if v AND PTE_V = 0 then Inr 0
                else if v AND PTE_U = 0 then Inr 0
                else Inr (PTE2PA v)))"

section \<open>Adding and removing mappings\<close>

fun mappages_loop :: "nat \<Rightarrow> nat \<Rightarrow> uint64 \<Rightarrow> uint64 \<Rightarrow> uint64 \<Rightarrow> uint64 \<Rightarrow> uint64 \<Rightarrow>
    'a kstate_scheme \<Rightarrow> (int \<times> 'a kstate_scheme) kres" where
  "mappages_loop c 0 pagetable a lastpg pa perm s = Inl (Spin ''mappages'')"
| "mappages_loop c (Suc fuel) pagetable a lastpg pa perm s =
     bnd (walk c pagetable a True s) (\<lambda>(pte, s).
       if pte = 0 then Inr (-1, s)
       else if load64 (mem s) pte AND PTE_V \<noteq> 0 then Inl (Panic ''mappages: remap'')
       else let s = s\<lparr>mem := store64 pte (PA2PTE pa OR perm OR PTE_V) (mem s)\<rparr>
            in if a = lastpg then Inr (0, s)
               else mappages_loop c fuel pagetable (a + PGSIZE) lastpg (pa + PGSIZE) perm s)"

definition mappages :: "nat \<Rightarrow> uint64 \<Rightarrow> uint64 \<Rightarrow> uint64 \<Rightarrow> uint64 \<Rightarrow> uint64 \<Rightarrow>
    'a kstate_scheme \<Rightarrow> (int \<times> 'a kstate_scheme) kres" where
  "mappages c pagetable va sz pa perm s =
     (if sz = 0 then Inl (Panic ''mappages: size'')
      else let a = PGROUNDDOWN va; lastpg = PGROUNDDOWN (va + sz - 1)
           in mappages_loop c (Suc (unat (lastpg - a) div 4096)) pagetable a lastpg pa perm s)"

definition kvmmap :: "nat \<Rightarrow> uint64 \<Rightarrow> uint64 \<Rightarrow> uint64 \<Rightarrow> uint64 \<Rightarrow> uint64 \<Rightarrow>
    'a kstate_scheme \<Rightarrow> 'a kstate_scheme kres" where
  "kvmmap c kpgtbl va pa sz perm s =
     bnd (mappages c kpgtbl va sz pa perm s) (\<lambda>(r, s).
       if r \<noteq> 0 then Inl (Panic ''kvmmap'') else Inr s)"

fun uvmunmap_loop :: "nat \<Rightarrow> nat \<Rightarrow> uint64 \<Rightarrow> uint64 \<Rightarrow> uint64 \<Rightarrow> bool \<Rightarrow>
    'a kstate_scheme \<Rightarrow> 'a kstate_scheme kres" where
  "uvmunmap_loop c 0 pagetable a stop do_free s =
     (if a < stop then Inl (Spin ''uvmunmap'') else Inr s)"
| "uvmunmap_loop c (Suc fuel) pagetable a stop do_free s =
     (if a < stop then
        bnd (walk c pagetable a False s) (\<lambda>(pte, s).
          if pte = 0 then Inl (Panic ''uvmunmap: walk'')
          else let v = load64 (mem s) pte
               in if v AND PTE_V = 0 then Inl (Panic ''uvmunmap: not mapped'')
                  else if PTE_FLAGS v = PTE_V then Inl (Panic ''uvmunmap: not a leaf'')
                  else bnd (if do_free then kfree c (PTE2PA v) s else Inr s) (\<lambda>s.
                       let s = s\<lparr>mem := store64 pte 0 (mem s)\<rparr>
                       in uvmunmap_loop c fuel pagetable (a + PGSIZE) stop do_free s))
      else Inr s)"

definition uvmunmap :: "nat \<Rightarrow> uint64 \<Rightarrow> uint64 \<Rightarrow> uint64 \<Rightarrow> bool \<Rightarrow>
    'a kstate_scheme \<Rightarrow> 'a kstate_scheme kres" where
  "uvmunmap c pagetable va npages do_free s =
     (if va mod PGSIZE \<noteq> 0 then Inl (Panic ''uvmunmap: not aligned'')
      else uvmunmap_loop c (unat npages) pagetable va (va + npages * PGSIZE) do_free s)"

definition uvmcreate :: "nat \<Rightarrow> 'a kstate_scheme \<Rightarrow> (uint64 \<times> 'a kstate_scheme) kres" where
  "uvmcreate c s =
     bnd (kalloc c s) (\<lambda>(pagetable, s).
       if pagetable = 0 then Inr (0, s)
       else Inr (pagetable, s\<lparr>mem := memset (mem s) pagetable 0 (ucast PGSIZE)\<rparr>))"

text \<open>
  A block copy from a kernel object (given by its bytes) into physical memory; \<open>memmove\<close> with a
  source outside the destination copies the same bytes.
\<close>

definition poke :: "memory \<Rightarrow> uint64 \<Rightarrow> bytes \<Rightarrow> nat \<Rightarrow> memory" where
  "poke m dst src n = fold (\<lambda>i m. store8 (dst + of_nat i) (src i) m) [0..<n] m"

definition peek :: "memory \<Rightarrow> uint64 \<Rightarrow> nat \<Rightarrow> uchar list" where
  "peek m src n = map (\<lambda>i. m (src + of_nat i)) [0..<n]"

definition uvmfirst :: "nat \<Rightarrow> uint64 \<Rightarrow> bytes \<Rightarrow> uint \<Rightarrow> 'a kstate_scheme \<Rightarrow> 'a kstate_scheme kres" where
  "uvmfirst c pagetable src sz s =
     (if ucast sz \<ge> PGSIZE then Inl (Panic ''uvmfirst: more than a page'')
      else bnd (kalloc c s) (\<lambda>(pg, s).
        let s = s\<lparr>mem := memset (mem s) pg 0 (ucast PGSIZE)\<rparr>
        in bnd (mappages c pagetable 0 PGSIZE pg (PTE_W OR PTE_R OR PTE_X OR PTE_U) s) (\<lambda>(r, s).
           Inr (s\<lparr>mem := poke (mem s) pg src (unat sz)\<rparr>))))"

definition uvmdealloc :: "nat \<Rightarrow> uint64 \<Rightarrow> uint64 \<Rightarrow> uint64 \<Rightarrow>
    'a kstate_scheme \<Rightarrow> (uint64 \<times> 'a kstate_scheme) kres" where
  "uvmdealloc c pagetable oldsz newsz s =
     (if newsz \<ge> oldsz then Inr (oldsz, s)
      else bnd (if PGROUNDUP newsz < PGROUNDUP oldsz
                then let npages = (PGROUNDUP oldsz - PGROUNDUP newsz) div PGSIZE
                     in uvmunmap c pagetable (PGROUNDUP newsz) (scast (ucast npages :: uint)) True s
                else Inr s) (\<lambda>s. Inr (newsz, s)))"

fun uvmalloc_loop :: "nat \<Rightarrow> nat \<Rightarrow> uint64 \<Rightarrow> uint64 \<Rightarrow> uint64 \<Rightarrow> uint64 \<Rightarrow> uint64 \<Rightarrow>
    'a kstate_scheme \<Rightarrow> (uint64 \<times> 'a kstate_scheme) kres" where
  "uvmalloc_loop c 0 pagetable a oldsz newsz xperm s =
     (if a < newsz then Inl (Spin ''uvmalloc'') else Inr (newsz, s))"
| "uvmalloc_loop c (Suc fuel) pagetable a oldsz newsz xperm s =
     (if a < newsz then
        bnd (kalloc c s) (\<lambda>(pg, s).
          if pg = 0 then bnd (uvmdealloc c pagetable a oldsz s) (\<lambda>(r, s). Inr (0, s))
          else let s = s\<lparr>mem := memset (mem s) pg 0 (ucast PGSIZE)\<rparr>
               in bnd (mappages c pagetable a PGSIZE pg (PTE_R OR PTE_U OR xperm) s) (\<lambda>(r, s).
                  if r \<noteq> 0
                  then bnd (kfree c pg s) (\<lambda>s.
                       bnd (uvmdealloc c pagetable a oldsz s) (\<lambda>(r, s). Inr (0, s)))
                  else uvmalloc_loop c fuel pagetable (a + PGSIZE) oldsz newsz xperm s))
      else Inr (newsz, s))"

definition uvmalloc :: "nat \<Rightarrow> uint64 \<Rightarrow> uint64 \<Rightarrow> uint64 \<Rightarrow> uint64 \<Rightarrow>
    'a kstate_scheme \<Rightarrow> (uint64 \<times> 'a kstate_scheme) kres" where
  "uvmalloc c pagetable oldsz newsz xperm s =
     (if newsz < oldsz then Inr (oldsz, s)
      else let oldsz = PGROUNDUP oldsz
           in uvmalloc_loop c (unat newsz div 4096 + 1) pagetable oldsz oldsz newsz xperm s)"

section \<open>Freeing a page table\<close>

text \<open>The recursion follows page-table levels; \<open>d\<close> bounds its depth (three for Sv39).\<close>

fun freewalk :: "nat \<Rightarrow> nat \<Rightarrow> uint64 \<Rightarrow> 'a kstate_scheme \<Rightarrow> 'a kstate_scheme kres" where
  "freewalk c 0 pagetable s = Inl (Spin ''freewalk'')"
| "freewalk c (Suc d) pagetable s =
     bnd (foldM (\<lambda>i s.
            let pte = load64 (mem s) (pagetable + 8 * of_nat i)
            in if pte AND PTE_V \<noteq> 0 \<and> pte AND (PTE_R OR PTE_W OR PTE_X) = 0
               then bnd (freewalk c d (PTE2PA pte) s) (\<lambda>s.
                    Inr (s\<lparr>mem := store64 (pagetable + 8 * of_nat i) 0 (mem s)\<rparr>))
               else if pte AND PTE_V \<noteq> 0 then Inl (Panic ''freewalk: leaf'')
               else Inr s) [0..<512] s)
       (\<lambda>s. kfree c pagetable s)"

definition uvmfree :: "nat \<Rightarrow> uint64 \<Rightarrow> uint64 \<Rightarrow> 'a kstate_scheme \<Rightarrow> 'a kstate_scheme kres" where
  "uvmfree c pagetable sz s =
     bnd (if sz > 0 then uvmunmap c pagetable 0 (PGROUNDUP sz div PGSIZE) True s else Inr s)
       (\<lambda>s. freewalk c 3 pagetable s)"

section \<open>Copying an address space\<close>

definition uvmcopy_err :: "nat \<Rightarrow> uint64 \<Rightarrow> uint64 \<Rightarrow> 'a kstate_scheme \<Rightarrow> (int \<times> 'a kstate_scheme) kres" where
  "uvmcopy_err c new i s = bnd (uvmunmap c new 0 (i div PGSIZE) True s) (\<lambda>s. Inr (-1, s))"

fun uvmcopy_loop :: "nat \<Rightarrow> nat \<Rightarrow> uint64 \<Rightarrow> uint64 \<Rightarrow> uint64 \<Rightarrow> uint64 \<Rightarrow>
    'a kstate_scheme \<Rightarrow> (int \<times> 'a kstate_scheme) kres" where
  "uvmcopy_loop c 0 old new i sz s = (if i < sz then Inl (Spin ''uvmcopy'') else Inr (0, s))"
| "uvmcopy_loop c (Suc fuel) old new i sz s =
     (if i < sz then
        bnd (walk c old i False s) (\<lambda>(pte, s).
          if pte = 0 then Inl (Panic ''uvmcopy: pte should exist'')
          else let v = load64 (mem s) pte
               in if v AND PTE_V = 0 then Inl (Panic ''uvmcopy: page not present'')
                  else let pa = PTE2PA v; flags = PTE_FLAGS v
                       in bnd (kalloc c s) (\<lambda>(pg, s).
                          if pg = 0 then uvmcopy_err c new i s
                          else let s = s\<lparr>mem := memmove (mem s) pg pa (ucast PGSIZE)\<rparr>
                               in bnd (mappages c new i PGSIZE pg flags s) (\<lambda>(r, s).
                                  if r \<noteq> 0 then bnd (kfree c pg s) (\<lambda>s. uvmcopy_err c new i s)
                                  else uvmcopy_loop c fuel old new (i + PGSIZE) sz s)))
      else Inr (0, s))"

definition uvmcopy :: "nat \<Rightarrow> uint64 \<Rightarrow> uint64 \<Rightarrow> uint64 \<Rightarrow>
    'a kstate_scheme \<Rightarrow> (int \<times> 'a kstate_scheme) kres" where
  "uvmcopy c old new sz s = uvmcopy_loop c (unat sz div 4096 + 1) old new 0 sz s"

definition uvmclear :: "nat \<Rightarrow> uint64 \<Rightarrow> uint64 \<Rightarrow> 'a kstate_scheme \<Rightarrow> 'a kstate_scheme kres" where
  "uvmclear c pagetable va s =
     bnd (walk c pagetable va False s) (\<lambda>(pte, s).
       if pte = 0 then Inl (Panic ''uvmclear'')
       else Inr (s\<lparr>mem := store64 pte (load64 (mem s) pte AND NOT PTE_U) (mem s)\<rparr>))"

section \<open>Copying between kernel and user memory\<close>

definition copy_chunk :: "uint64 \<Rightarrow> uint64 \<Rightarrow> uint64" where
  "copy_chunk va len = (let n = PGSIZE - (va - PGROUNDDOWN va) in if n > len then len else n)"

lemma page_offset_less: "unat (va - PGROUNDDOWN va) < 4096"
  using PGROUNDDOWN_eq_iff [of "PGROUNDDOWN va" va] by simp

lemma unat_chunk: "unat (4096 - (va - PGROUNDDOWN va)) = 4096 - unat (va - PGROUNDDOWN va)"
  using page_offset_less [of va] by (simp add: unat_sub word_le_nat_alt)

lemma copy_chunk_bounds:
  "0 < len \<Longrightarrow> 0 < unat (copy_chunk va len) \<and> unat (copy_chunk va len) \<le> unat len
    \<and> unat (va - PGROUNDDOWN va) + unat (copy_chunk va len) \<le> 4096"
  using page_offset_less [of va] unat_chunk [of va]
  by (auto simp: copy_chunk_def Let_def word_less_nat_alt not_less)

lemma copy_chunk_decreases: "0 < len \<Longrightarrow> unat (len - copy_chunk va len) < unat len"
  using copy_chunk_bounds [of len va] by (simp add: unat_sub word_le_nat_alt)

function copyout :: "nat \<Rightarrow> uint64 \<Rightarrow> uint64 \<Rightarrow> bytes \<Rightarrow> uint64 \<Rightarrow>
    'a kstate_scheme \<Rightarrow> (int \<times> 'a kstate_scheme) kres" where
  "copyout c pagetable dstva src len s =
     (if len > 0 then
        let va0 = PGROUNDDOWN dstva
        in bnd (walkaddr c pagetable va0 s) (\<lambda>pa0.
           if pa0 = 0 then Inr (-1, s)
           else let n = copy_chunk dstva len;
                    s = s\<lparr>mem := poke (mem s) (pa0 + (dstva - va0)) src (unat n)\<rparr>
                in copyout c pagetable (va0 + PGSIZE) (\<lambda>i. src (unat n + i)) (len - n) s)
      else Inr (0, s))"
  by pat_completeness auto
termination
  by (relation "measure (\<lambda>(c, pagetable, dstva, src, len, s). unat len)")
    (auto intro: copy_chunk_decreases)

text \<open>The bytes \<open>copyin\<close> has stored to its destination when it returns.\<close>

function copyin :: "nat \<Rightarrow> uint64 \<Rightarrow> uint64 \<Rightarrow> uint64 \<Rightarrow> 'a kstate_scheme \<Rightarrow> (int \<times> uchar list) kres" where
  "copyin c pagetable srcva len s =
     (if len > 0 then
        let va0 = PGROUNDDOWN srcva
        in bnd (walkaddr c pagetable va0 s) (\<lambda>pa0.
           if pa0 = 0 then Inr (-1, [])
           else let n = copy_chunk srcva len;
                    dst = peek (mem s) (pa0 + (srcva - va0)) (unat n)
                in bnd (copyin c pagetable (va0 + PGSIZE) (len - n) s) (\<lambda>(r, rest).
                   Inr (r, dst @ rest)))
      else Inr (0, []))"
  by pat_completeness auto
termination
  by (relation "measure (\<lambda>(c, pagetable, srcva, len, s). unat len)")
    (auto intro: copy_chunk_decreases)

text \<open>The inner loop of \<open>copyinstr\<close>: bytes up to and including a NUL, and whether one was found.\<close>

fun copyinstr_page :: "memory \<Rightarrow> uint64 \<Rightarrow> nat \<Rightarrow> uchar list \<times> bool" where
  "copyinstr_page m p 0 = ([], False)"
| "copyinstr_page m p (Suc n) =
     (if m p = 0 then ([0], True)
      else case copyinstr_page m (p + 1) n of (bs, got_null) \<Rightarrow> (m p # bs, got_null))"

function copyinstr :: "nat \<Rightarrow> uint64 \<Rightarrow> uint64 \<Rightarrow> uint64 \<Rightarrow> 'a kstate_scheme \<Rightarrow> (int \<times> uchar list) kres" where
  "copyinstr c pagetable srcva mx s =
     (if mx > 0 then
        let va0 = PGROUNDDOWN srcva
        in bnd (walkaddr c pagetable va0 s) (\<lambda>pa0.
           if pa0 = 0 then Inr (-1, [])
           else let n = copy_chunk srcva mx
                in case copyinstr_page (mem s) (pa0 + (srcva - va0)) (unat n) of
                     (bs, got_null) \<Rightarrow>
                       if got_null then Inr (0, bs)
                       else bnd (copyinstr c pagetable (va0 + PGSIZE) (mx - n) s) (\<lambda>(r, rest).
                            Inr (r, bs @ rest)))
      else Inr (-1, []))"
  by pat_completeness auto
termination
  by (relation "measure (\<lambda>(c, pagetable, srcva, mx, s). unat mx)")
    (auto intro: copy_chunk_decreases)

declare copyout.simps [simp del] copyin.simps [simp del] copyinstr.simps [simp del]

end
