(* ===== verification/Vm_Tables.thy ===== *)
theory Vm_Tables
  imports Vm
begin

text \<open>
  What a page table in memory means. \<open>tbl\<close> is the set of pages a (sub)table of level \<open>l\<close> is built
  from, \<open>wft\<close> that it is a tree (no page is used twice), and \<open>leaf\<close> the address map it denotes.
  The lemmas show that \<open>walk\<close> with allocation extends the tree without changing the map, and that
  storing a leaf entry updates the map at one page and nowhere else.
\<close>

section \<open>Tables, maps and frames\<close>

definition ent :: "uint64 \<Rightarrow> nat \<Rightarrow> uint64" where
  "ent pt i = pt + 8 * of_nat i"

definition pvalid :: "uint64 \<Rightarrow> bool" where
  "pvalid v \<longleftrightarrow> v AND PTE_V \<noteq> 0"

abbreviation px :: "nat \<Rightarrow> uint64 \<Rightarrow> nat" where
  "px l va \<equiv> unat (PX l va)"

definition child :: "memory \<Rightarrow> uint64 \<Rightarrow> nat \<Rightarrow> uint64" where
  "child m pt i = PTE2PA (load64 m (ent pt i))"

definition kids :: "memory \<Rightarrow> uint64 \<Rightarrow> nat set" where
  "kids m pt = {i. i < 512 \<and> pvalid (load64 m (ent pt i))}"

fun tbl :: "memory \<Rightarrow> nat \<Rightarrow> uint64 \<Rightarrow> uint64 set" where
  "tbl m 0 pt = {pt}"
| "tbl m (Suc l) pt = insert pt (\<Union>i\<in>kids m pt. tbl m l (child m pt i))"

fun wft :: "memory \<Rightarrow> nat \<Rightarrow> uint64 \<Rightarrow> bool" where
  "wft m 0 pt \<longleftrightarrow> pg_aligned pt \<and> pt \<noteq> 0"
| "wft m (Suc l) pt \<longleftrightarrow> pg_aligned pt \<and> pt \<noteq> 0
     \<and> (\<forall>i\<in>kids m pt. wft m l (child m pt i) \<and> pt \<notin> tbl m l (child m pt i))
     \<and> (\<forall>i\<in>kids m pt. \<forall>j\<in>kids m pt. i \<noteq> j \<longrightarrow>
          tbl m l (child m pt i) \<inter> tbl m l (child m pt j) = {})"

fun leaf :: "memory \<Rightarrow> nat \<Rightarrow> uint64 \<Rightarrow> uint64 \<Rightarrow> uint64 option" where
  "leaf m 0 pt va = (let v = load64 m (ent pt (px 0 va)) in if pvalid v then Some v else None)"
| "leaf m (Suc l) pt va =
     (if px (Suc l) va \<in> kids m pt then leaf m l (child m pt (px (Suc l) va)) va else None)"

fun slot :: "memory \<Rightarrow> nat \<Rightarrow> uint64 \<Rightarrow> uint64 \<Rightarrow> uint64" where
  "slot m 0 pt va = ent pt (px 0 va)"
| "slot m (Suc l) pt va =
     (if px (Suc l) va \<in> kids m pt then slot m l (child m pt (px (Suc l) va)) va else 0)"

lemma px_less [simp]: "px l va < 512"
  using PX_less [of l va] by (simp add: word_less_nat_alt)

lemma ent_px: "pt + 8 * PX l va = ent pt (px l va)"
  by (simp add: ent_def)

lemma kids_px: "px l va \<in> kids m pt \<longleftrightarrow> pvalid (load64 m (ent pt (px l va)))"
  by (simp add: kids_def)

lemma walk_loop_noalloc: "walk_loop c l pt va False s = Inr (slot (mem s) l pt va, s)"
  by (induction l arbitrary: pt) (simp_all add: ent_px kids_px child_def pvalid_def Let_def)

lemma unat_8i: "i < 512 \<Longrightarrow> unat (8 * of_nat i :: uint64) = 8 * i"
  by (simp add: unat_word_ariths unat_of_nat)

lemma ent_page:
  assumes "pg_aligned pt" "i < 512"
  shows "PGROUNDDOWN (ent pt i) = pt" "al8 (ent pt i)"
proof -
  have u: "unat (8 * of_nat i :: uint64) = 8 * i" by (rule unat_8i [OF assms(2)])
  show "PGROUNDDOWN (ent pt i) = pt"
    unfolding ent_def using assms u by (intro PGROUNDDOWN_add) simp_all
  have "unat (ent pt i) = unat pt + 8 * i"
    unfolding ent_def using assms u by (subst unat_page_off) simp_all
  moreover have "unat pt mod 8 = 0" using pg_aligned_al8 [OF assms(1)] by (simp add: al8_def)
  ultimately show "al8 (ent pt i)" by (simp add: al8_def mod_add_eq [symmetric])
qed

lemma ent_inj:
  assumes "i < 512" "j < 512" "ent pt i = ent pt j"
  shows "i = j"
proof -
  have "(8 * of_nat i :: uint64) = 8 * of_nat j"
    using assms(3) unfolding ent_def by (simp only: add_left_cancel)
  then have "8 * i = 8 * j" using unat_8i [OF assms(1)] unat_8i [OF assms(2)] by metis
  then show ?thesis by simp
qed

lemma ent_nonzero: "pg_aligned pt \<Longrightarrow> pt \<noteq> 0 \<Longrightarrow> i < 512 \<Longrightarrow> ent pt i \<noteq> 0"
  using ent_page(1) [of pt i] by (auto simp: PGROUNDDOWN_def)

lemma wft_root: "wft m l pt \<Longrightarrow> pg_aligned pt \<and> pt \<noteq> 0"
  by (cases l) auto

lemma root_in_tbl [simp]: "pt \<in> tbl m l pt"
  by (cases l) auto

lemma load_ent_frame:
  assumes "pg_aligned pt" "i < 512" "\<And>x. PGROUNDDOWN x = pt \<Longrightarrow> m' x = m x"
  shows "load64 m' (ent pt i) = load64 m (ent pt i)"
  using assms ent_page [OF assms(1,2)] by (intro load64_page_cong) simp_all

lemma load_store_ent:
  assumes "pg_aligned pt" "i < 512" "j < 512"
  shows "load64 (store64 (ent pt i) v m) (ent pt j) = (if j = i then v else load64 m (ent pt j))"
proof (cases "j = i")
  case False
  then have "ent pt i \<noteq> ent pt j" using ent_inj [OF assms(2,3)] by blast
  then show ?thesis
    using False load64_store64_other [OF ent_page(2) [OF assms(1,2)] ent_page(2) [OF assms(1,3)]] by simp
qed simp

lemma node_frame:
  assumes "pg_aligned pt" "\<And>x. PGROUNDDOWN x = pt \<Longrightarrow> m' x = m x"
  shows "kids m' pt = kids m pt" "i < 512 \<Longrightarrow> child m' pt i = child m pt i"
  using load_ent_frame [of pt _ m' m, OF assms(1) _ assms(2)]
  by (auto simp: kids_def child_def)

lemma table_frame:
  assumes "wft m l pt" "\<And>x. PGROUNDDOWN x \<in> tbl m l pt \<Longrightarrow> m' x = m x"
  shows "tbl m' l pt = tbl m l pt \<and> wft m' l pt \<and> leaf m' l pt va = leaf m l pt va
    \<and> slot m' l pt va = slot m l pt va"
  using assms
proof (induction l arbitrary: pt)
  case 0
  then have "load64 m' (ent pt (px 0 va)) = load64 m (ent pt (px 0 va))"
    by (intro load_ent_frame) auto
  with 0 show ?case by simp
next
  case (Suc l)
  have al: "pg_aligned pt" using Suc.prems(1) by simp
  note nf = node_frame [of pt m' m, OF al Suc.prems(2)]
  have k: "kids m' pt = kids m pt" by (rule nf) auto
  have ch: "child m' pt i = child m pt i" if "i \<in> kids m pt" for i
    using that by (intro nf) (auto simp: kids_def)
  have IH: "tbl m' l (child m pt i) = tbl m l (child m pt i) \<and> wft m' l (child m pt i)
    \<and> leaf m' l (child m pt i) va = leaf m l (child m pt i) va
    \<and> slot m' l (child m pt i) va = slot m l (child m pt i) va" if "i \<in> kids m pt" for i
    using that Suc.prems by (intro Suc.IH) auto
  show ?case using Suc.prems(1) k ch IH by simp
qed

text \<open>
  Replacing the subtable at one index of a node, leaving the other entries and subtables alone.
\<close>

lemma node_update:
  assumes wf: "wft m (Suc l) pt" and i: "i < 512"
    and others: "\<forall>j<512. j \<noteq> i \<longrightarrow> load64 m' (ent pt j) = load64 m (ent pt j)"
    and frame: "\<forall>j\<in>kids m pt. \<forall>x. j \<noteq> i \<longrightarrow> PGROUNDDOWN x \<in> tbl m l (child m pt j) \<longrightarrow> m' x = m x"
    and valid: "pvalid (load64 m' (ent pt i))"
    and sub: "wft m' l (child m' pt i)" "pt \<notin> tbl m' l (child m' pt i)"
    and disj: "\<forall>j\<in>kids m pt. j \<noteq> i \<longrightarrow> tbl m' l (child m' pt i) \<inter> tbl m l (child m pt j) = {}"
  shows "wft m' (Suc l) pt"
    and "tbl m' (Suc l) pt = insert pt (tbl m' l (child m' pt i) \<union>
      (\<Union>j\<in>kids m pt - {i}. tbl m l (child m pt j)))"
    and "leaf m' (Suc l) pt va = (if px (Suc l) va = i then leaf m' l (child m' pt i) va
      else leaf m (Suc l) pt va)"
    and "slot m' (Suc l) pt va = (if px (Suc l) va = i then slot m' l (child m' pt i) va
      else slot m (Suc l) pt va)"
proof -
  have "j \<in> kids m' pt \<longleftrightarrow> j \<in> insert i (kids m pt - {i})" for j
    using i others valid by (cases "j = i") (auto simp: kids_def)
  then have k: "kids m' pt = insert i (kids m pt - {i})" by blast
  have ch: "child m' pt j = child m pt j" if "j \<in> kids m pt" "j \<noteq> i" for j
    using that others by (simp add: child_def kids_def)
  have f: "tbl m' l (child m pt j) = tbl m l (child m pt j) \<and> wft m' l (child m pt j)
    \<and> leaf m' l (child m pt j) va = leaf m l (child m pt j) va
    \<and> slot m' l (child m pt j) va = slot m l (child m pt j) va"
    if "j \<in> kids m pt" "j \<noteq> i" for j va
    using that wf frame by (intro table_frame) auto
  have U: "(\<Union>j\<in>kids m pt - {i}. tbl m' l (child m' pt j))
      = (\<Union>j\<in>kids m pt - {i}. tbl m l (child m pt j))"
    using ch f by (intro SUP_cong) auto
  show "tbl m' (Suc l) pt = insert pt (tbl m' l (child m' pt i) \<union>
      (\<Union>j\<in>kids m pt - {i}. tbl m l (child m pt j)))"
    using U by (simp only: tbl.simps k UN_insert)
  show "wft m' (Suc l) pt"
    using wf sub disj ch f unfolding wft.simps k by (auto simp del: insert_Diff_single)
  show "leaf m' (Suc l) pt va = (if px (Suc l) va = i then leaf m' l (child m' pt i) va
      else leaf m (Suc l) pt va)"
    using ch f [of _ va] by (auto simp: k)
  show "slot m' (Suc l) pt va = (if px (Suc l) va = i then slot m' l (child m' pt i) va
      else slot m (Suc l) pt va)"
    using ch f [of _ va] by (auto simp: k)
qed

text \<open>Two virtual addresses that select the same entry at levels 0 to \<open>l\<close>.\<close>

definition same_ix :: "nat \<Rightarrow> uint64 \<Rightarrow> uint64 \<Rightarrow> bool" where
  "same_ix l va va' \<longleftrightarrow> (\<forall>k\<le>l. px k va = px k va')"

lemma same_ix_Suc: "same_ix (Suc l) va va' \<longleftrightarrow> px (Suc l) va = px (Suc l) va' \<and> same_ix l va va'"
  by (auto simp: same_ix_def le_Suc_eq)

lemma slot_in_tbl:
  "wft m l pt \<Longrightarrow> slot m l pt va \<noteq> 0 \<Longrightarrow> al8 (slot m l pt va) \<and> PGROUNDDOWN (slot m l pt va) \<in> tbl m l pt"
proof (induction l arbitrary: pt)
  case 0
  then show ?case using ent_page [of pt "px 0 va"] by simp
next
  case (Suc l)
  then have k: "px (Suc l) va \<in> kids m pt" by (simp split: if_splits)
  let ?q = "child m pt (px (Suc l) va)"
  have "slot m (Suc l) pt va = slot m l ?q va" "tbl m l ?q \<subseteq> tbl m (Suc l) pt" "wft m l ?q"
    using k Suc.prems(1) by auto
  then show ?case using Suc.IH [of ?q] Suc.prems(2) by (metis subsetD)
qed

lemma slot_leaf:
  "wft m l pt \<Longrightarrow> slot m l pt va \<noteq> 0 \<Longrightarrow>
    leaf m l pt va = (let v = load64 m (slot m l pt va) in if pvalid v then Some v else None)"
  by (induction l arbitrary: pt) (auto split: if_splits)

lemma slot_zero_leaf: "wft m l pt \<Longrightarrow> slot m l pt va = 0 \<Longrightarrow> leaf m l pt va = None"
proof (induction l arbitrary: pt)
  case 0
  then show ?case using ent_nonzero [of pt "px 0 va"] by simp
next
  case (Suc l)
  then show ?case by (auto split: if_splits)
qed

lemma store_leaf:
  fixes m :: memory and a v :: uint64
  assumes "wft m l pt" "slot m l pt va = a" "a \<noteq> 0"
  defines "m' \<equiv> store64 a v m"
  shows "wft m' l pt \<and> tbl m' l pt = tbl m l pt \<and> slot m' l pt va' = slot m l pt va'
    \<and> leaf m' l pt va' = (if same_ix l va va' then (if pvalid v then Some v else None)
       else leaf m l pt va')"
  using assms(1,2)
proof (induction l arbitrary: pt)
  case 0
  have al: "pg_aligned pt" using 0 by simp
  have "load64 m' (ent pt (px 0 va')) = (if px 0 va' = px 0 va then v else load64 m (ent pt (px 0 va')))"
    unfolding m'_def 0(2) [symmetric] slot.simps by (rule load_store_ent [OF al px_less px_less])
  with 0 show ?case by (auto simp: same_ix_def Let_def)
next
  case (Suc l)
  let ?i = "px (Suc l) va"
  have al: "pg_aligned pt" using Suc.prems by simp
  have i: "?i \<in> kids m pt" and s: "slot m l (child m pt ?i) va = a"
    using Suc.prems(2) assms(3) by (auto split: if_splits)
  have wc: "wft m l (child m pt ?i)" and n: "pt \<notin> tbl m l (child m pt ?i)"
    using Suc.prems(1) i by auto
  have a: "al8 a" "PGROUNDDOWN a \<in> tbl m l (child m pt ?i)"
    using slot_in_tbl [OF wc] s assms(3) by auto
  have fr: "m' x = m x" if "PGROUNDDOWN x \<noteq> PGROUNDDOWN a" for x
    using that a(1) by (simp add: m'_def store64_page)
  have ld: "load64 m' (ent pt j) = load64 m (ent pt j)" if "j < 512" for j
    using al that n a(2) by (intro load_ent_frame fr) auto
  have ch: "child m' pt ?i = child m pt ?i" using ld by (simp add: child_def)
  have IH: "wft m' l (child m pt ?i) \<and> tbl m' l (child m pt ?i) = tbl m l (child m pt ?i)
    \<and> slot m' l (child m pt ?i) va' = slot m l (child m pt ?i) va'
    \<and> leaf m' l (child m pt ?i) va' = (if same_ix l va va' then (if pvalid v then Some v else None)
       else leaf m l (child m pt ?i) va')"
    using Suc.IH [OF wc s] by simp
  have dj: "tbl m l (child m pt ?i) \<inter> tbl m l (child m pt j) = {}" if "j \<in> kids m pt" "j \<noteq> ?i" for j
    using that i Suc.prems(1) by auto
  note nu = node_update [OF Suc.prems(1), of ?i m']
  have pre: "wft m' (Suc l) pt" and t: "tbl m' (Suc l) pt = insert pt (tbl m' l (child m' pt ?i) \<union>
      (\<Union>j\<in>kids m pt - {?i}. tbl m l (child m pt j)))"
    and lf: "leaf m' (Suc l) pt va' = (if px (Suc l) va' = ?i then leaf m' l (child m' pt ?i) va'
      else leaf m (Suc l) pt va')"
    and sl: "slot m' (Suc l) pt va' = (if px (Suc l) va' = ?i then slot m' l (child m' pt ?i) va'
      else slot m (Suc l) pt va')"
    using i ld ch IH n dj a(2) fr by (intro nu; force simp: kids_def)+
  show ?case
    using pre t lf sl ch IH i by (auto simp: same_ix_Suc)
qed

end
