(* ===== verification/Vm_Map.thy ===== *)
theory Vm_Map
  imports Vm_Tables
begin

text \<open>
  What \<open>kernel/vm.c\<close> does to the address map of a page table: \<open>walk\<close> with allocation only adds
  page-table pages taken from the allocator, \<open>mappages\<close> adds exactly the mappings it is asked for,
  and \<open>uvmunmap\<close> removes exactly those of its range.
\<close>

section \<open>Walking with allocation\<close>

definition pt_ok :: "nat \<Rightarrow> nat \<Rightarrow> uint64 \<Rightarrow> 'a kstate_scheme \<Rightarrow> bool" where
  "pt_ok c l pt s \<longleftrightarrow> kmem_ok c s \<and> wft (mem s) l pt \<and> tbl (mem s) l pt \<inter> free_pages s = {}"

text \<open>
  The table may have grown from \<open>s\<close> to \<open>s'\<close>: pages moved from the free list into the table, and
  no other page was written. It is \<open>pt_grow\<close> when the map did not change.
\<close>

definition pt_ext :: "nat \<Rightarrow> nat \<Rightarrow> uint64 \<Rightarrow> 'a kstate_scheme \<Rightarrow> 'a kstate_scheme \<Rightarrow> bool" where
  "pt_ext c l pt s s' \<longleftrightarrow> pt_ok c l pt s' \<and> kmem_only c s s'
     \<and> tbl (mem s) l pt \<subseteq> tbl (mem s') l pt \<and> free_pages s' \<subseteq> free_pages s
     \<and> tbl (mem s') l pt \<union> free_pages s' = tbl (mem s) l pt \<union> free_pages s
     \<and> (\<forall>x. PGROUNDDOWN x \<notin> tbl (mem s) l pt \<union> free_pages s \<longrightarrow> mem s' x = mem s x)"

definition pt_grow :: "nat \<Rightarrow> nat \<Rightarrow> uint64 \<Rightarrow> 'a kstate_scheme \<Rightarrow> 'a kstate_scheme \<Rightarrow> bool" where
  "pt_grow c l pt s s' \<longleftrightarrow> pt_ext c l pt s s' \<and> (\<forall>va. leaf (mem s') l pt va = leaf (mem s) l pt va)"

lemmas pt_grow_unfold = pt_grow_def pt_ext_def

lemma pt_ext_refl: "pt_ok c l pt s \<Longrightarrow> pt_ext c l pt s s"
  by (simp add: pt_ext_def)

lemma pt_ext_trans:
  assumes "pt_ext c l pt s s'" "pt_ext c l pt s' s''"
  shows "pt_ext c l pt s s''"
proof -
  have k: "kmem_only c s s''" using assms kmem_only_trans by (auto simp: pt_ext_def)
  have e: "tbl (mem s') l pt \<union> free_pages s' = tbl (mem s) l pt \<union> free_pages s"
    "tbl (mem s'') l pt \<union> free_pages s'' = tbl (mem s') l pt \<union> free_pages s'"
    using assms by (simp_all add: pt_ext_def)
  have "mem s'' x = mem s x" if "PGROUNDDOWN x \<notin> tbl (mem s) l pt \<union> free_pages s" for x
    using assms that e(1) unfolding pt_ext_def by metis
  then show ?thesis
    using assms k e unfolding pt_ext_def by (metis order_trans)
qed

lemma pt_grow_refl: "pt_ok c l pt s \<Longrightarrow> pt_grow c l pt s s"
  by (simp add: pt_grow_def pt_ext_refl)

lemma pt_grow_trans: "pt_grow c l pt s s' \<Longrightarrow> pt_grow c l pt s' s'' \<Longrightarrow> pt_grow c l pt s s''"
  unfolding pt_grow_def by (metis pt_ext_trans)

lemma zero_page_table:
  assumes "pg_aligned p" "p \<noteq> 0" "\<And>x. PGROUNDDOWN x = p \<Longrightarrow> m x = 0"
  shows "kids m p = {}" "tbl m l p = {p}" "wft m l p" "leaf m l p va = None"
proof -
  have z: "load64 m (ent p i) = 0" if "i < 512" for i
  proof -
    have "load64 m (ent p i) = load64 (\<lambda>_. 0) (ent p i)"
      using assms that ent_page [OF assms(1) that] by (intro load64_page_cong) simp_all
    then show ?thesis by (simp add: load64_def)
  qed
  then show k: "kids m p = {}" by (auto simp: kids_def pvalid_def)
  show "tbl m l p = {p}" "wft m l p" using assms k by (cases l; simp)+
  show "leaf m l p va = None" using k z by (cases l) (simp_all add: pvalid_def)
qed

lemma subtable_frame:
  assumes "wft m (Suc l) pt" "i \<in> kids m pt" "j \<in> kids m pt" "i \<noteq> j"
  shows "tbl m l (child m pt i) \<inter> tbl m l (child m pt j) = {}"
  using assms by auto

lemma grow_sets:
  assumes "Q \<subseteq> Q'" "F' \<subseteq> F" "Q' \<union> F' = Q \<union> F" "Q' \<inter> F' = {}" "insert p (Q \<union> R) \<inter> F = {}"
  shows "insert p (Q \<union> R) \<subseteq> insert p (Q' \<union> R)" "insert p (Q' \<union> R) \<inter> F' = {}"
    "insert p (Q' \<union> R) \<union> F' = insert p (Q \<union> R) \<union> F"
  using assms by blast+

lemma grow_child:
  assumes ok: "pt_ok c (Suc l) pt s" and i: "i \<in> kids (mem s) pt"
    and g: "pt_grow c l (child (mem s) pt i) s s'"
  shows "pt_grow c (Suc l) pt s s' \<and> child (mem s') pt i = child (mem s) pt i \<and> i \<in> kids (mem s') pt"
proof -
  let ?m = "mem s" and ?m' = "mem s'" and ?q = "child (mem s) pt i"
  have wf: "wft ?m (Suc l) pt" and dj: "tbl ?m (Suc l) pt \<inter> free_pages s = {}"
    using ok by (auto simp: pt_ok_def)
  have al: "pg_aligned pt" and i512: "i < 512" using wf i by (auto simp: kids_def)
  have sub: "tbl ?m l ?q \<subseteq> tbl ?m (Suc l) pt" and n: "pt \<notin> tbl ?m l ?q \<union> free_pages s"
    using i wf dj by auto
  have fr: "?m' x = ?m x" if "PGROUNDDOWN x \<notin> tbl ?m l ?q \<union> free_pages s" for x
    using g that by (simp add: pt_grow_unfold)
  have ld: "load64 ?m' (ent pt j) = load64 ?m (ent pt j)" if "j < 512" for j
    using al that n by (intro load_ent_frame fr) auto
  have ch: "child ?m' pt i = ?q" using ld i512 by (simp add: child_def)
  have v: "pvalid (load64 ?m' (ent pt i))" using ld i by (simp add: kids_def)
  have t': "tbl ?m' l ?q \<subseteq> tbl ?m l ?q \<union> free_pages s" and w': "wft ?m' l ?q"
    using g by (auto simp: pt_grow_unfold pt_ok_def)
  have oth: "tbl ?m l (child ?m pt j) \<inter> (tbl ?m l ?q \<union> free_pages s) = {}"
    if "j \<in> kids ?m pt" "j \<noteq> i" for j
    using subtable_frame [OF wf i that(1)] that dj by auto
  have f: "\<forall>j\<in>kids ?m pt. \<forall>x. j \<noteq> i \<longrightarrow> PGROUNDDOWN x \<in> tbl ?m l (child ?m pt j) \<longrightarrow> ?m' x = ?m x"
    using oth by (intro ballI allI impI fr) blast
  have n': "pt \<notin> tbl ?m' l ?q" using t' n by blast
  have d': "\<forall>j\<in>kids ?m pt. j \<noteq> i \<longrightarrow> tbl ?m' l ?q \<inter> tbl ?m l (child ?m pt j) = {}"
    using oth t' by blast
  note nu = node_update [OF wf i512 _ f v, unfolded ch, OF _ w' n' d']
  have W: "wft ?m' (Suc l) pt"
    and T: "tbl ?m' (Suc l) pt = insert pt (tbl ?m' l ?q \<union> (\<Union>j\<in>kids ?m pt - {i}. tbl ?m l (child ?m pt j)))"
    and L: "leaf ?m' (Suc l) pt va = (if px (Suc l) va = i then leaf ?m' l ?q va else leaf ?m (Suc l) pt va)"
    for va
    using nu ld by blast+
  have T0: "tbl ?m (Suc l) pt = insert pt (tbl ?m l ?q \<union> (\<Union>j\<in>kids ?m pt - {i}. tbl ?m l (child ?m pt j)))"
    using i by auto
  have LE: "leaf ?m' (Suc l) pt va = leaf ?m (Suc l) pt va" for va
    using L [of va] g i by (simp add: pt_grow_unfold)
  have gs: "tbl ?m l ?q \<subseteq> tbl ?m' l ?q" "free_pages s' \<subseteq> free_pages s"
    "tbl ?m' l ?q \<union> free_pages s' = tbl ?m l ?q \<union> free_pages s" "tbl ?m' l ?q \<inter> free_pages s' = {}"
    using g by (simp_all add: pt_grow_unfold pt_ok_def)
  note S = grow_sets [OF gs dj [unfolded T0], folded T T0]
  have "?m' x = ?m x" if "PGROUNDDOWN x \<notin> tbl ?m (Suc l) pt \<union> free_pages s" for x
    using that sub by (intro fr) blast
  then have "pt_grow c (Suc l) pt s s'"
    using W S LE gs(2) g unfolding pt_grow_unfold pt_ok_def by blast
  moreover have "i \<in> kids ?m' pt" using v i512 by (simp add: kids_def)
  ultimately show ?thesis using ch by blast
qed

lemma ram_page_aligned: "ram_page s p \<Longrightarrow> pg_aligned p \<and> p \<noteq> 0"
  by (simp add: ram_page_def)

lemma pvalid_bit: "pvalid v \<longleftrightarrow> bit v 0"
  by (simp add: pvalid_def and_one_eq bit_0 odd_iff_mod_2_eq_one)

lemma pvalid_simps [simp]: "pvalid (v OR w) \<longleftrightarrow> pvalid v \<or> pvalid w" "pvalid 1" "\<not> pvalid 0"
  by (simp_all add: pvalid_bit bit_or_iff)

lemma grow_attach:
  assumes ok: "pt_ok c (Suc l) pt s" and i: "i < 512" "i \<notin> kids (mem s) pt"
    and p: "p \<in> free_pages s" "ram_page s p"
    and s1: "mem s1 = memset (mem s) p 5 4096" "kmem_only c s s1" "kmem_ok c s1"
      "free_pages s1 = free_pages s - {p}"
  defines "s2 \<equiv> s1\<lparr>mem := store64 (ent pt i) (PA2PTE p OR PTE_V) (memset (mem s1) p 0 4096)\<rparr>"
  shows "pt_grow c (Suc l) pt s s2 \<and> child (mem s2) pt i = p \<and> i \<in> kids (mem s2) pt"
proof -
  let ?m = "mem s" and ?m' = "mem s2"
  have wf: "wft ?m (Suc l) pt" and dj: "tbl ?m (Suc l) pt \<inter> free_pages s = {}"
    using ok by (auto simp: pt_ok_def)
  have al: "pg_aligned pt" and pal: "pg_aligned p" "p \<noteq> 0"
    using wf ram_page_aligned [OF p(2)] by auto
  have ne: "p \<noteq> pt" using dj p(1) by auto
  note e = ent_page [OF al i(1)]
  have m': "?m' = store64 (ent pt i) (PA2PTE p OR PTE_V) (memset (memset ?m p 5 4096) p 0 4096)"
    by (simp add: s2_def s1(1))
  have fr: "?m' x = ?m x" if "PGROUNDDOWN x \<noteq> p" "PGROUNDDOWN x \<noteq> pt" for x
    using that e pal by (simp add: m' store64_page memset_page)
  have z: "?m' x = 0" if "PGROUNDDOWN x = p" for x
    using that e pal ne by (simp add: m' store64_page memset_page)
  have ld: "load64 ?m' (ent pt j) = (if j = i then PA2PTE p OR PTE_V else load64 ?m (ent pt j))"
    if "j < 512" for j
    using that ne pal ent_page [OF al that] unfolding m'
    by (simp add: load_store_ent [OF al i(1) that] load64_memset_page)
  have ch: "child ?m' pt i = p"
    using i pal by (simp add: child_def ld PTE2PA_mk PGROUNDDOWN_id)
  have v: "pvalid (load64 ?m' (ent pt i))" using ld [OF i(1)] by simp
  note zp = zero_page_table [OF pal z]
  have out: "p \<notin> tbl ?m (Suc l) pt" using dj p(1) by blast
  have f: "\<forall>j\<in>kids ?m pt. \<forall>x. j \<noteq> i \<longrightarrow> PGROUNDDOWN x \<in> tbl ?m l (child ?m pt j) \<longrightarrow> ?m' x = ?m x"
    using out wf by (intro ballI allI impI fr) auto
  have d: "\<forall>j\<in>kids ?m pt. j \<noteq> i \<longrightarrow> tbl ?m' l p \<inter> tbl ?m l (child ?m pt j) = {}"
    using out zp(2) by auto
  have lo: "\<forall>j<512. j \<noteq> i \<longrightarrow> load64 ?m' (ent pt j) = load64 ?m (ent pt j)" using ld by simp
  have np: "pt \<notin> tbl ?m' l p" using ne zp(2) by simp
  note nu = node_update [OF wf i(1) lo f v, unfolded ch, OF zp(3) np d]
  have W: "wft ?m' (Suc l) pt"
    and T: "tbl ?m' (Suc l) pt = insert pt (tbl ?m' l p \<union> (\<Union>j\<in>kids ?m pt - {i}. tbl ?m l (child ?m pt j)))"
    and L: "leaf ?m' (Suc l) pt va = (if px (Suc l) va = i then leaf ?m' l p va else leaf ?m (Suc l) pt va)"
    for va
    using nu by blast+
  have T': "tbl ?m' (Suc l) pt = insert p (tbl ?m (Suc l) pt)"
    using T zp(2) i(2) by auto
  have LE: "leaf ?m' (Suc l) pt va = leaf ?m (Suc l) pt va" for va
    using L [of va] zp(4) i(2) by simp
  have "kmem_ok c s2 \<and> free_pages s2 = free_pages s1"
    unfolding s2_def
  proof (rule kmem_frame [OF s1(3)])
    fix x assume "PGROUNDDOWN x \<in> free_pages s1"
    then have "PGROUNDDOWN x \<noteq> p" "PGROUNDDOWN x \<noteq> pt" using s1(4) dj by auto
    then show "store64 (ent pt i) (PA2PTE p OR PTE_V) (memset (mem s1) p 0 4096) x = mem s1 x"
      using e pal by (simp add: store64_page memset_page)
  qed
  moreover have "kmem_only c s s2" unfolding s2_def by (rule kmem_only_trans [OF s1(2)]) simp
  moreover have "?m' x = ?m x" if "PGROUNDDOWN x \<notin> tbl ?m (Suc l) pt \<union> free_pages s" for x
    using that p(1) by (intro fr) auto
  ultimately have "pt_grow c (Suc l) pt s s2"
    unfolding pt_grow_unfold pt_ok_def using W T' LE s1(4) dj p(1) by auto
  then show ?thesis using ch v i by (simp add: kids_def)
qed

lemma pt_ok_child:
  assumes "pt_ok c (Suc l) pt s" "i \<in> kids (mem s) pt"
  shows "pt_ok c l (child (mem s) pt i) s"
  using assms by (auto simp: pt_ok_def)

text \<open>
  A walk with allocation returns the slot of the address in the grown table; it is null only when
  the allocator ran out of pages.
\<close>

lemma walk_loop_alloc:
  fixes s :: "'a kstate_scheme"
  assumes "pt_ok c l pt s"
  shows "\<exists>s'. walk_loop c l pt va True s = Inr (slot (mem s') l pt va, s') \<and> pt_grow c l pt s s'
    \<and> (slot (mem s') l pt va = 0 \<longrightarrow> free_pages s' = {})"
  using assms
proof (induction l arbitrary: pt s)
  case 0
  then have "slot (mem s) 0 pt va \<noteq> 0" using ent_nonzero by (simp add: pt_ok_def)
  with 0 show ?case by (auto simp: ent_px intro: pt_grow_refl)
next
  case (Suc l)
  let ?i = "px (Suc l) va"
  have step: "\<exists>s'. walk_loop c l (child (mem t) pt ?i) va True t = Inr (slot (mem s') (Suc l) pt va, s')
      \<and> pt_grow c (Suc l) pt t s' \<and> (slot (mem s') (Suc l) pt va = 0 \<longrightarrow> free_pages s' = {})"
    if "pt_ok c (Suc l) pt t" "?i \<in> kids (mem t) pt" for t :: "'a kstate_scheme"
  proof -
    note t = that
    obtain s' where s': "walk_loop c l (child (mem t) pt ?i) va True t
        = Inr (slot (mem s') l (child (mem t) pt ?i) va, s')"
      "pt_grow c l (child (mem t) pt ?i) t s'"
      "slot (mem s') l (child (mem t) pt ?i) va = 0 \<longrightarrow> free_pages s' = {}"
      using Suc.IH [OF pt_ok_child [OF t]] by blast
    from grow_child [OF t s'(2)] s'(1,3) show ?thesis by auto
  qed
  show ?case
  proof (cases "?i \<in> kids (mem s) pt")
    case True
    then have "walk_loop c (Suc l) pt va True s = walk_loop c l (child (mem s) pt ?i) va True s"
      by (simp add: ent_px kids_px child_def pvalid_def Let_def)
    with step [OF Suc.prems True] show ?thesis by simp
  next
    case False
    then have nv: "load64 (mem s) (ent pt ?i) AND 1 = 0" by (simp add: kids_px pvalid_def)
    have "kmem_ok c s" using Suc.prems by (simp add: pt_ok_def)
    then show ?thesis
    proof (cases rule: kalloc_cases)
      case none
      have "pt_grow c (Suc l) pt s (s\<lparr>mach := crit c (mach s)\<rparr>)"
        using Suc.prems none by (simp add: pt_grow_unfold pt_ok_def)
      then show ?thesis using none nv False by (auto simp: ent_px)
    next
      case (page p s1)
      let ?s2 = "s1\<lparr>mem := store64 (ent pt ?i) (PA2PTE p OR PTE_V) (memset (mem s1) p 0 4096)\<rparr>"
      have at: "pt_grow c (Suc l) pt s ?s2 \<and> child (mem ?s2) pt ?i = p \<and> ?i \<in> kids (mem ?s2) pt"
        by (rule grow_attach [OF Suc.prems px_less False page(1,2) page(4-7)])
      have "walk_loop c (Suc l) pt va True s = walk_loop c l p va True ?s2"
        using page(2,3) nv by (simp add: ent_px ram_page_def)
      moreover have ok2: "pt_ok c (Suc l) pt ?s2" using at by (simp add: pt_grow_unfold)
      ultimately show ?thesis
        using step [OF ok2] at pt_grow_trans [of c "Suc l" pt s ?s2] by (metis (no_types, lifting))
    qed
  qed
qed

section \<open>Storing an entry\<close>

lemma store_entry:
  fixes s :: "'a kstate_scheme" and a v :: uint64
  assumes ok: "pt_ok c l pt s" and sl: "slot (mem s) l pt va = a" "a \<noteq> 0"
  defines "s' \<equiv> s\<lparr>mem := store64 a v (mem s)\<rparr>"
  shows "pt_ext c l pt s s' \<and> free_pages s' = free_pages s
    \<and> leaf (mem s') l pt va' = (if same_ix l va va' then (if pvalid v then Some v else None)
        else leaf (mem s) l pt va')"
proof -
  have wf: "wft (mem s) l pt" and dj: "tbl (mem s) l pt \<inter> free_pages s = {}" and k: "kmem_ok c s"
    using ok by (auto simp: pt_ok_def)
  have a: "al8 a" "PGROUNDDOWN a \<in> tbl (mem s) l pt" using slot_in_tbl [OF wf] sl by auto
  have fr: "store64 a v (mem s) x = mem s x" if "PGROUNDDOWN x \<noteq> PGROUNDDOWN a" for x
    using that a(1) by (simp add: store64_page)
  have "kmem_ok c s' \<and> free_pages s' = free_pages s"
    unfolding s'_def using dj a(2) by (intro kmem_frame [OF k] fr) auto
  moreover have "kmem_only c s s'" by (simp add: s'_def)
  moreover have "mem s' x = mem s x" if "PGROUNDDOWN x \<notin> tbl (mem s) l pt" for x
    using that a(2) fr [of x] by (cases "PGROUNDDOWN x = PGROUNDDOWN a") (simp_all add: s'_def)
  ultimately show ?thesis
    using store_leaf [OF wf sl, of v va'] dj unfolding pt_ext_def pt_ok_def by (simp add: s'_def)
qed

text \<open>One iteration of \<open>mappages\<close>: walk to the slot, allocating, then store the entry.\<close>

lemma walk_alloc:
  assumes "pt_ok c 2 pt s" "va < MAXVA"
  obtains s' where "walk c pt va True s = Inr (slot (mem s') 2 pt va, s')" "pt_grow c 2 pt s s'"
    "slot (mem s') 2 pt va = 0 \<Longrightarrow> free_pages s' = {}"
  using walk_loop_alloc [OF assms(1), of va] assms(2) by (auto simp: walk_def not_le)

section \<open>Adding mappings\<close>

text \<open>
  The address map \<open>f\<close> with the \<open>n\<close> pages from \<open>a\<close> mapped to the physical pages from \<open>pa\<close>.
\<close>

definition map_range :: "uint64 \<Rightarrow> nat \<Rightarrow> uint64 \<Rightarrow> uint64 \<Rightarrow> (uint64 \<Rightarrow> uint64 option) \<Rightarrow> uint64 \<Rightarrow> uint64 option" where
  "map_range a n pa perm f p = (if \<exists>j<n. p = a + 4096 * of_nat j
     then Some (PA2PTE (pa + (p - a)) OR perm OR PTE_V) else f p)"

definition user_page :: "uint64 \<Rightarrow> bool" where
  "user_page p \<longleftrightarrow> pg_aligned p \<and> p < MAXVA"

lemma unat_MAXVA: "unat MAXVA = 274877906944"
  by (simp add: MAXVA_def push_bit_eq_mult)

lemma map_range_0 [simp]: "map_range a 0 pa perm f = f"
  by (simp add: map_range_def fun_eq_iff)

lemma map_range_Suc:
  assumes "g p = (if p = a then Some (PA2PTE pa OR perm OR PTE_V) else f p)"
  shows "map_range (a + 4096) n (pa + 4096) perm g p = map_range a (Suc n) pa perm f p"
proof -
  have R: "(\<exists>j<Suc n. p = a + 4096 * of_nat j) \<longleftrightarrow> p = a \<or> (\<exists>j<n. p = a + 4096 + 4096 * of_nat j)"
    by (subst Ex_less_Suc2) (simp add: algebra_simps)
  have e: "pa + 4096 + (p - (a + 4096)) = pa + (p - a)" by simp
  show ?thesis unfolding map_range_def e R assms by (cases "p = a") auto
qed

lemma same_ix_user: "user_page a \<Longrightarrow> user_page p \<Longrightarrow> same_ix 2 a p \<longleftrightarrow> a = p"
proof
  assume u: "user_page a" "user_page p" and s: "same_ix 2 a p"
  have k: "PX k a = PX k p" if "k \<le> 2" for k
    using s that unfolding same_ix_def by (simp only: word_unat_eq_iff)
  show "a = p"
    by (rule PX_inj) (use u in \<open>simp_all only: user_page_def k order_refl one_le_numeral zero_le\<close>)
qed (simp add: same_ix_def)

lemma map_one:
  assumes ok: "pt_ok c 2 pt s" and a: "user_page a" and un: "leaf (mem s) 2 pt a = None"
    and v: "pvalid v"
  obtains (none) s' where "walk c pt a True s = Inr (0, s')" "pt_grow c 2 pt s s'" "free_pages s' = {}"
  | (slot) pte s' s'' where "walk c pt a True s = Inr (pte, s')" "pte \<noteq> 0" "\<not> pvalid (load64 (mem s') pte)"
      "s'' = s'\<lparr>mem := store64 pte v (mem s')\<rparr>" "pt_ext c 2 pt s s''"
      "\<And>p. user_page p \<Longrightarrow> leaf (mem s'') 2 pt p = (if p = a then Some v else leaf (mem s) 2 pt p)"
proof -
  obtain s' where w: "walk c pt a True s = Inr (slot (mem s') 2 pt a, s')" and g: "pt_grow c 2 pt s s'"
    and z: "slot (mem s') 2 pt a = 0 \<Longrightarrow> free_pages s' = {}"
    using walk_alloc [OF ok] a unfolding user_page_def by blast
  show thesis
  proof (cases "slot (mem s') 2 pt a = 0")
    case True
    then show thesis using none [of s'] w g z by simp
  next
    case False
    have ok': "pt_ok c 2 pt s'" using g by (simp add: pt_grow_unfold)
    then have wf: "wft (mem s') 2 pt" by (simp add: pt_ok_def)
    have "leaf (mem s') 2 pt a = None" using g un by (simp add: pt_grow_def)
    then have nv: "\<not> pvalid (load64 (mem s') (slot (mem s') 2 pt a))"
      using slot_leaf [OF wf False] by (auto simp: Let_def split: if_splits)
    note se = store_entry [OF ok' refl False, of v]
    have "leaf (mem (s'\<lparr>mem := store64 (slot (mem s') 2 pt a) v (mem s')\<rparr>)) 2 pt p
        = (if p = a then Some v else leaf (mem s) 2 pt p)" if "user_page p" for p
      using se [of p] same_ix_user [OF a that] v g by (auto simp: pt_grow_def)
    then show thesis
      using slot [OF w False nv refl] se pt_ext_trans [of c 2 pt s s'] g unfolding pt_grow_def by blast
  qed
qed

lemma mappages_loop_ok:
  fixes s :: "'a kstate_scheme"
  assumes "pt_ok c 2 pt s" "pg_aligned a" "unat a + 4096 * k < unat MAXVA"
    and "\<forall>j\<le>k. leaf (mem s) 2 pt (a + 4096 * of_nat j) = None"
  shows "\<exists>r s' n. mappages_loop c (Suc k) pt a (a + 4096 * of_nat k) pa perm s = Inr (r, s')
    \<and> pt_ext c 2 pt s s'
    \<and> (\<forall>p. user_page p \<longrightarrow> leaf (mem s') 2 pt p = map_range a n pa perm (leaf (mem s) 2 pt) p)
    \<and> (r = 0 \<and> n = Suc k \<or> r = -1 \<and> n \<le> k \<and> free_pages s' = {})"
  using assms
proof (induction k arbitrary: a pa s)
  case 0
  have a: "user_page a" using "0.prems" by (simp add: user_page_def word_less_nat_alt)
  have un: "leaf (mem s) 2 pt a = None" using "0.prems"(4) by simp
  have v: "pvalid (PA2PTE pa OR perm OR PTE_V)" by simp
  show ?case
  proof (cases rule: map_one [OF "0.prems"(1) a un v])
    case (1 s')
    then show ?thesis by (auto simp: pt_grow_def intro!: exI [of _ 0])
  next
    case (2 pte s' s'')
    then show ?thesis
      by (auto simp: pvalid_def map_range_def Let_def intro!: exI [of _ s''] exI [of _ "Suc 0"])
  qed
next
  case (Suc k)
  have ua: "unat (a + 4096) = unat a + 4096"
    using Suc.prems(3) unfolding unat_MAXVA by (simp add: unat_word_ariths)
  have a: "user_page a" using Suc.prems by (simp add: user_page_def word_less_nat_alt)
  have un: "leaf (mem s) 2 pt a = None" using Suc.prems(4) by (auto dest: spec [of _ 0])
  have v: "pvalid (PA2PTE pa OR perm OR PTE_V)" by simp
  have last: "a + 4096 * of_nat (Suc k) = (a + 4096) + 4096 * of_nat k" by (simp add: algebra_simps)
  have uj: "unat (a + 4096 * of_nat j) = unat a + 4096 * j" if "j \<le> Suc k" for j
    using that Suc.prems(3) unfolding unat_MAXVA by (simp add: unat_word_ariths unat_of_nat)
  have ne: "a \<noteq> a + 4096 * of_nat (Suc k)" using uj [of "Suc k"] by (metis add_cancel_left_right mult_eq_0_iff nat.distinct(1) order_refl zero_neq_numeral)
  show ?case
  proof (cases rule: map_one [OF Suc.prems(1) a un v])
    case (1 s')
    then show ?thesis by (auto simp: pt_grow_def intro!: exI [of _ 0])
  next
    case (2 pte s' s'')
    have ok: "pt_ok c 2 pt s''" using 2(5) by (simp add: pt_ext_def)
    have un': "\<forall>j\<le>k. leaf (mem s'') 2 pt (a + 4096 + 4096 * of_nat j) = None"
    proof (intro allI impI)
      fix j assume j: "j \<le> k"
      have eq: "a + 4096 + 4096 * of_nat j = a + 4096 * of_nat (Suc j)" by (simp add: algebra_simps)
      have u: "unat (a + 4096 * of_nat (Suc j)) = unat a + 4096 * Suc j" using j by (intro uj) simp
      have "unat (a + 4096 * of_nat (Suc j)) mod 4096 = 0"
        using Suc.prems(2) unfolding u pg_aligned_unat by (simp only: mod_mult_self2)
      then have up: "user_page (a + 4096 * of_nat (Suc j))"
        using j Suc.prems(3) u unfolding user_page_def pg_aligned_unat word_less_nat_alt
        by (intro conjI) simp_all
      have "a + 4096 * of_nat (Suc j) \<noteq> a" using u by (metis add_cancel_left_right mult_eq_0_iff nat.distinct(1) zero_neq_numeral)
      then show "leaf (mem s'') 2 pt (a + 4096 + 4096 * of_nat j) = None"
        unfolding eq using 2(6) [OF up] Suc.prems(4) j by (metis Suc_le_mono)
    qed
    have "pg_aligned (a + 4096)" using Suc.prems(2) by (rule pg_aligned_step)
    moreover have "unat (a + 4096) + 4096 * k < unat MAXVA" using ua Suc.prems(3) by simp
    ultimately obtain r t n where IH:
      "mappages_loop c (Suc k) pt (a + 4096) (a + 4096 + 4096 * of_nat k) (pa + 4096) perm s'' = Inr (r, t)"
      "pt_ext c 2 pt s'' t"
      "\<forall>p. user_page p \<longrightarrow> leaf (mem t) 2 pt p = map_range (a + 4096) n (pa + 4096) perm (leaf (mem s'') 2 pt) p"
      "r = 0 \<and> n = Suc k \<or> r = -1 \<and> n \<le> k \<and> free_pages t = {}"
      using Suc.IH [OF ok _ _ un', of "pa + 4096"] by blast
    have run: "mappages_loop c (Suc (Suc k)) pt a (a + 4096 * of_nat (Suc k)) pa perm s
        = mappages_loop c (Suc k) pt (a + 4096) (a + 4096 + 4096 * of_nat k) (pa + 4096) perm s''"
      using 2(1-4) ne unfolding last [symmetric] by (subst mappages_loop.simps) (simp add: pvalid_def)
    have lf: "leaf (mem t) 2 pt p = map_range a (Suc n) pa perm (leaf (mem s) 2 pt) p" if "user_page p" for p
      using IH(3) that map_range_Suc [of "leaf (mem s'') 2 pt" p a pa perm "leaf (mem s) 2 pt", OF 2(6) [OF that]] by simp
    show ?thesis
      using run IH(1,4) pt_ext_trans [OF 2(5) IH(2)] lf by (intro exI [of _ r] exI [of _ t] exI [of _ "Suc n"]) auto
  qed
qed

text \<open>
  \<open>mappages\<close> with the range it computes from \<open>va\<close> and \<open>sz\<close>: the pages from that of \<open>va\<close> to that of
  the last byte.
\<close>

definition page_count :: "uint64 \<Rightarrow> uint64 \<Rightarrow> nat" where
  "page_count va sz = Suc (unat (PGROUNDDOWN (va + sz - 1) - PGROUNDDOWN va) div 4096)"

lemma mappages_maps:
  fixes s :: "'a kstate_scheme"
  assumes ok: "pt_ok c 2 pt s" and sz: "0 < sz" "unat va + unat sz \<le> unat MAXVA"
    and un: "\<forall>j<page_count va sz. leaf (mem s) 2 pt (PGROUNDDOWN va + 4096 * of_nat j) = None"
  shows "\<exists>r s' n. mappages c pt va sz pa perm s = Inr (r, s') \<and> pt_ext c 2 pt s s'
    \<and> (\<forall>p. user_page p \<longrightarrow> leaf (mem s') 2 pt p
         = map_range (PGROUNDDOWN va) n pa perm (leaf (mem s) 2 pt) p)
    \<and> (r = 0 \<and> n = page_count va sz \<or> r = -1 \<and> n < page_count va sz \<and> free_pages s' = {})"
proof -
  let ?a = "PGROUNDDOWN va" and ?l = "PGROUNDDOWN (va + sz - 1)"
  define k where "k = unat (?l - ?a) div 4096"
  have s1: "1 \<le> unat sz" using sz(1) by (simp add: word_less_nat_alt)
  have "unat (va + sz) = unat va + unat sz"
    using sz(2) unfolding unat_MAXVA by (simp add: unat_word_ariths)
  then have ul: "unat (va + sz - 1) = unat va + unat sz - 1"
    using s1 by (simp add: unat_sub word_le_nat_alt)
  have le: "unat ?a \<le> unat ?l"
    using s1 unfolding unat_PGROUNDDOWN ul by (simp add: div_le_mono)
  have d: "unat (?l - ?a) = 4096 * k"
    using le unfolding k_def by (simp add: unat_sub word_le_nat_alt unat_PGROUNDDOWN diff_mult_distrib [symmetric])
  have lst: "?l = ?a + 4096 * of_nat k"
  proof -
    have "?l - ?a = of_nat (4096 * k)" using d by (metis of_nat_unat ucast_id)
    then show ?thesis by (simp add: algebra_simps)
  qed
  have "unat ?a + 4096 * k = unat ?l" using d le by (simp add: unat_sub word_le_nat_alt)
  moreover have "unat ?l \<le> unat va + unat sz - 1" unfolding unat_PGROUNDDOWN ul by simp
  ultimately have b: "unat ?a + 4096 * k < unat MAXVA" using s1 sz(2) by simp
  have pc: "page_count va sz = Suc k" by (simp add: page_count_def k_def)
  have un': "\<forall>j\<le>k. leaf (mem s) 2 pt (?a + 4096 * of_nat j) = None" using un pc by simp
  have "mappages c pt va sz pa perm s = mappages_loop c (Suc k) pt ?a (?a + 4096 * of_nat k) pa perm s"
    using sz(1) unfolding mappages_def k_def lst [symmetric, unfolded k_def] Let_def
    by (simp only: word_greater_zero_iff if_False)
  then show ?thesis
    using mappages_loop_ok [OF ok PGROUNDDOWN_aligned b un', of pa perm] pc by (simp add: less_Suc_eq_le)
qed

end
