(* ===== verification/Vm_Copy.thy ===== *)
theory Vm_Copy
  imports Vm_Map
begin

text \<open>
  Copying between kernel and user memory: \<open>copyin\<close> and \<open>copyout\<close> transfer exactly the bytes of the
  user range through the page table, page by page, and fail iff a page of the range is not mapped
  for the user.
\<close>

section \<open>User addresses\<close>

text \<open>
  The physical page a user address lies in (0 when \<open>walkaddr\<close> refuses it), and the physical
  address of a user byte.
\<close>

definition upage :: "memory \<Rightarrow> uint64 \<Rightarrow> uint64 \<Rightarrow> uint64" where
  "upage m pt va = (if va \<ge> MAXVA then 0 else case leaf m 2 pt va of None \<Rightarrow> 0
     | Some v \<Rightarrow> if v AND PTE_U = 0 then 0 else PTE2PA v)"

definition ubyte :: "memory \<Rightarrow> uint64 \<Rightarrow> uint64 \<Rightarrow> uint64" where
  "ubyte m pt va = upage m pt (PGROUNDDOWN va) + (va - PGROUNDDOWN va)"

definition umapped :: "memory \<Rightarrow> uint64 \<Rightarrow> uint64 \<Rightarrow> nat \<Rightarrow> bool" where
  "umapped m pt va n \<longleftrightarrow> (\<forall>i<n. upage m pt (PGROUNDDOWN (va + of_nat i)) \<noteq> 0)"

lemma walkaddr_eq: "wft (mem s) 2 pt \<Longrightarrow> walkaddr c pt va s = Inr (upage (mem s) pt va)"
proof (cases "va < MAXVA \<and> slot (mem s) 2 pt va \<noteq> 0")
  case True
  assume wf: "wft (mem s) 2 pt"
  show ?thesis
    using True slot_leaf [OF wf, of va]
    by (auto simp: walkaddr_def walk_def walk_loop_noalloc upage_def Let_def pvalid_def not_le)
next
  case False
  assume wf: "wft (mem s) 2 pt"
  show ?thesis
    using False slot_zero_leaf [OF wf, of va]
    by (auto simp: walkaddr_def walk_def walk_loop_noalloc upage_def not_le)
qed

lemma PTE2PA_aligned: "pg_aligned (PTE2PA v)"
proof -
  have "PGROUNDDOWN (PTE2PA v) = PTE2PA v"
    by (rule bit_word_eqI) (auto simp: PTE2PA_def PGROUNDDOWN_shift bit_simps)
  then show ?thesis by (metis PGROUNDDOWN_aligned)
qed

lemma upage_aligned: "pg_aligned (upage m pt va)"
  using PTE2PA_aligned by (simp add: upage_def pg_aligned_unat split: option.split)

lemma chunk_page:
  assumes "i < unat (copy_chunk va len)" "0 < len"
  shows "PGROUNDDOWN (va + of_nat i) = PGROUNDDOWN va"
    and "va + of_nat i - PGROUNDDOWN va = (va - PGROUNDDOWN va) + of_nat i"
proof -
  let ?o = "va - PGROUNDDOWN va"
  have b: "unat ?o + i < 4096" using copy_chunk_bounds [OF assms(2), of va] assms(1) by simp
  then have "unat (?o + of_nat i) = unat ?o + i" by (simp add: unat_word_ariths unat_of_nat)
  then have "PGROUNDDOWN (PGROUNDDOWN va + (?o + of_nat i)) = PGROUNDDOWN va"
    using b PGROUNDDOWN_aligned by (intro PGROUNDDOWN_add) simp_all
  then show "PGROUNDDOWN (va + of_nat i) = PGROUNDDOWN va" by (simp add: algebra_simps)
qed (simp add: algebra_simps)

lemma chunk_next:
  assumes "0 < len" "copy_chunk va len < len"
  shows "va + of_nat (unat (copy_chunk va len) + i) = PGROUNDDOWN va + 4096 + of_nat i"
proof -
  have "copy_chunk va len = 4096 - (va - PGROUNDDOWN va)"
    using assms(2) by (auto simp: copy_chunk_def Let_def split: if_splits)
  then show ?thesis by simp
qed

lemma ubyte_chunk:
  assumes "i < unat (copy_chunk va len)" "0 < len"
  shows "ubyte m pt (va + of_nat i) = upage m pt (PGROUNDDOWN va) + (va - PGROUNDDOWN va) + of_nat i"
  using chunk_page [OF assms] by (simp add: ubyte_def algebra_simps)

lemma all_less_split:
  fixes k n :: nat
  assumes "k \<le> n"
  shows "(\<forall>i<n. P i) \<longleftrightarrow> (\<forall>i<k. P i) \<and> (\<forall>i<n - k. P (k + i))"
proof (intro iffI conjI allI impI)
  fix i assume h: "(\<forall>i<k. P i) \<and> (\<forall>i<n - k. P (k + i))" and i: "i < n"
  show "P i"
  proof (cases "i < k")
    case False
    then have "k + (i - k) = i" "i - k < n - k" using i by simp_all
    then show ?thesis using h by metis
  qed (use h in simp)
qed (use assms in simp_all)

lemma umapped_split:
  assumes "0 < len"
  shows "umapped m pt va (unat len) \<longleftrightarrow> upage m pt (PGROUNDDOWN va) \<noteq> 0
     \<and> umapped m pt (PGROUNDDOWN va + 4096) (unat (len - copy_chunk va len))"
proof -
  let ?n = "copy_chunk va len"
  have b: "0 < unat ?n" "unat ?n \<le> unat len" using copy_chunk_bounds [OF assms, of va] by auto
  have l: "unat (len - ?n) = unat len - unat ?n" using b by (simp add: unat_sub word_le_nat_alt)
  have nx: "va + of_nat (unat ?n + i) = PGROUNDDOWN va + 4096 + of_nat i" if "i < unat len - unat ?n" for i
    using that by (intro chunk_next [OF assms]) (simp add: word_less_nat_alt)
  have h: "(\<forall>i<unat ?n. upage m pt (PGROUNDDOWN (va + of_nat i)) \<noteq> 0) \<longleftrightarrow> upage m pt (PGROUNDDOWN va) \<noteq> 0"
    using chunk_page(1) [OF _ assms] b(1) by metis
  show ?thesis
    unfolding umapped_def l all_less_split [OF b(2)] h by (simp del: of_nat_add add: nx)
qed


section \<open>Reading user memory\<close>

lemma list_split: "n \<le> k \<Longrightarrow> map f [0..<k] = map f [0..<n] @ map (\<lambda>i. f (n + i)) [0..<k - n]"
  by (rule nth_equalityI) (auto simp: nth_append)

text \<open>
  \<open>copyin\<close> returns 0 with the bytes of the user range when all of it is mapped, and -1 otherwise.
\<close>

lemma copyin_spec:
  assumes "wft (mem s) 2 pt"
  shows "if umapped (mem s) pt va (unat len)
    then copyin c pt va len s = Inr (0, map (\<lambda>i. mem s (ubyte (mem s) pt (va + of_nat i))) [0..<unat len])
    else \<exists>bs. copyin c pt va len s = Inr (-1, bs) \<and> length bs < unat len"
  using assms
proof (induction c pt va len s rule: copyin.induct)
  case (1 c pt va len s)
  let ?m = "mem s" and ?n = "copy_chunk va len" and ?va = "PGROUNDDOWN va + 4096"
  show ?case
  proof (cases "0 < len")
    case False
    then have "len = 0" using word_greater_zero_iff by blast
    then show ?thesis by (simp add: copyin.simps umapped_def)
  next
    case True
    note sp = umapped_split [OF True, of ?m pt va]
    have b: "0 < unat ?n" "unat ?n \<le> unat len" using copy_chunk_bounds [OF True, of va] by auto
    have l: "unat (len - ?n) = unat len - unat ?n" using b by (simp add: unat_sub word_le_nat_alt)
    show ?thesis
    proof (cases "upage ?m pt (PGROUNDDOWN va) = 0")
      case z: True
      then show ?thesis using True sp walkaddr_eq [OF "1.prems"]
        by (subst copyin.simps) (simp add: copyin.simps word_less_nat_alt)
    next
      case z: False
      have IH: "if umapped ?m pt ?va (unat (len - ?n))
        then copyin c pt ?va (len - ?n) s
          = Inr (0, map (\<lambda>i. ?m (ubyte ?m pt (?va + of_nat i))) [0..<unat (len - ?n)])
        else \<exists>bs. copyin c pt ?va (len - ?n) s = Inr (-1, bs) \<and> length bs < unat (len - ?n)"
        using "1.IH" [OF True refl walkaddr_eq [OF "1.prems"] z refl refl "1.prems"] unfolding PGSIZE_def .
      have run: "copyin c pt va len s = bnd (copyin c pt ?va (len - ?n) s) (\<lambda>(r, rest).
          Inr (r, peek ?m (upage ?m pt (PGROUNDDOWN va) + (va - PGROUNDDOWN va)) (unat ?n) @ rest))"
        using True z walkaddr_eq [OF "1.prems"] by (subst copyin.simps) (simp add: Let_def)
      have pk: "peek ?m (upage ?m pt (PGROUNDDOWN va) + (va - PGROUNDDOWN va)) (unat ?n)
          = map (\<lambda>i. ?m (ubyte ?m pt (va + of_nat i))) [0..<unat ?n]"
        using ubyte_chunk [OF _ True, of _ va ?m pt] by (simp add: peek_def)
      have nx: "va + of_nat (unat ?n + i) = ?va + of_nat i" if "i < unat len - unat ?n" for i
        using that by (intro chunk_next [OF True]) (simp add: word_less_nat_alt)
      have rs: "map (\<lambda>i. ?m (ubyte ?m pt (?va + of_nat i))) [0..<unat len - unat ?n]
          = map (\<lambda>i. ?m (ubyte ?m pt (va + of_nat (unat ?n + i)))) [0..<unat len - unat ?n]"
        by (intro map_cong) (simp_all del: of_nat_add add: nx)
      show ?thesis
      proof (cases "umapped ?m pt ?va (unat (len - ?n))")
        case u: True
        then show ?thesis using IH run pk rs sp z l
          by (simp add: list_split [OF b(2)] del: of_nat_add)
      next
        case u: False
        then show ?thesis using IH run sp z l by (auto simp: peek_def)
      qed
    qed
  qed
qed

section \<open>Writing user memory\<close>

text \<open>Storing a byte sequence at the addresses \<open>f 0\<close>, \<open>f 1\<close>, and so on.\<close>

definition put_bytes :: "memory \<Rightarrow> (nat \<Rightarrow> uint64) \<Rightarrow> bytes \<Rightarrow> nat \<Rightarrow> memory" where
  "put_bytes m f src n = fold (\<lambda>i m. store8 (f i) (src i) m) [0..<n] m"

lemma put_bytes_0 [simp]: "put_bytes m f src 0 = m"
  by (simp add: put_bytes_def)

lemma put_bytes_Suc: "put_bytes m f src (Suc n) = store8 (f n) (src n) (put_bytes m f src n)"
  by (simp add: put_bytes_def)

lemma put_bytes_outside: "(\<forall>i<n. x \<noteq> f i) \<Longrightarrow> put_bytes m f src n x = m x"
  by (induction n) (simp_all add: put_bytes_Suc store8_apply)

lemma put_bytes_inside:
  "inj_on f {..<n} \<Longrightarrow> i < n \<Longrightarrow> put_bytes m f src n (f i) = src i"
proof (induction n)
  case (Suc n)
  show ?case
  proof (cases "i = n")
    case False
    then have "f i \<noteq> f n" using Suc.prems by (metis inj_onD lessThan_iff lessI)
    moreover have "inj_on f {..<n}" using Suc.prems(1) by (rule inj_on_subset) auto
    ultimately show ?thesis using Suc False by (simp add: put_bytes_Suc store8_apply)
  qed (simp add: put_bytes_Suc store8_apply)
qed simp

lemma put_bytes_cong: "(\<And>i. i < n \<Longrightarrow> f i = g i) \<Longrightarrow> put_bytes m f src n = put_bytes m g src n"
  unfolding put_bytes_def by (rule fold_cong) simp_all

lemma put_bytes_split:
  "put_bytes m f src (n + k) = put_bytes (put_bytes m f src n) (\<lambda>i. f (n + i)) (\<lambda>i. src (n + i)) k"
  by (induction k) (simp_all add: put_bytes_Suc)

lemma poke_put_bytes: "poke m a src n = put_bytes m (\<lambda>i. a + of_nat i) src n"
  by (simp add: poke_def put_bytes_def)

lemma upage_frame:
  assumes "wft m 2 pt" "\<And>x. PGROUNDDOWN x \<in> tbl m 2 pt \<Longrightarrow> m' x = m x"
  shows "upage m' pt = upage m pt" "ubyte m' pt = ubyte m pt" "umapped m' pt = umapped m pt"
    "wft m' 2 pt" "tbl m' 2 pt = tbl m 2 pt"
  using table_frame [OF assms] by (simp_all add: upage_def ubyte_def umapped_def fun_eq_iff)

definition off_table :: "memory \<Rightarrow> uint64 \<Rightarrow> uint64 \<Rightarrow> nat \<Rightarrow> bool" where
  "off_table m pt va n \<longleftrightarrow> (\<forall>i<n. upage m pt (PGROUNDDOWN (va + of_nat i)) \<notin> tbl m 2 pt)"

lemma off_table_split:
  assumes "0 < len"
  shows "off_table m pt va (unat len) \<longleftrightarrow> upage m pt (PGROUNDDOWN va) \<notin> tbl m 2 pt
     \<and> off_table m pt (PGROUNDDOWN va + 4096) (unat (len - copy_chunk va len))"
proof -
  let ?n = "copy_chunk va len"
  have b: "0 < unat ?n" "unat ?n \<le> unat len" using copy_chunk_bounds [OF assms, of va] by auto
  have l: "unat (len - ?n) = unat len - unat ?n" using b by (simp add: unat_sub word_le_nat_alt)
  have nx: "va + of_nat (unat ?n + i) = PGROUNDDOWN va + 4096 + of_nat i" if "i < unat len - unat ?n" for i
    using that by (intro chunk_next [OF assms]) (simp add: word_less_nat_alt)
  have h: "(\<forall>i<unat ?n. upage m pt (PGROUNDDOWN (va + of_nat i)) \<notin> tbl m 2 pt)
      \<longleftrightarrow> upage m pt (PGROUNDDOWN va) \<notin> tbl m 2 pt"
    using chunk_page(1) [OF _ assms] b(1) by metis
  show ?thesis
    unfolding off_table_def l all_less_split [OF b(2)] h by (simp del: of_nat_add add: nx)
qed

lemma chunk_in_page:
  assumes "i < unat (copy_chunk va len)" "0 < len" "pg_aligned p"
  shows "PGROUNDDOWN (p + (va - PGROUNDDOWN va) + of_nat i) = p"
proof -
  let ?o = "va - PGROUNDDOWN va"
  have b: "unat ?o + i < 4096" using copy_chunk_bounds [OF assms(2), of va] assms(1) by simp
  then have "unat (?o + of_nat i) = unat ?o + i" by (simp add: unat_word_ariths unat_of_nat)
  then have "PGROUNDDOWN (p + (?o + of_nat i)) = p" using b assms(3) by (intro PGROUNDDOWN_add) simp_all
  then show ?thesis by (simp add: algebra_simps)
qed

lemma copyout_spec:
  assumes "wft (mem s) 2 pt" "off_table (mem s) pt va (unat len)"
  shows "if umapped (mem s) pt va (unat len)
    then copyout c pt va src len s
      = Inr (0, s\<lparr>mem := put_bytes (mem s) (\<lambda>i. ubyte (mem s) pt (va + of_nat i)) src (unat len)\<rparr>)
    else \<exists>s'. copyout c pt va src len s = Inr (-1, s')"
  using assms
proof (induction c pt va src len s rule: copyout.induct)
  case (1 c pt va src len s)
  let ?m = "mem s" and ?n = "copy_chunk va len" and ?va = "PGROUNDDOWN va + 4096"
  let ?p = "upage ?m pt (PGROUNDDOWN va)"
  let ?s = "s\<lparr>mem := poke ?m (?p + (va - PGROUNDDOWN va)) src (unat ?n)\<rparr>"
  let ?src = "\<lambda>i. src (unat ?n + i)"
  note wa = walkaddr_eq [OF "1.prems"(1), of c "PGROUNDDOWN va"]
  show ?case
  proof (cases "0 < len")
    case False
    then have "len = 0" using word_greater_zero_iff by blast
    then show ?thesis by (simp add: copyout.simps umapped_def)
  next
    case True
    note sp = umapped_split [OF True, of ?m pt va] and os = off_table_split [OF True, of ?m pt va]
    have b: "0 < unat ?n" "unat ?n \<le> unat len" using copy_chunk_bounds [OF True, of va] by auto
    have l: "unat (len - ?n) = unat len - unat ?n" using b by (simp add: unat_sub word_le_nat_alt)
    show ?thesis
    proof (cases "?p = 0")
      case z: True
      then show ?thesis using True sp wa by (subst copyout.simps) (simp add: copyout.simps)
    next
      case z: False
      have "poke ?m (?p + (va - PGROUNDDOWN va)) src (unat ?n) x = ?m x" if "PGROUNDDOWN x \<in> tbl ?m 2 pt" for x
        unfolding poke_put_bytes
        using that os "1.prems"(2) chunk_in_page [OF _ True upage_aligned]
        by (intro put_bytes_outside) auto
      note fr = upage_frame [OF "1.prems"(1), of "mem ?s", simplified, OF this]
      have ot: "off_table (mem ?s) pt ?va (unat (len - ?n))"
        using os "1.prems"(2) fr by (simp add: off_table_def)
      have IH: "if umapped ?m pt ?va (unat (len - ?n))
        then copyout c pt ?va ?src (len - ?n) ?s
          = Inr (0, ?s\<lparr>mem := put_bytes (mem ?s) (\<lambda>i. ubyte ?m pt (?va + of_nat i)) ?src (unat (len - ?n))\<rparr>)
        else \<exists>s'. copyout c pt ?va ?src (len - ?n) ?s = Inr (-1, s')"
        using "1.IH" [OF True refl wa z refl refl _ ot [folded PGSIZE_def]] fr unfolding PGSIZE_def by simp
      have run: "copyout c pt va src len s = copyout c pt ?va ?src (len - ?n) ?s"
        using True z wa by (subst copyout.simps) (simp add: Let_def)
      have nx: "va + of_nat (unat ?n + i) = ?va + of_nat i" if "i < unat len - unat ?n" for i
        using that by (intro chunk_next [OF True]) (simp add: word_less_nat_alt)
      have "put_bytes ?m (\<lambda>i. ubyte ?m pt (va + of_nat i)) src (unat ?n + (unat len - unat ?n))
        = put_bytes (mem ?s) (\<lambda>i. ubyte ?m pt (?va + of_nat i)) ?src (unat len - unat ?n)"
        unfolding put_bytes_split
      proof -
        have 1: "mem ?s = put_bytes ?m (\<lambda>i. ubyte ?m pt (va + of_nat i)) src (unat ?n)"
          using ubyte_chunk [OF _ True, of _ va ?m pt] by (simp add: poke_put_bytes cong: put_bytes_cong)
        show "put_bytes (put_bytes ?m (\<lambda>i. ubyte ?m pt (va + of_nat i)) src (unat ?n))
            (\<lambda>i. ubyte ?m pt (va + of_nat (unat ?n + i))) ?src (unat len - unat ?n)
          = put_bytes (mem ?s) (\<lambda>i. ubyte ?m pt (?va + of_nat i)) ?src (unat len - unat ?n)"
          unfolding 1 by (rule put_bytes_cong) (simp only: nx)
      qed
      then show ?thesis using IH run sp z l b(2) by auto
    qed
  qed
qed

section \<open>Correctness of address translation and copying\<close>

text \<open>A page table that maps user page 0, for the examples below.\<close>

definition demo_pt :: memory where
  "demo_pt = store64 0x87fff000 (PA2PTE 0x87ffe000 OR PTE_V)
     (store64 0x87ffe000 (PA2PTE 0x87ffd000 OR PTE_V)
     (store64 0x87ffd000 (PA2PTE 0x87ffc000 OR 0x17) (\<lambda>_. 0)))"

lemma load_other_page:
  "al8 a \<Longrightarrow> al8 b \<Longrightarrow> PGROUNDDOWN a \<noteq> PGROUNDDOWN b \<Longrightarrow> load64 (store64 a v m) b = load64 m b"
  by (rule load64_store64_other) auto

lemma load_table:
  assumes "pg_aligned p" "pg_aligned q" "i < 512"
  shows "load64 (store64 p v m) (ent q i) = (if p = q \<and> i = 0 then v else load64 m (ent q i))"
proof (cases "p = q")
  case True
  then show ?thesis using load_store_ent [of q 0 i v m] assms by (simp add: ent_def)
next
  case False
  then show ?thesis
    using assms ent_page [OF assms(2,3)] by (simp add: load_other_page PGROUNDDOWN_id)
qed

lemma demo_pt_load:
  assumes "i < 512"
  shows "load64 demo_pt (ent 0x87fff000 i) = (if i = 0 then PA2PTE 0x87ffe000 OR PTE_V else 0)"
    "load64 demo_pt (ent 0x87ffe000 i) = (if i = 0 then PA2PTE 0x87ffd000 OR PTE_V else 0)"
    "load64 demo_pt (ent 0x87ffd000 i) = (if i = 0 then PA2PTE 0x87ffc000 OR 0x17 else 0)"
  using assms by (simp_all add: demo_pt_def load_table pg_aligned_def)

lemma demo_pt_nodes:
  "kids demo_pt 0x87fff000 = {0}" "kids demo_pt 0x87ffe000 = {0}"
  "child demo_pt 0x87fff000 0 = 0x87ffe000" "child demo_pt 0x87ffe000 0 = 0x87ffd000"
  by (auto simp: kids_def child_def demo_pt_load PTE2PA_mk PGROUNDDOWN_def split: if_splits)

lemma level2:
  "wft m 2 = wft m (Suc (Suc 0))" "tbl m 2 = tbl m (Suc (Suc 0))" "leaf m 2 = leaf m (Suc (Suc 0))"
  "PX 2 = PX (Suc (Suc 0))"
  by (simp_all only: numeral_2_eq_2)

lemma demo_pt_wft: "wft demo_pt 2 0x87fff000" "tbl demo_pt 2 0x87fff000 = {0x87fff000, 0x87ffe000, 0x87ffd000}"
  by (simp_all add: level2 demo_pt_nodes pg_aligned_def insert_commute)

lemma demo_pt_leaf:
  "leaf demo_pt 2 0x87fff000 va
    = (if PX 2 va = 0 \<and> PX 1 va = 0 \<and> PX 0 va = 0 then Some (PA2PTE 0x87ffc000 OR 0x17) else None)"
  by (simp add: level2 demo_pt_nodes demo_pt_load pvalid_bit unat_eq_0 Let_def bit_or_iff)

lemma demo_pt_upage: "upage demo_pt 0x87fff000 0 = 0x87ffc000"
  by (simp add: upage_def demo_pt_leaf MAXVA_eq PX_def PXSHIFT_def PXMASK_def PTE2PA_def PA2PTE_def)

lemma demo_pt_page0:
  assumes "i < 8"
  shows "PGROUNDDOWN (0x10 + of_nat i) = 0" "ubyte demo_pt 0x87fff000 (0x10 + of_nat i) = 0x87ffc010 + of_nat i"
proof -
  have "unat (0x10 + of_nat i :: uint64) = 16 + i" using assms by (simp add: unat_word_ariths unat_of_nat)
  then show p: "PGROUNDDOWN (0x10 + of_nat i) = 0"
    using assms by (simp add: word_unat_eq_iff unat_PGROUNDDOWN)
  show "ubyte demo_pt 0x87fff000 (0x10 + of_nat i) = 0x87ffc010 + of_nat i"
    by (simp add: ubyte_def p demo_pt_upage)
qed

text \<open>
  C6. \<open>mappages\<close>, for a range below \<open>MAXVA\<close> none of whose pages is mapped, does not panic. If it
  returns 0, the page table maps each page of the range to the corresponding physical page with the
  given permissions and every other page as before. If it returns -1, memory is exhausted and only
  a prefix of the range has been mapped. Either way the table stays a tree, its new pages come off
  the free list, and no byte outside the table and the free pages has changed.
\<close>

theorem mappages_correct:
  assumes "pt_ok c 2 pt s" and "0 < sz" and "unat va + unat sz \<le> unat MAXVA"
    and "\<forall>j<page_count va sz. leaf (mem s) 2 pt (PGROUNDDOWN va + 4096 * of_nat j) = None"
  shows "\<exists>r s' n. mappages c pt va sz pa perm s = Inr (r, s') \<and> pt_ext c 2 pt s s'
    \<and> (\<forall>p. user_page p \<longrightarrow> leaf (mem s') 2 pt p
         = map_range (PGROUNDDOWN va) n pa perm (leaf (mem s) 2 pt) p)
    \<and> (r = 0 \<and> n = page_count va sz \<or> r = -1 \<and> n < page_count va sz \<and> free_pages s' = {})"
  by (rule mappages_maps [OF assms])

definition demo_vm :: kstate where
  "demo_vm = demo_state 0x87ffb000 demo_pt"

lemma demo_vm_ok: "pt_ok c 2 0x87fff000 demo_vm"
proof -
  have "load64 demo_pt 0x87ffb000 = 0"
    by (simp add: demo_pt_def load_other_page al8_def PGROUNDDOWN_def)
  then have l: "kmem_list demo_vm [0x87ffb000]"
    by (simp add: kmem_list_def demo_vm_def ram_page_def pg_aligned_def)
  show ?thesis
    using l demo_machine_ok demo_pt_wft free_pages_eq [OF l]
    by (auto simp: pt_ok_def kmem_ok_def kmem_ready_def demo_vm_def)
qed

theorem mappages_correct_witness:
  "\<exists>r s' n. mappages 0 0x87fff000 0x1000 0x800 0x87ffa000 0x16 demo_vm = Inr (r, s')
    \<and> pt_ext 0 2 0x87fff000 demo_vm s' \<and> (r = 0 \<and> n = Suc 0 \<or> r = -1 \<and> n < Suc 0 \<and> free_pages s' = {})"
proof -
  have c: "page_count 0x1000 0x800 = Suc 0" by (simp add: page_count_def PGROUNDDOWN_def)
  have "leaf demo_pt 2 0x87fff000 0x1000 = None"
    by (simp add: demo_pt_leaf PX_def PXSHIFT_def PXMASK_def)
  then have u: "\<forall>j<page_count 0x1000 0x800.
      leaf (mem demo_vm) 2 0x87fff000 (PGROUNDDOWN 0x1000 + 4096 * of_nat j) = None"
    by (simp add: c demo_vm_def PGROUNDDOWN_def)
  have "0 < (0x800 :: uint64)" "unat (0x1000 :: uint64) + unat (0x800 :: uint64) \<le> unat MAXVA"
    by (simp_all add: MAXVA_eq)
  from mappages_correct [OF demo_vm_ok this u, of 0 "0x87ffa000" "0x16"] show ?thesis
    unfolding c by blast
qed

text \<open>
  C11. \<open>copyout\<close> followed by \<open>copyin\<close> of the same user range returns the bytes written, when the
  range is mapped for the user to distinct physical bytes outside the page table; and \<open>copyout\<close>
  changes no other byte of memory.
\<close>

theorem copyout_copyin:
  assumes "wft (mem s) 2 pt" and "umapped (mem s) pt va (unat len)"
    and "off_table (mem s) pt va (unat len)"
    and "inj_on (\<lambda>i. ubyte (mem s) pt (va + of_nat i)) {..<unat len}"
  shows "\<exists>s'. copyout c pt va src len s = Inr (0, s')
    \<and> copyin c pt va len s' = Inr (0, map src [0..<unat len])
    \<and> (\<forall>x. (\<forall>i<unat len. x \<noteq> ubyte (mem s) pt (va + of_nat i)) \<longrightarrow> mem s' x = mem s x)"
proof -
  let ?f = "\<lambda>i. ubyte (mem s) pt (va + of_nat i)"
  let ?s = "s\<lparr>mem := put_bytes (mem s) ?f src (unat len)\<rparr>"
  have out: "copyout c pt va src len s = Inr (0, ?s)" using copyout_spec [OF assms(1,3)] assms(2) by simp
  have "PGROUNDDOWN (?f i) \<notin> tbl (mem s) 2 pt" if "i < unat len" for i
  proof -
    have "PGROUNDDOWN (?f i) = upage (mem s) pt (PGROUNDDOWN (va + of_nat i))"
      unfolding ubyte_def using page_offset_less upage_aligned by (intro PGROUNDDOWN_add) simp_all
    then show ?thesis using assms(3) that by (simp add: off_table_def)
  qed
  then have fr: "put_bytes (mem s) ?f src (unat len) x = mem s x" if "PGROUNDDOWN x \<in> tbl (mem s) 2 pt" for x
    using that by (intro put_bytes_outside) metis
  note uf = upage_frame [OF assms(1), of "mem ?s", simplified, OF fr]
  have "copyin c pt va len ?s = Inr (0, map (\<lambda>i. mem ?s (ubyte (mem s) pt (va + of_nat i))) [0..<unat len])"
    using copyin_spec [of ?s pt va len c] uf assms(2) by simp
  moreover have "map (\<lambda>i. mem ?s (?f i)) [0..<unat len] = map src [0..<unat len]"
    using put_bytes_inside [OF assms(4)] by simp
  ultimately show ?thesis using out put_bytes_outside by auto
qed

theorem copyout_copyin_witness:
  "\<exists>s'. copyout 0 0x87fff000 0x10 (\<lambda>i. of_nat (i + 65)) 3 demo_vm = Inr (0, s')
    \<and> copyin 0 0x87fff000 0x10 3 s' = Inr (0, [65, 66, 67])"
proof -
  have "inj_on (\<lambda>i. ubyte demo_pt 0x87fff000 (0x10 + of_nat i)) {..<3}"
  proof (rule inj_onI)
    fix i j :: nat assume ij: "i \<in> {..<3}" "j \<in> {..<3}"
      "ubyte demo_pt 0x87fff000 (0x10 + of_nat i) = ubyte demo_pt 0x87fff000 (0x10 + of_nat j)"
    then have "(of_nat i :: uint64) = of_nat j" by (simp add: demo_pt_page0)
    then have "unat (of_nat i :: uint64) = unat (of_nat j :: uint64)" by simp
    then show "i = j" using ij by (simp add: unat_of_nat)
  qed
  moreover have "umapped demo_pt 0x87fff000 0x10 3" "off_table demo_pt 0x87fff000 0x10 3"
    by (simp_all add: umapped_def off_table_def demo_pt_page0 demo_pt_upage demo_pt_wft)
  moreover have u: "unat (3 :: uint64) = 3" by simp
  moreover have "map (\<lambda>i. of_nat (i + 65) :: uchar) [0..<3] = [65, 66, 67]" by (simp add: upt_conv_Cons)
  ultimately show ?thesis
    using copyout_copyin [of demo_vm "0x87fff000" "0x10" 3 0 "\<lambda>i. of_nat (i + 65)", unfolded u] demo_pt_wft(1)
    unfolding demo_vm_def by (simp del: of_nat_add) blast
qed

end
