(* ===== verification/Vm_Frame.thy ===== *)
theory Vm_Frame
  imports Vm_Copy
begin

text \<open>
  The memory-management functions change memory, the free list and lock words only: whatever they
  return, the rest of the kernel state and the process each hart runs stay as they were.
\<close>

definition vm_only :: "'a kstate_scheme \<Rightarrow> 'a kstate_scheme \<Rightarrow> bool" where
  "vm_only s s' \<longleftrightarrow> kstate.more s' = kstate.more s \<and> kend s' = kend s \<and> etext s' = etext s
     \<and> trampoline s' = trampoline s \<and> (\<forall>d. cproc (cpus (mach s') d) = cproc (cpus (mach s) d))"

named_theorems vm_frame \<open>frame rules of the memory-management functions\<close>

lemma vm_only_refl [simp, intro!]: "vm_only s s"
  by (simp add: vm_only_def)

lemma vm_only_trans [trans]: "vm_only s t \<Longrightarrow> vm_only t u \<Longrightarrow> vm_only s u"
  by (simp add: vm_only_def)

lemma vm_only_upd [simp]:
  "vm_only s (t\<lparr>mem := m\<rparr>) = vm_only s t" "vm_only s (t\<lparr>freelist := r\<rparr>) = vm_only s t"
  "vm_only (t\<lparr>mem := m\<rparr>) s = vm_only t s" "vm_only (t\<lparr>freelist := r\<rparr>) s = vm_only t s"
  by (simp_all add: vm_only_def)

lemma pop_off_cproc: "pop_off c m = Inr m' \<Longrightarrow> cproc (cpus m' d) = cproc (cpus m d)"
  by (auto simp: pop_off_def machine_defs split: if_splits)

lemma acquire_cproc: "acquire c l m = Inr m' \<Longrightarrow> cproc (cpus m' d) = cproc (cpus m d)"
  by (auto simp: acquire_def set_lock_def Let_def split: if_splits)

lemma release_cproc: "release c l m = Inr m' \<Longrightarrow> cproc (cpus m' d) = cproc (cpus m d)"
  by (auto simp: release_def set_lock_def Let_def dest!: pop_off_cproc [of _ _ _ d] split: if_splits)

lemma kacquire_frame [vm_frame]: "kacquire c l s = Inr s' \<Longrightarrow> vm_only s s'"
  by (auto simp: kacquire_def vm_only_def dest: acquire_cproc)

lemma krelease_frame [vm_frame]: "krelease c l s = Inr s' \<Longrightarrow> vm_only s s'"
  by (auto simp: krelease_def vm_only_def dest: release_cproc)

lemma kalloc_frame [vm_frame]: "kalloc c s = Inr (r, s') \<Longrightarrow> vm_only s s'"
  by (auto simp: kalloc_def Let_def split: if_splits dest!: vm_frame intro: vm_only_trans)

lemma kfree_frame [vm_frame]: "kfree c p s = Inr s' \<Longrightarrow> vm_only s s'"
  by (auto simp: kfree_def Let_def split: if_splits dest!: vm_frame intro: vm_only_trans)

lemma walk_loop_frame: "walk_loop c l pt va al s = Inr (r, s') \<Longrightarrow> vm_only s s'"
proof (induction l arbitrary: pt al s)
  case (Suc l)
  then show ?case
    by (auto simp: Let_def split: if_splits dest!: vm_frame Suc.IH intro: vm_only_trans)
qed simp

lemma walk_frame [vm_frame]: "walk c pt va al s = Inr (r, s') \<Longrightarrow> vm_only s s'"
  by (auto simp: walk_def split: if_splits dest: walk_loop_frame)

lemma mappages_loop_frame: "mappages_loop c n pt a l pa perm s = Inr (r, s') \<Longrightarrow> vm_only s s'"
proof (induction n arbitrary: a pa s)
  case (Suc n)
  then show ?case
    by (auto simp: Let_def split: if_splits dest!: vm_frame Suc.IH intro: vm_only_trans)
qed simp

lemma mappages_frame [vm_frame]: "mappages c pt va n pa perm s = Inr (r, s') \<Longrightarrow> vm_only s s'"
  unfolding mappages_def Let_def by (auto split: if_splits simp del: mappages_loop.simps dest: mappages_loop_frame)

lemma kvmmap_frame [vm_frame]: "kvmmap c pt va pa n perm s = Inr s' \<Longrightarrow> vm_only s s'"
  by (auto simp: kvmmap_def split: if_splits dest: vm_frame)

lemma uvmunmap_loop_frame: "uvmunmap_loop c n pt a e fr s = Inr s' \<Longrightarrow> vm_only s s'"
proof (induction n arbitrary: a fr s)
  case (Suc n)
  then show ?case
    by (auto simp: Let_def split: if_splits dest!: vm_frame Suc.IH intro: vm_only_trans)
qed (simp split: if_splits)

lemma uvmunmap_frame [vm_frame]: "uvmunmap c pt va n fr s = Inr s' \<Longrightarrow> vm_only s s'"
  by (auto simp: uvmunmap_def split: if_splits dest: uvmunmap_loop_frame)

lemma uvmcreate_frame [vm_frame]: "uvmcreate c s = Inr (r, s') \<Longrightarrow> vm_only s s'"
  by (auto simp: uvmcreate_def split: if_splits dest: vm_frame)

lemma uvmfirst_frame [vm_frame]: "uvmfirst c pt src n s = Inr s' \<Longrightarrow> vm_only s s'"
  by (auto simp: uvmfirst_def Let_def split: if_splits dest!: vm_frame intro: vm_only_trans)

lemma uvmdealloc_frame [vm_frame]: "uvmdealloc c pt old n s = Inr (r, s') \<Longrightarrow> vm_only s s'"
  by (auto simp: uvmdealloc_def Let_def split: if_splits dest: vm_frame)

lemma uvmalloc_loop_frame: "uvmalloc_loop c k pt a old n x s = Inr (r, s') \<Longrightarrow> vm_only s s'"
proof (induction k arbitrary: a s)
  case (Suc k)
  then show ?case
    by (auto simp: Let_def split: if_splits dest!: vm_frame Suc.IH; meson vm_only_trans)
qed (simp split: if_splits)

lemma uvmalloc_frame [vm_frame]: "uvmalloc c pt old n x s = Inr (r, s') \<Longrightarrow> vm_only s s'"
  by (auto simp: uvmalloc_def Let_def split: if_splits simp del: uvmalloc_loop.simps dest: uvmalloc_loop_frame)

lemma freewalk_frame [vm_frame]: "freewalk c d pt s = Inr s' \<Longrightarrow> vm_only s s'"
proof (induction d arbitrary: pt s s')
  case (Suc d)
  from Suc.prems obtain t where t: "kfree c pt t = Inr s'"
    and f: "foldM (\<lambda>i s. let pte = load64 (mem s) (pt + 8 * of_nat i)
            in if pte AND PTE_V \<noteq> 0 \<and> pte AND (PTE_R OR PTE_W OR PTE_X) = 0
               then bnd (freewalk c d (PTE2PA pte) s) (\<lambda>s.
                    Inr (s\<lparr>mem := store64 (pt + 8 * of_nat i) 0 (mem s)\<rparr>))
               else if pte AND PTE_V \<noteq> 0 then Inl (Panic ''freewalk: leaf'')
               else Inr s) [0..<512] s = Inr t"
    by (auto simp del: PTE_V_def PTE_R_def PTE_W_def PTE_X_def)
  have "vm_only s t"
    by (rule foldM_invariant [where P = "vm_only s", OF f])
      (auto simp: Let_def split: if_splits dest!: Suc.IH intro: vm_only_trans)
  then show ?case using kfree_frame [OF t] by (rule vm_only_trans)
qed simp

lemma uvmfree_frame [vm_frame]: "uvmfree c pt n s = Inr s' \<Longrightarrow> vm_only s s'"
  unfolding uvmfree_def by (auto split: if_splits simp del: freewalk.simps dest!: vm_frame intro: vm_only_trans)

lemma uvmcopy_loop_frame: "uvmcopy_loop c k old new i n s = Inr (r, s') \<Longrightarrow> vm_only s s'"
proof (induction k arbitrary: i s)
  case (Suc k)
  then show ?case
    by (auto simp: Let_def uvmcopy_err_def split: if_splits dest!: vm_frame Suc.IH; meson vm_only_trans)
qed (simp split: if_splits)

lemma uvmcopy_frame [vm_frame]: "uvmcopy c old new n s = Inr (r, s') \<Longrightarrow> vm_only s s'"
  unfolding uvmcopy_def by (rule uvmcopy_loop_frame)

lemma copyout_frame [vm_frame]: "copyout c pt va src n s = Inr (r, s') \<Longrightarrow> vm_only s s'"
proof (induction c pt va src n s rule: copyout.induct)
  case (1 c pt va src n s)
  show ?case
  proof (cases "0 < n")
    case True
    from "1.prems" True obtain pa where w: "walkaddr c pt (PGROUNDDOWN va) s = Inr pa"
      by (subst (asm) copyout.simps) (auto simp: Let_def)
    show ?thesis
    proof (cases "pa = 0")
      case False
      have "copyout c pt va src n s = copyout c pt (PGROUNDDOWN va + PGSIZE)
          (\<lambda>i. src (unat (copy_chunk va n) + i)) (n - copy_chunk va n)
          (s\<lparr>mem := poke (mem s) (pa + (va - PGROUNDDOWN va)) src (unat (copy_chunk va n))\<rparr>)"
        using True w False by (subst copyout.simps) (simp add: Let_def)
      then show ?thesis using "1.prems" "1.IH" [OF True refl w False refl refl] by simp
    qed (use "1.prems" True w in \<open>subst (asm) copyout.simps, simp\<close>)
  qed (use "1.prems" in \<open>subst (asm) copyout.simps, simp\<close>)
qed

end
