(* ===== verification/Proc.thy ===== *)
theory Proc
  imports Vm_Frame
begin

text \<open>
  \<open>kernel/proc.c\<close> and \<open>kernel/proc.h\<close>, the process table, together with \<open>kernel/sleeplock.c\<close>. The
  process table \<open>proc[NPROC]\<close> is a function from slots; a pointer to a process is the number of its
  slot, and the null pointer is \<open>None\<close>. A trapframe is a page of memory and its registers are
  loaded and stored at their offsets. A call that leaves the hart for the scheduler (\<open>swtch\<close>) ends
  with \<open>Block\<close>: the code after it runs only when another hart or a device made the process
  runnable; \<open>Sched\<close> composes the two halves. \<open>fork\<close>, \<open>exit\<close> and \<open>userinit\<close>, which use files and
  inodes, are in \<open>Proc_Life\<close>.
\<close>

section \<open>Data\<close>

definition NPROC :: nat where [simp]: "NPROC = 64"
definition NOFILE :: nat where [simp]: "NOFILE = 16"

datatype procstate = UNUSED | USED | SLEEPING | RUNNABLE | RUNNING | ZOMBIE

text \<open>
  What a process can sleep on: the address passed as \<open>chan\<close>, by the object it is in.
\<close>

datatype chan =
    ProcChan nat | TicksChan | LogChan | ConsChan | UartChan | SleepChan lockid
  | PipeReadChan uint64 | PipeWriteChan uint64 | DiskChan nat | DescChan

record proc_context =
  c_ra :: uint64
  c_sp :: uint64
  c_s :: "nat \<Rightarrow> uint64"

record proc =
  p_state :: procstate
  p_chan :: "chan option"
  p_killed :: int
  p_xstate :: int
  p_pid :: int
  p_parent :: "nat option"
  p_kstack :: uint64
  p_sz :: uint64
  p_pagetable :: uint64
  p_trapframe :: uint64
  p_context :: proc_context
  p_ofile :: "nat \<Rightarrow> nat option"
  p_cwd :: "nat option"
  p_name :: "uchar list"

record sleeplock =
  sl_locked :: uint
  sl_name :: string
  sl_pid :: int

text \<open>
  The kernel state with its process table. \<open>forkret\<close> is the address of the function; the sleep
  locks are indexed by the spinlock inside each; \<open>sched_intena\<close> is the local variable of the same
  name in the \<open>sched()\<close> frame on each process's kernel stack.
\<close>

record pkstate = kstate +
  procs :: "nat \<Rightarrow> proc"
  nextpid :: int
  initproc :: "nat option"
  forkret_addr :: uint64
  sleeplocks :: "lockid \<Rightarrow> sleeplock"
  sched_intena :: "nat \<Rightarrow> bool"

definition upd_proc :: "nat \<Rightarrow> (proc \<Rightarrow> proc) \<Rightarrow> 'a pkstate_scheme \<Rightarrow> 'a pkstate_scheme" where
  "upd_proc i f s = s\<lparr>procs := (procs s)(i := f (procs s i))\<rparr>"

section \<open>The trapframe\<close>

definition TF_kernel_satp :: uint64 where [simp]: "TF_kernel_satp = 0"
definition TF_kernel_sp :: uint64 where [simp]: "TF_kernel_sp = 8"
definition TF_kernel_trap :: uint64 where [simp]: "TF_kernel_trap = 16"
definition TF_epc :: uint64 where [simp]: "TF_epc = 24"
definition TF_kernel_hartid :: uint64 where [simp]: "TF_kernel_hartid = 32"
definition TF_sp :: uint64 where [simp]: "TF_sp = 48"

text \<open>The registers \<open>a0\<close> to \<open>a7\<close>.\<close>

definition TF_a :: "nat \<Rightarrow> uint64" where
  "TF_a i = 112 + 8 * of_nat i"

definition TF_size :: nat where [simp]: "TF_size = 288"

definition tf_get :: "nat \<Rightarrow> uint64 \<Rightarrow> 'a pkstate_scheme \<Rightarrow> uint64" where
  "tf_get p r s = load64 (mem s) (p_trapframe (procs s p) + r)"

definition tf_set :: "nat \<Rightarrow> uint64 \<Rightarrow> uint64 \<Rightarrow> 'a pkstate_scheme \<Rightarrow> 'a pkstate_scheme" where
  "tf_set p r v s = s\<lparr>mem := store64 (p_trapframe (procs s p) + r) v (mem s)\<rparr>"

section \<open>The process table\<close>

definition proc_mapstacks :: "nat \<Rightarrow> uint64 \<Rightarrow> 'a kstate_scheme \<Rightarrow> 'a kstate_scheme kres" where
  "proc_mapstacks c kpgtbl s =
     foldM (\<lambda>i s. bnd (kalloc c s) (\<lambda>(pa, s).
         if pa = 0 then Inl (Panic ''kalloc'')
         else kvmmap c kpgtbl (KSTACK i) pa PGSIZE (PTE_R OR PTE_W) s)) [0..<NPROC] s"

definition procinit :: "'a pkstate_scheme \<Rightarrow> 'a pkstate_scheme" where
  "procinit s =
     fold (\<lambda>i s. upd_proc i (\<lambda>p. p\<lparr>p_state := UNUSED, p_kstack := KSTACK i\<rparr>)
            (s\<lparr>mach := initlock (ProcLock i) ''proc'' (mach s)\<rparr>)) [0..<NPROC]
       (s\<lparr>mach := initlock WaitLock ''wait_lock'' (initlock PidLock ''nextpid'' (mach s))\<rparr>)"

definition myproc :: "nat \<Rightarrow> 'a pkstate_scheme \<Rightarrow> (nat option \<times> 'a pkstate_scheme) kres" where
  "myproc c s =
     (let m = push_off c (mach s); p = cproc (mycpu c m)
      in bnd (pop_off c m) (\<lambda>m. Inr (p, s\<lparr>mach := m\<rparr>)))"

text \<open>
  Code that runs on behalf of a process dereferences the result of \<open>myproc()\<close>; a null pointer
  there is a fault of the kernel.
\<close>

definition curproc :: "nat \<Rightarrow> 'a pkstate_scheme \<Rightarrow> (nat \<times> 'a pkstate_scheme) kres" where
  "curproc c s = bnd (myproc c s) (\<lambda>(p, s).
     case p of None \<Rightarrow> Inl (Panic ''kerneltrap'') | Some p \<Rightarrow> Inr (p, s))"

definition allocpid :: "nat \<Rightarrow> 'a pkstate_scheme \<Rightarrow> (int \<times> 'a pkstate_scheme) kres" where
  "allocpid c s =
     bnd (kacquire c PidLock s) (\<lambda>s.
       let pid = nextpid s; s = s\<lparr>nextpid := nextpid s + 1\<rparr>
       in bnd (krelease c PidLock s) (\<lambda>s. Inr (pid, s)))"

definition proc_freepagetable :: "nat \<Rightarrow> uint64 \<Rightarrow> uint64 \<Rightarrow> 'a kstate_scheme \<Rightarrow> 'a kstate_scheme kres" where
  "proc_freepagetable c pt n s =
     bnd (uvmunmap c pt TRAMPOLINE 1 False s) (\<lambda>s.
     bnd (uvmunmap c pt TRAPFRAME 1 False s) (\<lambda>s.
       uvmfree c pt n s))"

definition freeproc :: "nat \<Rightarrow> nat \<Rightarrow> 'a pkstate_scheme \<Rightarrow> 'a pkstate_scheme kres" where
  "freeproc c p s =
     bnd (if p_trapframe (procs s p) \<noteq> 0 then kfree c (p_trapframe (procs s p)) s else Inr s) (\<lambda>s.
     let s = upd_proc p (\<lambda>q. q\<lparr>p_trapframe := 0\<rparr>) s
     in bnd (if p_pagetable (procs s p) \<noteq> 0
             then proc_freepagetable c (p_pagetable (procs s p)) (p_sz (procs s p)) s else Inr s) (\<lambda>s.
        Inr (upd_proc p (\<lambda>q. q\<lparr>p_pagetable := 0, p_sz := 0, p_pid := 0, p_parent := None,
               p_name := (p_name q)[0 := 0], p_chan := None, p_killed := 0, p_xstate := 0,
               p_state := UNUSED\<rparr>) s)))"

definition proc_pagetable :: "nat \<Rightarrow> nat \<Rightarrow> 'a pkstate_scheme \<Rightarrow> (uint64 \<times> 'a pkstate_scheme) kres" where
  "proc_pagetable c p s =
     bnd (uvmcreate c s) (\<lambda>(pt, s).
       if pt = 0 then Inr (0, s)
       else bnd (mappages c pt TRAMPOLINE PGSIZE (trampoline s) (PTE_R OR PTE_X) s) (\<lambda>(r, s).
         if r < 0 then bnd (uvmfree c pt 0 s) (\<lambda>s. Inr (0, s))
         else bnd (mappages c pt TRAPFRAME PGSIZE (p_trapframe (procs s p)) (PTE_R OR PTE_W) s) (\<lambda>(r, s).
           if r < 0 then bnd (uvmunmap c pt TRAMPOLINE 1 False s) (\<lambda>s.
                         bnd (uvmfree c pt 0 s) (\<lambda>s. Inr (0, s)))
           else Inr (pt, s))))"

fun allocproc_scan :: "nat \<Rightarrow> nat list \<Rightarrow> 'a pkstate_scheme \<Rightarrow> (nat option \<times> 'a pkstate_scheme) kres" where
  "allocproc_scan c [] s = Inr (None, s)"
| "allocproc_scan c (i # is) s =
     bnd (kacquire c (ProcLock i) s) (\<lambda>s.
       if p_state (procs s i) = UNUSED then Inr (Some i, s)
       else bnd (krelease c (ProcLock i) s) (allocproc_scan c is))"

definition allocproc_fail :: "nat \<Rightarrow> nat \<Rightarrow> 'a pkstate_scheme \<Rightarrow> (nat option \<times> 'a pkstate_scheme) kres" where
  "allocproc_fail c p s =
     bnd (freeproc c p s) (\<lambda>s. bnd (krelease c (ProcLock p) s) (\<lambda>s. Inr (None, s)))"

definition allocproc :: "nat \<Rightarrow> 'a pkstate_scheme \<Rightarrow> (nat option \<times> 'a pkstate_scheme) kres" where
  "allocproc c s =
     bnd (allocproc_scan c [0..<NPROC] s) (\<lambda>(r, s).
       case r of None \<Rightarrow> Inr (None, s)
       | Some p \<Rightarrow>
         bnd (allocpid c s) (\<lambda>(n, s).
         let s = upd_proc p (\<lambda>q. q\<lparr>p_pid := n, p_state := USED\<rparr>) s
         in bnd (kalloc c s) (\<lambda>(tf, s).
            let s = upd_proc p (\<lambda>q. q\<lparr>p_trapframe := tf\<rparr>) s
            in if tf = 0 then allocproc_fail c p s
               else bnd (proc_pagetable c p s) (\<lambda>(pt, s).
                 let s = upd_proc p (\<lambda>q. q\<lparr>p_pagetable := pt\<rparr>) s
                 in if pt = 0 then allocproc_fail c p s
                    else Inr (Some p, upd_proc p (\<lambda>q. q\<lparr>p_context :=
                           \<lparr>c_ra = forkret_addr s, c_sp = p_kstack q + PGSIZE, c_s = (\<lambda>_. 0)\<rparr>\<rparr>) s)))))"

definition growproc :: "nat \<Rightarrow> int \<Rightarrow> 'a pkstate_scheme \<Rightarrow> (int \<times> 'a pkstate_scheme) kres" where
  "growproc c n s =
     bnd (curproc c s) (\<lambda>(p, s).
     let n0 = p_sz (procs s p); pt = p_pagetable (procs s p)
     in if n > 0
        then bnd (uvmalloc c pt n0 (n0 + word_of_int n) PTE_W s) (\<lambda>(n1, s).
               if n1 = 0 then Inr (-1, s) else Inr (0, upd_proc p (\<lambda>q. q\<lparr>p_sz := n1\<rparr>) s))
        else if n < 0
        then bnd (uvmdealloc c pt n0 (n0 + word_of_int n) s) (\<lambda>(n1, s).
               Inr (0, upd_proc p (\<lambda>q. q\<lparr>p_sz := n1\<rparr>) s))
        else Inr (0, upd_proc p (\<lambda>q. q\<lparr>p_sz := n0\<rparr>) s))"

section \<open>Sleep and wakeup\<close>

text \<open>The part of \<open>sched()\<close> before \<open>swtch\<close>.\<close>

definition sched_enter :: "nat \<Rightarrow> 'a pkstate_scheme \<Rightarrow> 'a pkstate_scheme kres" where
  "sched_enter c s =
     bnd (curproc c s) (\<lambda>(p, s).
       if \<not> holding c (ProcLock p) (mach s) then Inl (Panic ''sched p->lock'')
       else if noff (mycpu c (mach s)) \<noteq> 1 then Inl (Panic ''sched locks'')
       else if p_state (procs s p) = RUNNING then Inl (Panic ''sched running'')
       else if intr_get (sstatus (mach s) c) then Inl (Panic ''sched interruptible'')
       else Inr (s\<lparr>sched_intena := (sched_intena s)(p := intena (mycpu c (mach s)))\<rparr>))"

text \<open>What remains of \<open>sched()\<close> when the scheduler of hart \<open>c\<close> switches back to process \<open>p\<close>.\<close>

definition sched_resume :: "nat \<Rightarrow> nat \<Rightarrow> 'a pkstate_scheme \<Rightarrow> 'a pkstate_scheme" where
  "sched_resume c p s =
     s\<lparr>mach := set_cpu c ((mycpu c (mach s))\<lparr>intena := sched_intena s p\<rparr>) (mach s)\<rparr>"

definition yield_enter :: "nat \<Rightarrow> 'a pkstate_scheme \<Rightarrow> 'a pkstate_scheme kres" where
  "yield_enter c s =
     bnd (curproc c s) (\<lambda>(p, s).
     bnd (kacquire c (ProcLock p) s) (\<lambda>s.
       sched_enter c (upd_proc p (\<lambda>q. q\<lparr>p_state := RUNNABLE\<rparr>) s)))"

definition yield_resume :: "nat \<Rightarrow> nat \<Rightarrow> 'a pkstate_scheme \<Rightarrow> 'a pkstate_scheme kres" where
  "yield_resume c p s = krelease c (ProcLock p) (sched_resume c p s)"

definition sleep_enter :: "nat \<Rightarrow> chan \<Rightarrow> lockid \<Rightarrow> 'a pkstate_scheme \<Rightarrow> 'a pkstate_scheme kres" where
  "sleep_enter c ch lk s =
     bnd (curproc c s) (\<lambda>(p, s).
     bnd (kacquire c (ProcLock p) s) (\<lambda>s.
     bnd (krelease c lk s) (\<lambda>s.
       sched_enter c (upd_proc p (\<lambda>q. q\<lparr>p_chan := Some ch, p_state := SLEEPING\<rparr>) s))))"

definition sleep_resume :: "nat \<Rightarrow> nat \<Rightarrow> lockid \<Rightarrow> 'a pkstate_scheme \<Rightarrow> 'a pkstate_scheme kres" where
  "sleep_resume c p lk s =
     bnd (krelease c (ProcLock p) (upd_proc p (\<lambda>q. q\<lparr>p_chan := None\<rparr>) (sched_resume c p s))) (\<lambda>s.
       kacquire c lk s)"

text \<open>A call of \<open>sleep()\<close> as its caller sees it: it does not come back by itself.\<close>

definition sleep :: "nat \<Rightarrow> chan \<Rightarrow> lockid \<Rightarrow> 'a pkstate_scheme \<Rightarrow> 'b kres" where
  "sleep c ch lk s = bnd (sleep_enter c ch lk s) (\<lambda>_. Inl (Block ''sleep''))"

definition wakeup1 :: "nat \<Rightarrow> chan option \<Rightarrow> nat \<Rightarrow> 'a pkstate_scheme \<Rightarrow> 'a pkstate_scheme kres" where
  "wakeup1 c ch i s =
     bnd (myproc c s) (\<lambda>(me, s).
       if Some i \<noteq> me
       then bnd (kacquire c (ProcLock i) s) (\<lambda>s.
            krelease c (ProcLock i)
              (if p_state (procs s i) = SLEEPING \<and> p_chan (procs s i) = ch
               then upd_proc i (\<lambda>q. q\<lparr>p_state := RUNNABLE\<rparr>) s else s))
       else Inr s)"

definition wakeup :: "nat \<Rightarrow> chan option \<Rightarrow> 'a pkstate_scheme \<Rightarrow> 'a pkstate_scheme kres" where
  "wakeup c ch s = foldM (wakeup1 c ch) [0..<NPROC] s"

fun kill_scan :: "nat \<Rightarrow> int \<Rightarrow> nat list \<Rightarrow> 'a pkstate_scheme \<Rightarrow> (int \<times> 'a pkstate_scheme) kres" where
  "kill_scan c pid [] s = Inr (-1, s)"
| "kill_scan c pid (i # is) s =
     bnd (kacquire c (ProcLock i) s) (\<lambda>s.
       if p_pid (procs s i) = pid
       then let s = upd_proc i (\<lambda>q. q\<lparr>p_killed := 1\<rparr>) s;
                s = (if p_state (procs s i) = SLEEPING
                     then upd_proc i (\<lambda>q. q\<lparr>p_state := RUNNABLE\<rparr>) s else s)
            in bnd (krelease c (ProcLock i) s) (\<lambda>s. Inr (0, s))
       else bnd (krelease c (ProcLock i) s) (kill_scan c pid is))"

definition kill :: "nat \<Rightarrow> int \<Rightarrow> 'a pkstate_scheme \<Rightarrow> (int \<times> 'a pkstate_scheme) kres" where
  "kill c pid s = kill_scan c pid [0..<NPROC] s"

definition setkilled :: "nat \<Rightarrow> nat \<Rightarrow> 'a pkstate_scheme \<Rightarrow> 'a pkstate_scheme kres" where
  "setkilled c p s =
     bnd (kacquire c (ProcLock p) s) (\<lambda>s.
       krelease c (ProcLock p) (upd_proc p (\<lambda>q. q\<lparr>p_killed := 1\<rparr>) s))"

definition killed :: "nat \<Rightarrow> nat \<Rightarrow> 'a pkstate_scheme \<Rightarrow> (int \<times> 'a pkstate_scheme) kres" where
  "killed c p s =
     bnd (kacquire c (ProcLock p) s) (\<lambda>s.
       let k = p_killed (procs s p)
       in bnd (krelease c (ProcLock p) s) (\<lambda>s. Inr (k, s)))"

section \<open>Parents and children\<close>

definition reparent :: "nat \<Rightarrow> nat \<Rightarrow> 'a pkstate_scheme \<Rightarrow> 'a pkstate_scheme kres" where
  "reparent c p s =
     foldM (\<lambda>i s. if p_parent (procs s i) = Some p
              then wakeup c (map_option ProcChan (initproc s))
                     (upd_proc i (\<lambda>q. q\<lparr>p_parent := initproc s\<rparr>) s)
              else Inr s) [0..<NPROC] s"

text \<open>
  The rest of \<open>exit()\<close> once files and the working directory are closed, up to the final \<open>swtch\<close>;
  and the end of \<open>fork()\<close>, which makes the child runnable.
\<close>

definition exit_tail :: "nat \<Rightarrow> nat \<Rightarrow> int \<Rightarrow> 'a pkstate_scheme \<Rightarrow> 'a pkstate_scheme kres" where
  "exit_tail c p status s =
     bnd (kacquire c WaitLock s) (\<lambda>s.
     bnd (reparent c p s) (\<lambda>s.
     bnd (wakeup c (map_option ProcChan (p_parent (procs s p))) s) (\<lambda>s.
     bnd (kacquire c (ProcLock p) s) (\<lambda>s.
     let s = upd_proc p (\<lambda>q. q\<lparr>p_xstate := status, p_state := ZOMBIE\<rparr>) s
     in bnd (krelease c WaitLock s) (\<lambda>s. sched_enter c s)))))"

definition fork_start :: "nat \<Rightarrow> nat \<Rightarrow> 'a pkstate_scheme \<Rightarrow> 'a pkstate_scheme kres" where
  "fork_start c np s =
     bnd (kacquire c (ProcLock np) s) (\<lambda>s.
       krelease c (ProcLock np) (upd_proc np (\<lambda>q. q\<lparr>p_state := RUNNABLE\<rparr>) s))"

text \<open>The four bytes of \<open>pp->xstate\<close>, little endian, as \<open>wait()\<close> copies them out.\<close>

definition int_bytes :: "int \<Rightarrow> bytes" where
  "int_bytes v i = ucast (drop_bit (8 * i) (word_of_int v :: uint))"

text \<open>The branch of \<open>wait()\<close> that has found an exited child \<open>i\<close>, whose lock it holds.\<close>

definition wait_reap :: "nat \<Rightarrow> uint64 \<Rightarrow> nat \<Rightarrow> nat \<Rightarrow> 'a pkstate_scheme \<Rightarrow> (int \<times> 'a pkstate_scheme) kres" where
  "wait_reap c addr p i s =
     (let pid = p_pid (procs s i)
      in bnd (if addr \<noteq> 0
              then copyout c (p_pagetable (procs s p)) addr (int_bytes (p_xstate (procs s i))) 4 s
              else Inr (0, s)) (\<lambda>(r, s).
         if r < 0
         then bnd (krelease c (ProcLock i) s) (\<lambda>s. bnd (krelease c WaitLock s) (\<lambda>s. Inr (-1, s)))
         else bnd (freeproc c i s) (\<lambda>s.
              bnd (krelease c (ProcLock i) s) (\<lambda>s.
              bnd (krelease c WaitLock s) (\<lambda>s. Inr (pid, s))))))"

fun wait_scan :: "nat \<Rightarrow> uint64 \<Rightarrow> nat \<Rightarrow> nat list \<Rightarrow> bool \<Rightarrow> 'a pkstate_scheme \<Rightarrow>
    (int option \<times> bool \<times> 'a pkstate_scheme) kres" where
  "wait_scan c addr p [] havekids s = Inr (None, havekids, s)"
| "wait_scan c addr p (i # is) havekids s =
     (if p_parent (procs s i) = Some p then
        bnd (kacquire c (ProcLock i) s) (\<lambda>s.
          if p_state (procs s i) = ZOMBIE
          then bnd (wait_reap c addr p i s) (\<lambda>(r, s). Inr (Some r, True, s))
          else bnd (krelease c (ProcLock i) s) (wait_scan c addr p is True))
      else wait_scan c addr p is havekids s)"

definition wait :: "nat \<Rightarrow> uint64 \<Rightarrow> 'a pkstate_scheme \<Rightarrow> (int \<times> 'a pkstate_scheme) kres" where
  "wait c addr s =
     bnd (curproc c s) (\<lambda>(p, s).
     bnd (kacquire c WaitLock s) (\<lambda>s.
     bnd (wait_scan c addr p [0..<NPROC] False s) (\<lambda>(r, havekids, s).
       case r of Some v \<Rightarrow> Inr (v, s)
       | None \<Rightarrow>
         bnd (if \<not> havekids then Inr (1, s) else killed c p s) (\<lambda>(k, s).
           if k \<noteq> 0 then bnd (krelease c WaitLock s) (\<lambda>s. Inr (-1, s))
           else sleep c (ProcChan p) WaitLock s))))"

section \<open>The scheduler\<close>

text \<open>The body of the scheduler's loop for slot \<open>i\<close>: up to \<open>swtch\<close>, and after it.\<close>

definition scheduler_switch :: "nat \<Rightarrow> nat \<Rightarrow> 'a pkstate_scheme \<Rightarrow> (bool \<times> 'a pkstate_scheme) kres" where
  "scheduler_switch c i s =
     bnd (kacquire c (ProcLock i) s) (\<lambda>s.
       if p_state (procs s i) = RUNNABLE
       then let s = upd_proc i (\<lambda>q. q\<lparr>p_state := RUNNING\<rparr>) s
            in Inr (True, s\<lparr>mach := set_cpu c ((mycpu c (mach s))\<lparr>cproc := Some i\<rparr>) (mach s)\<rparr>)
       else bnd (krelease c (ProcLock i) s) (\<lambda>s. Inr (False, s)))"

definition scheduler_return :: "nat \<Rightarrow> nat \<Rightarrow> 'a pkstate_scheme \<Rightarrow> 'a pkstate_scheme kres" where
  "scheduler_return c i s =
     krelease c (ProcLock i) (s\<lparr>mach := set_cpu c ((mycpu c (mach s))\<lparr>cproc := None\<rparr>) (mach s)\<rparr>)"

definition scheduler_init :: "nat \<Rightarrow> 'a pkstate_scheme \<Rightarrow> 'a pkstate_scheme" where
  "scheduler_init c s = s\<lparr>mach := set_cpu c ((mycpu c (mach s))\<lparr>cproc := None\<rparr>) (mach s)\<rparr>"

section \<open>Copying to and from either address space\<close>

definition either_copyout :: "nat \<Rightarrow> bool \<Rightarrow> uint64 \<Rightarrow> bytes \<Rightarrow> uint64 \<Rightarrow>
    'a pkstate_scheme \<Rightarrow> (int \<times> 'a pkstate_scheme) kres" where
  "either_copyout c user_dst dst src len s =
     bnd (curproc c s) (\<lambda>(p, s).
       if user_dst then copyout c (p_pagetable (procs s p)) dst src len s
       else Inr (0, s\<lparr>mem := poke (mem s) dst src (unat (ucast len :: uint))\<rparr>))"

definition either_copyin :: "nat \<Rightarrow> bool \<Rightarrow> uint64 \<Rightarrow> uint64 \<Rightarrow>
    'a pkstate_scheme \<Rightarrow> (int \<times> uchar list \<times> 'a pkstate_scheme) kres" where
  "either_copyin c user_src src len s =
     bnd (curproc c s) (\<lambda>(p, s).
       if user_src then bnd (copyin c (p_pagetable (procs s p)) src len s) (\<lambda>(r, bs). Inr (r, bs, s))
       else Inr (0, peek (mem s) src (unat (ucast len :: uint)), s))"

text \<open>The lines \<open>procdump()\<close> prints, one per slot in use.\<close>

fun state_name :: "procstate \<Rightarrow> string" where
  "state_name UNUSED = ''unused''"
| "state_name USED = ''used''"
| "state_name SLEEPING = ''sleep ''"
| "state_name RUNNABLE = ''runble''"
| "state_name RUNNING = ''run   ''"
| "state_name ZOMBIE = ''zombie''"

definition procdump :: "'a pkstate_scheme \<Rightarrow> (int \<times> string \<times> uchar list) list" where
  "procdump s = map (\<lambda>i. let p = procs s i in (p_pid p, state_name (p_state p), takeWhile (\<lambda>b. b \<noteq> 0) (p_name p)))
     (filter (\<lambda>i. p_state (procs s i) \<noteq> UNUSED) [0..<NPROC])"

section \<open>Sleep locks\<close>

definition initsleeplock :: "lockid \<Rightarrow> string \<Rightarrow> 'a pkstate_scheme \<Rightarrow> 'a pkstate_scheme" where
  "initsleeplock l name s = s\<lparr>mach := initlock l ''sleep lock'' (mach s),
     sleeplocks := (sleeplocks s)(l := \<lparr>sl_locked = 0, sl_name = name, sl_pid = 0\<rparr>)\<rparr>"

definition acquiresleep :: "nat \<Rightarrow> lockid \<Rightarrow> 'a pkstate_scheme \<Rightarrow> 'a pkstate_scheme kres" where
  "acquiresleep c l s =
     bnd (kacquire c l s) (\<lambda>s.
       if sl_locked (sleeplocks s l) \<noteq> 0 then sleep c (SleepChan l) l s
       else let s = s\<lparr>sleeplocks := (sleeplocks s)(l := (sleeplocks s l)\<lparr>sl_locked := 1\<rparr>)\<rparr>
            in bnd (curproc c s) (\<lambda>(p, s).
               krelease c l (s\<lparr>sleeplocks := (sleeplocks s)(l := (sleeplocks s l)\<lparr>sl_pid := p_pid (procs s p)\<rparr>)\<rparr>)))"

definition releasesleep :: "nat \<Rightarrow> lockid \<Rightarrow> 'a pkstate_scheme \<Rightarrow> 'a pkstate_scheme kres" where
  "releasesleep c l s =
     bnd (kacquire c l s) (\<lambda>s.
     bnd (wakeup c (Some (SleepChan l))
            (s\<lparr>sleeplocks := (sleeplocks s)(l := (sleeplocks s l)\<lparr>sl_locked := 0, sl_pid := 0\<rparr>)\<rparr>)) (\<lambda>s.
       krelease c l s))"

definition holdingsleep :: "nat \<Rightarrow> lockid \<Rightarrow> 'a pkstate_scheme \<Rightarrow> (bool \<times> 'a pkstate_scheme) kres" where
  "holdingsleep c l s =
     bnd (kacquire c l s) (\<lambda>s.
     bnd (if sl_locked (sleeplocks s l) \<noteq> 0
          then bnd (curproc c s) (\<lambda>(p, s). Inr (sl_pid (sleeplocks s l) = p_pid (procs s p), s))
          else Inr (False, s)) (\<lambda>(r, s).
     bnd (krelease c l s) (\<lambda>s. Inr (r, s))))"

end
