(* ===== verification/Proc_Table.thy ===== *)
theory Proc_Table
  imports Proc
begin

text \<open>
  What the operations on the process table do, as equations: a loop over the table that takes and
  releases each slot's lock is a pointwise update of the table.
\<close>

section \<open>Critical sections\<close>

lemma kacquire_free [simp]:
  "lock_free l (mach s) \<Longrightarrow> kacquire c l s = Inr (s\<lparr>mach := taken c l (mach s)\<rparr>)"
  by (simp add: kacquire_def acquire_free)

lemma krelease_taken:
  "mach s = taken c l m \<Longrightarrow> cpu_ok c m \<Longrightarrow> lock_free l m \<Longrightarrow> krelease c l s = Inr (s\<lparr>mach := crit c m\<rparr>)"
  by (simp add: krelease_def release_taken)

lemma krelease_outer:
  "mach s = taken c l (taken c k m) \<Longrightarrow> cpu_ok c m \<Longrightarrow> lock_free k m \<Longrightarrow> l \<noteq> k \<Longrightarrow>
    krelease c k s = Inr (s\<lparr>mach := taken c l m\<rparr>)"
  by (simp add: krelease_def release_outer)

lemma cproc_crit [simp]: "cproc (cpus (crit c m) d) = cproc (cpus m d)"
  by (simp add: crit_def set_cpu_def)

lemma cproc_taken [simp]: "cproc (cpus (taken c l m) d) = cproc (cpus m d)"
  by simp

text \<open>Hart \<open>c\<close> is outside every critical section that uses the locks in \<open>L\<close>.\<close>

definition quiet :: "nat \<Rightarrow> lockid set \<Rightarrow> 'a pkstate_scheme \<Rightarrow> bool" where
  "quiet c L s \<longleftrightarrow> cpu_ok c (mach s) \<and> (\<forall>l\<in>L. lock_free l (mach s))"

lemma quiet_crit [simp]: "quiet c L (s\<lparr>mach := crit c m\<rparr>) \<longleftrightarrow> quiet c L (s\<lparr>mach := m\<rparr>)"
  by (simp add: quiet_def)

lemma quiet_mono: "quiet c L s \<Longrightarrow> K \<subseteq> L \<Longrightarrow> quiet c K s"
  by (auto simp: quiet_def)

abbreviation proc_locks :: "lockid set" where
  "proc_locks \<equiv> ProcLock ` {..<NPROC}"

abbreviation cur :: "nat \<Rightarrow> 'a pkstate_scheme \<Rightarrow> nat option" where
  "cur c s \<equiv> cproc (cpus (mach s) c)"

abbreviation calm :: "nat \<Rightarrow> 'a pkstate_scheme \<Rightarrow> 'a pkstate_scheme" where
  "calm c s \<equiv> s\<lparr>mach := crit c (mach s)\<rparr>"

lemma calm_calm [simp]: "calm c (calm c s) = calm c s"
  by simp

lemma myproc_eq: "cpu_ok c (mach s) \<Longrightarrow> myproc c s = Inr (cur c s, calm c s)"
  by (simp add: myproc_def Let_def mycpu_def pop_push_off)

lemma curproc_eq: "cpu_ok c (mach s) \<Longrightarrow> cur c s = Some p \<Longrightarrow> curproc c s = Inr (p, calm c s)"
  by (simp add: curproc_def myproc_eq)

section \<open>Waking up and killing\<close>

definition wake :: "chan option \<Rightarrow> nat option \<Rightarrow> nat \<Rightarrow> proc \<Rightarrow> proc" where
  "wake ch me i p = (if Some i \<noteq> me \<and> p_state p = SLEEPING \<and> p_chan p = ch
     then p\<lparr>p_state := RUNNABLE\<rparr> else p)"

lemma wakeup1_eq:
  assumes "cpu_ok c (mach s)" "lock_free (ProcLock i) (mach s)"
  shows "wakeup1 c ch i s = Inr (calm c (upd_proc i (wake ch (cur c s) i) s))"
  using assms
  by (auto simp: wakeup1_def myproc_eq krelease_taken wake_def upd_proc_def fun_upd_idem)

definition upd_table :: "nat set \<Rightarrow> (nat \<Rightarrow> proc \<Rightarrow> proc) \<Rightarrow> 'a pkstate_scheme \<Rightarrow> 'a pkstate_scheme" where
  "upd_table I f s = s\<lparr>procs := (\<lambda>i. if i \<in> I then f i (procs s i) else procs s i)\<rparr>"

lemma upd_table_simps [simp]:
  "mach (upd_table I f s) = mach s" "mem (upd_table I f s) = mem s"
  "procs (upd_table I f s) i = (if i \<in> I then f i (procs s i) else procs s i)"
  "upd_table {} f s = s"
  by (simp_all add: upd_table_def)

lemma table_loop:
  assumes "\<And>i t. i \<in> set is \<Longrightarrow> mach t = mach s \<or> mach t = crit c (mach s) \<Longrightarrow> g i t = Inr (calm c (upd_proc i (f i) t))"
    and "distinct is"
  shows "foldM g is s = Inr (if is = [] then s else calm c (upd_table (set is) f s))"
  using assms
proof (induction "is" arbitrary: s)
  case (Cons i xs)
  let ?s = "calm c (upd_proc i (f i) s)"
  have m: "mach ?s = crit c (mach s)" by (simp add: upd_proc_def)
  have g: "g i s = Inr ?s" using Cons.prems(1) [of i s] by simp
  have "foldM g xs ?s = Inr (if xs = [] then ?s else calm c (upd_table (set xs) f ?s))"
    using Cons.prems m by (intro Cons.IH) auto
  moreover have "calm c (upd_table (set xs) f ?s) = calm c (upd_table (set (i # xs)) f s)"
    using Cons.prems(2) by (auto simp: upd_table_def upd_proc_def fun_eq_iff)
  moreover have "xs = [] \<Longrightarrow> ?s = calm c (upd_table (set (i # xs)) f s)"
    by (auto simp: upd_table_def upd_proc_def fun_eq_iff)
  ultimately show ?case using g by auto
qed simp

lemma wakeup_eq:
  assumes "quiet c proc_locks s"
  shows "wakeup c ch s = Inr (calm c (upd_table {..<NPROC} (wake ch (cur c s)) s))"
proof -
  have "wakeup1 c ch i t = Inr (calm c (upd_proc i (wake ch (cur c s) i) t))"
    if "i \<in> set [0..<NPROC]" "mach t = mach s \<or> mach t = crit c (mach s)" for i t
    using that assms wakeup1_eq [of c t i ch] by (auto simp: quiet_def)
  from table_loop [of "[0..<NPROC]" s c "wakeup1 c ch", OF this] show ?thesis
    by (simp add: wakeup_def atLeast0LessThan del: upt_Suc)
qed

end
