(* ===== verification/Asm.thy ===== *)
theory Asm
  imports Proc_Table
begin

text \<open>
  The assembly routines of the kernel: \<open>kernel/trampoline.S\<close>, \<open>kernel/swtch.S\<close> and \<open>kernel/kernelvec.S\<close>, as lists of
  instructions with their semantics. Memory is accessed through the address translation that the value of
  \<open>satp\<close> selects; \<open>sfence.vma\<close> orders accesses and has no effect here.
\<close>

section \<open>Instructions\<close>

datatype reg =
    RA | SP | GP | TP | T0 | T1 | T2 | S0 | S1 | A0 | A1 | A2 | A3 | A4 | A5 | A6 | A7
  | S2 | S3 | S4 | S5 | S6 | S7 | S8 | S9 | S10 | S11 | T3 | T4 | T5 | T6

datatype csreg = SSCRATCH | SATP | MSCRATCH | SIP

datatype instr =
    SD reg uint64 reg
  | LD reg uint64 reg
  | LI reg uint64
  | ADDI reg reg uint64
  | ADD reg reg reg
  | CSRW csreg reg
  | CSRR reg csreg
  | CSRRW reg csreg reg
  | SFENCE

record hart =
  gpr :: "reg \<Rightarrow> uint64"
  csrv :: "csreg \<Rightarrow> uint64"
  hmem :: memory

fun step1 :: "(uint64 \<Rightarrow> uint64 \<Rightarrow> uint64) \<Rightarrow> instr \<Rightarrow> hart \<Rightarrow> hart" where
  "step1 xl (SD r o1 b) h = h\<lparr>hmem := store64 (xl (csrv h SATP) (gpr h b + o1)) (gpr h r) (hmem h)\<rparr>"
| "step1 xl (LD r o1 b) h = h\<lparr>gpr := (gpr h)(r := load64 (hmem h) (xl (csrv h SATP) (gpr h b + o1)))\<rparr>"
| "step1 xl (LI r v) h = h\<lparr>gpr := (gpr h)(r := v)\<rparr>"
| "step1 xl (ADDI r q v) h = h\<lparr>gpr := (gpr h)(r := gpr h q + v)\<rparr>"
| "step1 xl (ADD r q p) h = h\<lparr>gpr := (gpr h)(r := gpr h q + gpr h p)\<rparr>"
| "step1 xl (CSRW k r) h = h\<lparr>csrv := (csrv h)(k := gpr h r)\<rparr>"
| "step1 xl (CSRR r k) h = h\<lparr>gpr := (gpr h)(r := csrv h k)\<rparr>"
| "step1 xl (CSRRW r k q) h = h\<lparr>gpr := (gpr h)(r := csrv h k), csrv := (csrv h)(k := gpr h q)\<rparr>"
| "step1 xl SFENCE h = h"

definition run :: "(uint64 \<Rightarrow> uint64 \<Rightarrow> uint64) \<Rightarrow> instr list \<Rightarrow> hart \<Rightarrow> hart" where
  "run xl is h = fold (step1 xl) is h"

section \<open>The routines\<close>

text \<open>The registers and their offsets in \<open>struct trapframe\<close>, in the order of \<open>uservec\<close> and \<open>userret\<close>.\<close>

definition trap_slots :: "(reg \<times> uint64) list" where
  "trap_slots =
    [(RA, 40), (SP, 48), (GP, 56), (TP, 64), (T0, 72), (T1, 80), (T2, 88), (S0, 96), (S1, 104),
     (A1, 120), (A2, 128), (A3, 136), (A4, 144), (A5, 152), (A6, 160), (A7, 168),
     (S2, 176), (S3, 184), (S4, 192), (S5, 200), (S6, 208), (S7, 216), (S8, 224), (S9, 232), (S10, 240), (S11, 248),
     (T3, 256), (T4, 264), (T5, 272), (T6, 280)]"

definition uservec :: "instr list" where
  "uservec =
    [CSRW SSCRATCH A0, LI A0 TRAPFRAME] @
    map (\<lambda>(r, o1). SD r o1 A0) trap_slots @
    [CSRR T0 SSCRATCH, SD T0 112 A0,
     LD SP 8 A0, LD TP 32 A0, LD T0 16 A0, LD T1 0 A0,
     SFENCE, CSRW SATP T1, SFENCE]"

definition userret :: "instr list" where
  "userret =
    [SFENCE, CSRW SATP A0, SFENCE, LI A0 TRAPFRAME] @
    map (\<lambda>(r, o1). LD r o1 A0) trap_slots @
    [LD A0 112 A0]"

definition context_slots :: "(reg \<times> uint64) list" where
  "context_slots =
    [(RA, 0), (SP, 8), (S0, 16), (S1, 24), (S2, 32), (S3, 40), (S4, 48), (S5, 56), (S6, 64), (S7, 72), (S8, 80),
     (S9, 88), (S10, 96), (S11, 104)]"

definition swtch :: "instr list" where
  "swtch = map (\<lambda>(r, o1). SD r o1 A0) context_slots @ map (\<lambda>(r, o1). LD r o1 A1) context_slots"

text \<open>The registers \<open>kernelvec\<close> saves; all of them but \<open>tp\<close> are restored.\<close>

definition kernel_slots :: "(reg \<times> uint64) list" where
  "kernel_slots =
    [(RA, 0), (SP, 8), (GP, 16), (TP, 24), (T0, 32), (T1, 40), (T2, 48), (S0, 56), (S1, 64),
     (A0, 72), (A1, 80), (A2, 88), (A3, 96), (A4, 104), (A5, 112), (A6, 120), (A7, 128),
     (S2, 136), (S3, 144), (S4, 152), (S5, 160), (S6, 168), (S7, 176), (S8, 184), (S9, 192), (S10, 200), (S11, 208),
     (T3, 216), (T4, 224), (T5, 232), (T6, 240)]"

definition kernelvec_save :: "instr list" where
  "kernelvec_save = ADDI SP SP (-256) # map (\<lambda>(r, o1). SD r o1 SP) kernel_slots"

definition kernelvec_restore :: "instr list" where
  "kernelvec_restore = map (\<lambda>(r, o1). LD r o1 SP) (filter (\<lambda>(r, _). r \<noteq> TP) kernel_slots) @ [ADDI SP SP 256]"

definition timervec :: "instr list" where
  "timervec =
    [CSRRW A0 MSCRATCH A0, SD A1 0 A0, SD A2 8 A0, SD A3 16 A0,
     LD A1 24 A0, LD A2 32 A0, LD A3 0 A1, ADD A3 A3 A2, SD A3 0 A1,
     LI A1 2, CSRW SIP A1,
     LD A3 16 A0, LD A2 8 A0, LD A1 0 A0, CSRRW A0 MSCRATCH A0]"

section \<open>Saving and restoring registers\<close>

lemma al8_add: "al8 a \<Longrightarrow> al8 b \<Longrightarrow> al8 (a + b)"
proof -
  assume "al8 a" "al8 b"
  moreover have "unat (a + b) mod 8 = (unat a + unat b) mod 8"
    using mod_mod_cancel [of 8 "2 ^ 64" "unat a + unat b"] by (simp add: unat_word_ariths)
  moreover have "(unat a + unat b) mod 8 = (unat a mod 8 + unat b mod 8) mod 8" by (rule mod_add_eq [symmetric])
  ultimately show "al8 (a + b)" by (simp add: al8_def)
qed

lemma run_simps [simp]:
  "run xl [] h = h" "run xl (i # is) h = run xl is (step1 xl i h)" "run xl (is @ js) h = run xl js (run xl is h)"
  by (simp_all add: run_def)

definition slots_ok :: "(uint64 \<Rightarrow> uint64) \<Rightarrow> (reg \<times> uint64) list \<Rightarrow> bool" where
  "slots_ok A sl \<longleftrightarrow> inj_on A (snd ` set sl) \<and> distinct (map snd sl) \<and> (\<forall>o1\<in>snd ` set sl. al8 (A o1))"

lemma slots_ok_Cons:
  "slots_ok A ((r, o1) # sl) \<longleftrightarrow> slots_ok A sl \<and> al8 (A o1) \<and> A o1 \<notin> A ` snd ` set sl \<and> o1 \<notin> snd ` set sl"
  by (auto simp: slots_ok_def)

lemma run_save:
  fixes h :: hart and b :: reg and xl :: "uint64 \<Rightarrow> uint64 \<Rightarrow> uint64"
  defines "A \<equiv> \<lambda>o1. xl (csrv h SATP) (gpr h b + o1)"
  assumes "slots_ok A sl"
  shows "\<exists>m. run xl (map (\<lambda>(r, o1). SD r o1 b) sl) h = h\<lparr>hmem := m\<rparr>
    \<and> (\<forall>(r, o1)\<in>set sl. load64 m (A o1) = gpr h r)
    \<and> (\<forall>x. al8 x \<longrightarrow> x \<notin> A ` snd ` set sl \<longrightarrow> load64 m x = load64 (hmem h) x)"
  using assms(2) unfolding A_def
proof (induction sl arbitrary: h)
  case Nil
  show ?case by (rule exI [of _ "hmem h"]) simp
next
  case (Cons e sl)
  obtain r o1 where e: "e = (r, o1)" by fastforce
  let ?A = "\<lambda>o1. xl (csrv h SATP) (gpr h b + o1)"
  let ?h = "h\<lparr>hmem := store64 (?A o1) (gpr h r) (hmem h)\<rparr>"
  have ok: "slots_ok ?A sl" "al8 (?A o1)" "?A o1 \<notin> ?A ` snd ` set sl" "o1 \<notin> snd ` set sl"
    using Cons.prems by (simp_all add: e slots_ok_Cons)
  obtain m where m: "run xl (map (\<lambda>(r, o1). SD r o1 b) sl) ?h = ?h\<lparr>hmem := m\<rparr>"
    "\<forall>(r, o1)\<in>set sl. load64 m (?A o1) = gpr h r"
    "\<forall>x. al8 x \<longrightarrow> x \<notin> ?A ` snd ` set sl \<longrightarrow> load64 m x = load64 (hmem ?h) x"
    using Cons.IH [of ?h] ok(1) by auto
  have "load64 m (?A o1) = gpr h r" using m(3) ok(2,3) by simp
  moreover have "load64 m x = load64 (hmem h) x" if "al8 x" "x \<notin> ?A ` snd ` set (e # sl)" for x
    using m(3) that ok(2) by (auto simp: e load64_store64_other)
  ultimately show ?case using m(1,2) by (intro exI [of _ m]) (auto simp: e)
qed

lemma run_restore:
  fixes h :: hart and b :: reg and xl :: "uint64 \<Rightarrow> uint64 \<Rightarrow> uint64"
  defines "A \<equiv> \<lambda>o1. xl (csrv h SATP) (gpr h b + o1)"
  assumes "distinct (map fst sl)" "\<forall>o1. (b, o1) \<in> set sl \<longrightarrow> load64 (hmem h) (A o1) = gpr h b"
  shows "\<exists>g. run xl (map (\<lambda>(r, o1). LD r o1 b) sl) h = h\<lparr>gpr := g\<rparr>
    \<and> (\<forall>(r, o1)\<in>set sl. g r = load64 (hmem h) (A o1)) \<and> (\<forall>r. r \<notin> fst ` set sl \<longrightarrow> g r = gpr h r)"
  using assms(2,3) unfolding A_def
proof (induction sl arbitrary: h)
  case Nil
  show ?case by (rule exI [of _ "gpr h"]) simp
next
  case (Cons e sl)
  obtain r o1 where e: "e = (r, o1)" by fastforce
  let ?A = "\<lambda>o1. xl (csrv h SATP) (gpr h b + o1)"
  let ?h = "h\<lparr>gpr := (gpr h)(r := load64 (hmem h) (?A o1))\<rparr>"
  have b: "gpr ?h b = gpr h b" using Cons.prems(2) by (auto simp: e)
  have "\<exists>g. run xl (map (\<lambda>(r, o1). LD r o1 b) sl) ?h = ?h\<lparr>gpr := g\<rparr>
    \<and> (\<forall>(r, o1)\<in>set sl. g r = load64 (hmem ?h) (xl (csrv ?h SATP) (gpr ?h b + o1)))
    \<and> (\<forall>r. r \<notin> fst ` set sl \<longrightarrow> g r = gpr ?h r)"
    by (rule Cons.IH) (use Cons.prems b in \<open>auto simp: e\<close>)
  then obtain g where g: "run xl (map (\<lambda>(r, o1). LD r o1 b) sl) ?h = ?h\<lparr>gpr := g\<rparr>"
    "\<forall>(r, o1)\<in>set sl. g r = load64 (hmem h) (?A o1)" "\<forall>q. q \<notin> fst ` set sl \<longrightarrow> g q = gpr ?h q"
    unfolding b by auto
  have "g r = load64 (hmem h) (?A o1)" using g(3) Cons.prems(1) by (auto simp: e)
  then show ?case using g by (intro exI [of _ g]) (auto simp: e)
qed

section \<open>Trap entry and return\<close>

text \<open>With the page table \<open>sat\<close>, the page at \<open>TRAPFRAME\<close> is the page \<open>tf\<close> of memory.\<close>

definition maps_trapframe :: "(uint64 \<Rightarrow> uint64 \<Rightarrow> uint64) \<Rightarrow> uint64 \<Rightarrow> uint64 \<Rightarrow> bool" where
  "maps_trapframe xl sat tf \<longleftrightarrow> pg_aligned tf \<and> (\<forall>o1<4096. xl sat (TRAPFRAME + o1) = tf + o1)"

definition user_slots :: "(reg \<times> uint64) list" where
  "user_slots = (A0, 112) # trap_slots"

lemma trap_slots_facts:
  "distinct (map fst user_slots)" "distinct (map snd user_slots)" "\<forall>o1\<in>snd ` set user_slots. al8 o1 \<and> o1 < 4096"
  "\<forall>o1\<in>snd ` set user_slots. o1 \<notin> {0, 8, 16, 24, 32}" "\<exists>o1. (r, o1) \<in> set user_slots"
  by (simp_all add: user_slots_def trap_slots_def al8_def) (cases r; auto)

lemma uservec_saves:
  assumes "maps_trapframe xl (csrv h SATP) tf"
  defines "h' \<equiv> run xl uservec h"
  shows "\<forall>(r, o1)\<in>set user_slots. load64 (hmem h') (tf + o1) = gpr h r"
    and "gpr h' SP = load64 (hmem h) (tf + 8)" "gpr h' TP = load64 (hmem h) (tf + 32)"
      "gpr h' T0 = load64 (hmem h) (tf + 16)" "csrv h' SATP = load64 (hmem h) tf"
    and "\<forall>o1\<in>{0, 8, 16, 24, 32}. load64 (hmem h') (tf + o1) = load64 (hmem h) (tf + o1)"
proof -
  define h1 where "h1 = h\<lparr>csrv := (csrv h)(SSCRATCH := gpr h A0), gpr := (gpr h)(A0 := TRAPFRAME)\<rparr>"
  let ?A = "\<lambda>o1. xl (csrv h1 SATP) (gpr h1 A0 + o1)"
  have A: "?A o1 = tf + o1" if "o1 < 4096" for o1
    using assms(1) that by (simp add: maps_trapframe_def h1_def)
  have al: "al8 (tf + o1)" if "al8 o1" for o1
    using assms(1) that by (intro al8_add) (simp_all add: maps_trapframe_def)
  have lt: "o1 < 4096" "al8 o1" "o1 \<noteq> 112" if "o1 \<in> snd ` set trap_slots" for o1
    using trap_slots_facts(2,3) that by (auto simp: user_slots_def)
  have img: "?A ` snd ` set trap_slots = (\<lambda>o1. tf + o1) ` snd ` set trap_slots"
    using A lt by (intro image_cong) simp_all
  have "slots_ok ?A trap_slots"
    using trap_slots_facts(2) A lt al by (auto simp: slots_ok_def inj_on_def user_slots_def)
  from run_save [where xl = xl and h = h1 and b = A0, OF this] obtain m where m: "run xl (map (\<lambda>(r, o1). SD r o1 A0) trap_slots) h1 = h1\<lparr>hmem := m\<rparr>"
    "\<forall>(r, o1)\<in>set trap_slots. load64 m (?A o1) = gpr h1 r"
    "\<forall>x. al8 x \<longrightarrow> x \<notin> ?A ` snd ` set trap_slots \<longrightarrow> load64 m x = load64 (hmem h1) x" by blast
  have hm: "hmem h1 = hmem h" by (simp add: h1_def)
  define m' where "m' = store64 (tf + 112) (gpr h A0) m"
  have A': "xl (csrv h SATP) TRAPFRAME = tf" "xl (csrv h SATP) (TRAPFRAME + 8) = tf + 8"
    "xl (csrv h SATP) (TRAPFRAME + 16) = tf + 16" "xl (csrv h SATP) (TRAPFRAME + 32) = tf + 32"
    "xl (csrv h SATP) (TRAPFRAME + 112) = tf + 112"
    using A [of 0] A [of 8] A [of 16] A [of 32] A [of 112] by (simp_all add: h1_def)
  have h': "hmem h' = m'" "csrv h' SATP = load64 m' tf" "gpr h' SP = load64 m' (tf + 8)"
    "gpr h' TP = load64 m' (tf + 32)" "gpr h' T0 = load64 m' (tf + 16)"
    using m(1) by (simp_all add: h'_def uservec_def h1_def A' m'_def)
  have k: "load64 m' (tf + o1) = load64 (hmem h) (tf + o1)" if "o1 \<in> {0, 8, 16, 24, 32}" for o1
  proof -
    have o: "al8 o1" "o1 \<noteq> 112" "o1 \<notin> snd ` set trap_slots"
      using that trap_slots_facts(4) by (auto simp: al8_def user_slots_def)
    have "tf + o1 \<notin> ?A ` snd ` set trap_slots" unfolding img using o(3) by force
    then have "load64 m (tf + o1) = load64 (hmem h) (tf + o1)"
      using m(3) al [OF o(1)] hm by metis
    moreover have "al8 112" by (simp add: al8_def)
    ultimately show ?thesis using o al by (simp add: m'_def load64_store64_other)
  qed
  then show "\<forall>o1\<in>{0, 8, 16, 24, 32}. load64 (hmem h') (tf + o1) = load64 (hmem h) (tf + o1)" by (simp add: h')
  show "gpr h' SP = load64 (hmem h) (tf + 8)" "gpr h' TP = load64 (hmem h) (tf + 32)"
      "gpr h' T0 = load64 (hmem h) (tf + 16)" "csrv h' SATP = load64 (hmem h) tf"
    using h' k [of 0] k by simp_all
  have "load64 m' (tf + o1) = gpr h r" if "(r, o1) \<in> set trap_slots" for r o1
  proof -
    have o: "o1 < 4096" "al8 o1" "o1 \<noteq> 112" "r \<noteq> A0"
      using lt [of o1] that trap_slots_facts(1) by (force simp: user_slots_def)+
    have "al8 112" by (simp add: al8_def)
    then have "load64 m' (tf + o1) = load64 m (tf + o1)" using o al by (simp add: m'_def load64_store64_other)
    then show ?thesis using m(2) that o A by (auto simp: h1_def)
  qed
  then show "\<forall>(r, o1)\<in>set user_slots. load64 (hmem h') (tf + o1) = gpr h r"
    by (auto simp: user_slots_def h' m'_def)
qed

lemma userret_restores:
  assumes "maps_trapframe xl (gpr h A0) tf"
  defines "h' \<equiv> run xl userret h"
  shows "\<forall>(r, o1)\<in>set user_slots. gpr h' r = load64 (hmem h) (tf + o1)" "csrv h' SATP = gpr h A0" "hmem h' = hmem h"
proof -
  define h1 where "h1 = h\<lparr>csrv := (csrv h)(SATP := gpr h A0), gpr := (gpr h)(A0 := TRAPFRAME)\<rparr>"
  let ?A = "\<lambda>o1. xl (csrv h1 SATP) (gpr h1 A0 + o1)"
  have A: "?A o1 = tf + o1" if "o1 < 4096" for o1
    using assms(1) that by (simp add: maps_trapframe_def h1_def)
  have d: "distinct (map fst trap_slots)" "A0 \<notin> fst ` set trap_slots"
    using trap_slots_facts(1) by (simp_all add: user_slots_def)
  then have "\<forall>o1. (A0, o1) \<in> set trap_slots \<longrightarrow> load64 (hmem h1) (?A o1) = gpr h1 A0" by force
  from run_restore [where xl = xl and h = h1 and b = A0, OF d(1) this] obtain g where g:
    "run xl (map (\<lambda>(r, o1). LD r o1 A0) trap_slots) h1 = h1\<lparr>gpr := g\<rparr>"
    "\<forall>(r, o1)\<in>set trap_slots. g r = load64 (hmem h1) (?A o1)" "\<forall>r. r \<notin> fst ` set trap_slots \<longrightarrow> g r = gpr h1 r"
    by blast
  have a0: "g A0 = TRAPFRAME" using g(3) d(2) by (simp add: h1_def)
  have h': "h' = h1\<lparr>gpr := g(A0 := load64 (hmem h) (tf + 112))\<rparr>"
    using g(1) a0 A [of 112] by (simp add: h'_def userret_def h1_def)
  have "g r = load64 (hmem h) (tf + o1)" "r \<noteq> A0" if "(r, o1) \<in> set trap_slots" for r o1
  proof -
    have "o1 < 4096" using that trap_slots_facts(3) by (force simp: user_slots_def)
    then show "g r = load64 (hmem h) (tf + o1)" using g(2) that A by (auto simp: h1_def)
    show "r \<noteq> A0" using that d(2) by force
  qed
  then show "\<forall>(r, o1)\<in>set user_slots. gpr h' r = load64 (hmem h) (tf + o1)"
    by (auto simp: user_slots_def h')
  show "csrv h' SATP = gpr h A0" "hmem h' = hmem h" by (simp_all add: h' h1_def)
qed

section \<open>Correctness\<close>

text \<open>
  C26. User registers survive the kernel. Entering through \<open>uservec\<close> stores every user register in the trapframe and
  loads the kernel's stack pointer, hart number, page table and the address of \<open>usertrap\<close> from it; whatever the
  kernel does then, if the saved registers are intact when \<open>userret\<close> runs with the same user page table, on any
  hart, each register has its value again, except that \<open>a0\<close> is what the trapframe holds for it, the result of a
  system call.
\<close>

theorem trap_registers_roundtrip:
  assumes "maps_trapframe xl (csrv h SATP) tf" and "h' = run xl uservec h"
    and "gpr g A0 = csrv h SATP"
    and "\<forall>(r, o1)\<in>set trap_slots. load64 (hmem g) (tf + o1) = load64 (hmem h') (tf + o1)"
  shows "(\<forall>r. gpr (run xl userret g) r = (if r = A0 then load64 (hmem g) (tf + 112) else gpr h r))
    \<and> csrv (run xl userret g) SATP = csrv h SATP
    \<and> load64 (hmem h') (tf + 112) = gpr h A0
    \<and> gpr h' SP = load64 (hmem h) (tf + 8) \<and> gpr h' TP = load64 (hmem h) (tf + 32)
    \<and> gpr h' T0 = load64 (hmem h) (tf + 16) \<and> csrv h' SATP = load64 (hmem h) tf"
proof -
  note s = uservec_saves [OF assms(1), folded assms(2)]
  have m: "maps_trapframe xl (gpr g A0) tf" using assms(1,3) by simp
  note r = userret_restores [OF m]
  have "gpr (run xl userret g) q = (if q = A0 then load64 (hmem g) (tf + 112) else gpr h q)" for q
  proof -
    obtain o1 where o1: "(q, o1) \<in> set user_slots" using trap_slots_facts(5) by blast
    then have e: "gpr (run xl userret g) q = load64 (hmem g) (tf + o1)" using r(1) by blast
    show ?thesis
    proof (cases "q = A0")
      case True
      have "(A0, 112) \<in> set user_slots" by (simp add: user_slots_def)
      then show ?thesis using True r(1) by auto
    next
      case False
      then have "(q, o1) \<in> set trap_slots" using o1 by (auto simp: user_slots_def)
      then have "load64 (hmem g) (tf + o1) = load64 (hmem h') (tf + o1)" using assms(4) by blast
      then show ?thesis using False e s(1) o1 by auto
    qed
  qed
  moreover have "load64 (hmem h') (tf + 112) = gpr h A0" using s(1) by (simp add: user_slots_def)
  ultimately show ?thesis using s r(2) assms(3) by simp
qed

text \<open>A machine whose user page tables map the trapframe at one page, for the example.\<close>

definition demo_xl :: "uint64 \<Rightarrow> uint64 \<Rightarrow> uint64" where
  "demo_xl sat a = a - TRAPFRAME + 0x87ffb000"

definition demo_hart :: hart where
  "demo_hart = \<lparr>gpr = (\<lambda>r. if r = S5 then 42 else 7), csrv = (\<lambda>_. 9), hmem = (\<lambda>_. 0)\<rparr>"

lemma demo_maps: "maps_trapframe demo_xl 9 0x87ffb000"
  by (simp add: maps_trapframe_def demo_xl_def pg_aligned_def)

theorem trap_registers_roundtrip_witness:
  "gpr (run demo_xl userret ((run demo_xl uservec demo_hart)\<lparr>gpr := (\<lambda>_. 9)\<rparr>)) S5 = 42"
proof -
  let ?h' = "run demo_xl uservec demo_hart"
  have "maps_trapframe demo_xl (csrv demo_hart SATP) 0x87ffb000" using demo_maps by (simp add: demo_hart_def)
  from trap_registers_roundtrip [OF this refl, of "?h'\<lparr>gpr := (\<lambda>_. 9)\<rparr>"]
  have "\<forall>r. gpr (run demo_xl userret (?h'\<lparr>gpr := (\<lambda>_. 9)\<rparr>)) r =
      (if r = A0 then load64 (hmem ?h') (0x87ffb000 + 112) else gpr demo_hart r)"
    by (simp add: demo_hart_def)
  then show ?thesis by (simp add: demo_hart_def)
qed

text \<open>What \<open>swtch\<close> does when the two contexts do not overlap.\<close>

definition contexts_apart :: "uint64 \<Rightarrow> uint64 \<Rightarrow> bool" where
  "contexts_apart a b \<longleftrightarrow> al8 a \<and> al8 b
     \<and> (\<forall>o1\<in>snd ` set context_slots. \<forall>o2\<in>snd ` set context_slots. a + o1 \<noteq> b + o2)"

lemma context_slots_facts:
  "distinct (map fst context_slots)" "distinct (map snd context_slots)" "\<forall>o1\<in>snd ` set context_slots. al8 o1"
  "A1 \<notin> fst ` set context_slots"
  by (simp_all add: context_slots_def al8_def)

lemma swtch_effect:
  assumes "\<forall>a. xl (csrv h SATP) a = a" "contexts_apart (gpr h A0) (gpr h A1)"
  shows "\<forall>(r, o1)\<in>set context_slots. gpr (run xl swtch h) r = load64 (hmem h) (gpr h A1 + o1)"
    and "\<forall>(r, o1)\<in>set context_slots. load64 (hmem (run xl swtch h)) (gpr h A0 + o1) = gpr h r"
proof -
  let ?A = "\<lambda>o1. xl (csrv h SATP) (gpr h A0 + o1)"
  have A: "?A = (\<lambda>o1. gpr h A0 + o1)" using assms(1) by simp
  have al: "al8 (gpr h A0 + o1)" "al8 (gpr h A1 + o1)" if "o1 \<in> snd ` set context_slots" for o1
    using assms(2) context_slots_facts(3) that by (auto simp: contexts_apart_def intro: al8_add)
  have "slots_ok ?A context_slots"
    unfolding A slots_ok_def using al context_slots_facts(2) by (auto simp: inj_on_def)
  from run_save [where xl = xl and h = h and b = A0, OF this, unfolded assms(1) [rule_format]] obtain m where m:
    "run xl (map (\<lambda>(r, o1). SD r o1 A0) context_slots) h = h\<lparr>hmem := m\<rparr>"
    "\<forall>(r, o1)\<in>set context_slots. load64 m (gpr h A0 + o1) = gpr h r"
    "\<forall>x. al8 x \<longrightarrow> x \<notin> (\<lambda>o1. gpr h A0 + o1) ` snd ` set context_slots \<longrightarrow> load64 m x = load64 (hmem h) x"
    by blast
  let ?h = "h\<lparr>hmem := m\<rparr>"
  have "\<forall>o1. (A1, o1) \<in> set context_slots \<longrightarrow> load64 (hmem ?h) (xl (csrv ?h SATP) (gpr ?h A1 + o1)) = gpr ?h A1"
    using context_slots_facts(4) by force
  from run_restore [where xl = xl and h = ?h and b = A1, OF context_slots_facts(1) this] assms(1) obtain g where g:
    "run xl (map (\<lambda>(r, o1). LD r o1 A1) context_slots) ?h = ?h\<lparr>gpr := g\<rparr>"
    "\<forall>(r, o1)\<in>set context_slots. g r = load64 m (gpr h A1 + o1)"
    by auto
  have r: "run xl swtch h = ?h\<lparr>gpr := g\<rparr>" using m(1) g(1) by (simp add: swtch_def)
  have keep: "load64 m (gpr h A1 + o1) = load64 (hmem h) (gpr h A1 + o1)" if "o1 \<in> snd ` set context_slots" for o1
  proof -
    have "gpr h A1 + o1 \<notin> (\<lambda>o1. gpr h A0 + o1) ` snd ` set context_slots"
      using assms(2) that unfolding contexts_apart_def by fastforce
    then show ?thesis using m(3) al(2) [OF that] by blast
  qed
  then show "\<forall>(r, o1)\<in>set context_slots. gpr (run xl swtch h) r = load64 (hmem h) (gpr h A1 + o1)"
    using g(2) unfolding r by force
  show "\<forall>(r, o1)\<in>set context_slots. load64 (hmem (run xl swtch h)) (gpr h A0 + o1) = gpr h r"
    using m(2) unfolding r by simp
qed

text \<open>
  C27. A context switch can be undone: \<open>swtch(old, new)\<close> leaves in \<open>old\<close> the return address, the stack pointer and
  the callee-saved registers of the caller and takes those of \<open>new\<close>; when later, on any hart, \<open>swtch(x, old)\<close>
  runs while \<open>old\<close> is as it was left, the caller has all of them again and returns to where it was.
\<close>

theorem swtch_roundtrip:
  assumes "\<forall>a. xl (csrv h SATP) a = a" and "\<forall>a. xl (csrv g SATP) a = a"
    and "contexts_apart (gpr h A0) (gpr h A1)" and "contexts_apart (gpr g A0) (gpr h A0)"
    and "h' = run xl swtch h" and "gpr g A1 = gpr h A0"
    and "\<forall>o1\<in>snd ` set context_slots. load64 (hmem g) (gpr h A0 + o1) = load64 (hmem h') (gpr h A0 + o1)"
  shows "(\<forall>r\<in>{RA, SP, S0, S1, S2, S3, S4, S5, S6, S7, S8, S9, S10, S11}. gpr (run xl swtch g) r = gpr h r)
    \<and> (\<forall>(r, o1)\<in>set context_slots. gpr h' r = load64 (hmem h) (gpr h A1 + o1))"
proof -
  note e = swtch_effect [where xl = xl and h = h, OF assms(1,3), folded assms(5)]
  have "\<forall>(r, o1)\<in>set context_slots. gpr (run xl swtch g) r = load64 (hmem g) (gpr g A1 + o1)"
    using assms(2,4,6) by (intro swtch_effect(1) [where xl = xl]) simp_all
  then have "\<forall>(r, o1)\<in>set context_slots. gpr (run xl swtch g) r = gpr h r"
    using assms(6,7) e(2) by force
  then show ?thesis using e(1) by (simp add: context_slots_def)
qed

theorem swtch_roundtrip_witness:
  "gpr (run (\<lambda>_ a. a) swtch ((run (\<lambda>_ a. a) swtch (demo_hart\<lparr>gpr := (gpr demo_hart)(A0 := 0x80010000, A1 := 0x80020000)\<rparr>))
     \<lparr>gpr := (\<lambda>r. if r = A1 then 0x80010000 else 0x80020000)\<rparr>)) S5 = 42"
proof -
  let ?h = "demo_hart\<lparr>gpr := (gpr demo_hart)(A0 := 0x80010000, A1 := 0x80020000)\<rparr>"
  let ?g = "(run (\<lambda>_ a. a) swtch ?h)\<lparr>gpr := (\<lambda>r. if r = A1 then 0x80010000 else 0x80020000)\<rparr>"
  have "contexts_apart 0x80010000 0x80020000" "contexts_apart 0x80020000 0x80010000"
    by (simp_all add: contexts_apart_def context_slots_def al8_def)
  then have "gpr (run (\<lambda>_ a. a) swtch ?g) S5 = gpr ?h S5"
    using swtch_roundtrip [of "\<lambda>_ a. a" ?h ?g "run (\<lambda>_ a. a) swtch ?h"] by simp
  then show ?thesis by (simp add: demo_hart_def)
qed

text \<open>Interrupts in the kernel and timer interrupts.\<close>

lemma kernel_slots_facts:
  "distinct (map fst kernel_slots)" "distinct (map snd kernel_slots)" "\<forall>o1\<in>snd ` set kernel_slots. al8 o1"
  "\<exists>o1. (r, o1) \<in> set kernel_slots" "(SP, o1) \<in> set kernel_slots \<Longrightarrow> o1 = 8"
  by (simp_all add: kernel_slots_def al8_def) (cases r; auto)

lemma kernelvec_roundtrip:
  assumes "\<forall>a. xl (csrv h SATP) a = a" "\<forall>a. xl (csrv g SATP) a = a" "al8 (gpr h SP)"
    and "gpr g SP = gpr h SP - 256"
    and "\<forall>o1\<in>snd ` set kernel_slots. load64 (hmem g) (gpr g SP + o1) = load64 (hmem (run xl kernelvec_save h)) (gpr g SP + o1)"
  shows "gpr (run xl kernelvec_restore g) r = (if r = TP then gpr g TP else gpr h r)"
proof -
  define h1 where "h1 = h\<lparr>gpr := (gpr h)(SP := gpr h SP - 256)\<rparr>"
  have x1: "xl (csrv h1 SATP) a = a" for a using assms(1) by (simp add: h1_def)
  have al: "al8 (gpr h1 SP)" using al8_add [OF assms(3), of "-256"] by (simp add: h1_def al8_def)
  have "slots_ok (\<lambda>o1. xl (csrv h1 SATP) (gpr h1 SP + o1)) kernel_slots"
    unfolding x1 slots_ok_def using al8_add [OF al] kernel_slots_facts(2,3) by (auto simp: inj_on_def)
  from run_save [where xl = xl and h = h1 and b = SP, OF this, unfolded x1] obtain m where m:
    "run xl (map (\<lambda>(r, o1). SD r o1 SP) kernel_slots) h1 = h1\<lparr>hmem := m\<rparr>"
    "\<forall>(r, o1)\<in>set kernel_slots. load64 m (gpr h1 SP + o1) = gpr h1 r" by blast
  have sv: "hmem (run xl kernelvec_save h) = m" using m(1) by (simp add: kernelvec_save_def h1_def)
  let ?sl = "filter (\<lambda>(r, _). r \<noteq> TP) kernel_slots"
  have g: "load64 (hmem g) (gpr g SP + o1) = gpr h1 q" if "(q, o1) \<in> set kernel_slots" for q o1
  proof -
    have "load64 (hmem g) (gpr g SP + o1) = load64 m (gpr g SP + o1)" using assms(5) that unfolding sv by force
    moreover have "gpr h1 SP = gpr g SP" using assms(4) by (simp add: h1_def)
    ultimately show ?thesis using m(2) that by auto
  qed
  have sp: "gpr h1 SP = gpr g SP" using assms(4) by (simp add: h1_def)
  have d: "distinct (map fst ?sl)" using kernel_slots_facts(1) by (rule distinct_map_filter)
  have b: "\<forall>o1. (SP, o1) \<in> set ?sl \<longrightarrow> load64 (hmem g) (xl (csrv g SATP) (gpr g SP + o1)) = gpr g SP"
    using assms(2) g sp by simp
  from run_restore [where xl = xl and h = g and b = SP, OF d b] obtain f where f:
    "run xl (map (\<lambda>(r, o1). LD r o1 SP) ?sl) g = g\<lparr>gpr := f\<rparr>"
    "\<forall>(r, o1)\<in>set ?sl. f r = load64 (hmem g) (xl (csrv g SATP) (gpr g SP + o1))"
    "\<forall>r. r \<notin> fst ` set ?sl \<longrightarrow> f r = gpr g r" by blast
  have f1: "f q = gpr h1 q" if "q \<noteq> TP" for q
  proof -
    obtain o1 where "(q, o1) \<in> set kernel_slots" using kernel_slots_facts(4) by blast
    then show ?thesis using that f(2) g assms(2) by auto
  qed
  have f2: "f TP = gpr g TP" using f(3) by force
  have "gpr (run xl kernelvec_restore g) = f(SP := f SP + 256)" using f(1) by (simp add: kernelvec_restore_def)
  then show ?thesis using f1 f2 by (simp add: h1_def)
qed

lemma timervec_transparent:
  fixes h :: hart and xl :: "uint64 \<Rightarrow> uint64 \<Rightarrow> uint64"
  defines "sc \<equiv> csrv h MSCRATCH" and "cmp \<equiv> load64 (hmem h) (csrv h MSCRATCH + 24)" and "h' \<equiv> run xl timervec h"
  assumes "\<forall>a. xl (csrv h SATP) a = a" "al8 sc" "al8 cmp"
    and "cmp \<notin> {sc, sc + 8, sc + 16, sc + 24, sc + 32}"
  shows "gpr h' = gpr h" "csrv h' = (csrv h)(SIP := 2)"
    "load64 (hmem h') cmp = load64 (hmem h) cmp + load64 (hmem h) (sc + 32)"
    "al8 x \<Longrightarrow> x \<notin> {cmp, sc, sc + 8, sc + 16} \<Longrightarrow> load64 (hmem h') x = load64 (hmem h) x"
proof -
  have al: "al8 (sc + 8)" "al8 (sc + 16)" "al8 (sc + 24)" "al8 (sc + 32)"
    using assms(5) by (intro al8_add; simp add: al8_def)+
  have ne: "sc \<noteq> cmp" "sc + 8 \<noteq> cmp" "sc + 16 \<noteq> cmp" "cmp \<noteq> sc" "cmp \<noteq> sc + 8" "cmp \<noteq> sc + 16"
    using assms(7) by auto
  have c24: "load64 (hmem h) (sc + 24) = cmp" by (simp add: cmp_def sc_def)
  define m1 where "m1 = store64 (sc + 16) (gpr h A3) (store64 (sc + 8) (gpr h A2) (store64 sc (gpr h A1) (hmem h)))"
  have m1: "load64 m1 (sc + 24) = cmp" "load64 m1 (sc + 32) = load64 (hmem h) (sc + 32)"
    "load64 m1 cmp = load64 (hmem h) cmp" "load64 m1 sc = gpr h A1" "load64 m1 (sc + 8) = gpr h A2"
    "load64 m1 (sc + 16) = gpr h A3"
    using al assms(5,6) ne c24 by (simp_all add: m1_def load64_store64_other)
  define v where "v = load64 (hmem h) cmp + load64 (hmem h) (sc + 32)"
  define m2 where "m2 = store64 cmp v m1"
  have m2: "load64 m2 sc = gpr h A1" "load64 m2 (sc + 8) = gpr h A2" "load64 m2 (sc + 16) = gpr h A3"
    using al assms(5,6) ne m1 by (simp_all add: m2_def load64_store64_other)
  define g where "g = (gpr h)(A0 := sc, A1 := cmp, A2 := load64 (hmem h) (sc + 32), A3 := v)"
  have "run xl [CSRRW A0 MSCRATCH A0, SD A1 0 A0, SD A2 8 A0, SD A3 16 A0, LD A1 24 A0, LD A2 32 A0, LD A3 0 A1,
      ADD A3 A3 A2, SD A3 0 A1] h = h\<lparr>gpr := g, csrv := (csrv h)(MSCRATCH := gpr h A0), hmem := m2\<rparr>"
    using m1 assms(4) by (simp add: m1_def [symmetric] sc_def [symmetric] m2_def v_def g_def)
  then have h': "h' = run xl [LI A1 2, CSRW SIP A1, LD A3 16 A0, LD A2 8 A0, LD A1 0 A0, CSRRW A0 MSCRATCH A0]
      (h\<lparr>gpr := g, csrv := (csrv h)(MSCRATCH := gpr h A0), hmem := m2\<rparr>)"
    by (simp add: h'_def timervec_def)
  show "gpr h' = gpr h" "csrv h' = (csrv h)(SIP := 2)"
    using m2 assms(4) by (simp_all add: h' g_def fun_eq_iff sc_def)
  show "load64 (hmem h') cmp = load64 (hmem h) cmp + load64 (hmem h) (sc + 32)" by (simp add: h' m2_def v_def)
  assume x: "al8 x" "x \<notin> {cmp, sc, sc + 8, sc + 16}"
  then have "cmp \<noteq> x" "sc \<noteq> x" "sc + 8 \<noteq> x" "sc + 16 \<noteq> x" by auto
  then show "load64 (hmem h') x = load64 (hmem h) x"
    using x(1) al assms(5,6) by (simp add: h' m2_def m1_def load64_store64_other)
qed

end
