(* ===== verification/Ring.thy ===== *)
theory Ring
  imports Kernel_Prelude
begin

text \<open>
  Ring buffers indexed by free-running counters, as \<open>uart.c\<close>, \<open>console.c\<close> and \<open>pipe.c\<close> use them: an array
  of \<open>N\<close> elements, a read counter and a write counter that are only ever incremented, wrap around with
  their word and are reduced modulo \<open>N\<close> at each access. The laws hold because \<open>N\<close> divides the number of
  values of the counter.
\<close>

section \<open>The queue a ring buffer holds\<close>

definition ring_q :: "'l::len word \<Rightarrow> 'a list \<Rightarrow> 'l word \<Rightarrow> 'l word \<Rightarrow> 'a list" where
  "ring_q N buf r w = map (\<lambda>k. buf ! unat ((r + of_nat k) mod N)) [0..<unat (w - r)]"

lemma length_ring_q [simp]: "length (ring_q N buf r w) = unat (w - r)"
  by (simp add: ring_q_def)

lemma ring_q_empty [simp]: "ring_q N buf r r = []"
  by (simp add: ring_q_def)

lemma Suc_unat_pred: "(x :: 'l::len word) \<noteq> 0 \<Longrightarrow> unat x = Suc (unat (x - 1))"
  by (metis Suc_pred' unat_gt_0 unat_minus_one)

lemma unat_Suc_diff: "(w :: 'l::len word) \<noteq> r \<Longrightarrow> unat (w - r) = Suc (unat (w - (r + 1)))"
  using Suc_unat_pred [of "w - r"] by (simp add: diff_diff_eq)

lemma unat_diff_Suc:
  assumes "unat ((w :: 'l::len word) - r) < unat (N :: 'l word)"
  shows "unat (w + 1 - r) = Suc (unat (w - r))"
proof -
  have "w + 1 - r \<noteq> 0"
  proof
    assume "w + 1 - r = 0"
    then have "w - r = - 1" by (metis add_diff_eq diff_add_eq diff_eq_eq eq_iff_diff_eq_0 uminus_add_conv_diff)
    moreover have "unat N \<le> unat (- 1 :: 'l word)"
      using word_order.extremum [of N] by (simp only: word_le_nat_alt)
    ultimately show False using assms by simp
  qed
  then have "unat (w + 1 - r) = Suc (unat (w + 1 - r - 1))" by (rule Suc_unat_pred)
  then show ?thesis by (simp add: algebra_simps)
qed

lemma ring_q_split:
  assumes "unat (m - r) \<le> unat (w - r)"
  shows "ring_q N buf r w = ring_q N buf r m @ ring_q N buf m w" "unat (w - r) = unat (m - r) + unat (w - m)"
proof -
  have "w - m = (w - r) - (m - r)" by simp
  then show n: "unat (w - r) = unat (m - r) + unat (w - m)"
    using assms by (metis le_add_diff_inverse unat_sub word_le_nat_alt)
  have "[0..<unat (w - r)] = [0..<unat (m - r)] @ map (\<lambda>k. k + unat (m - r)) [0..<unat (w - m)]"
    unfolding n map_add_upt by (metis add.commute le_add1 upt_add_eq_append zero_le)
  then show "ring_q N buf r w = ring_q N buf r m @ ring_q N buf m w"
    by (simp add: ring_q_def) (simp add: add.commute)
qed

locale ring =
  fixes N :: "'l::len word"
  assumes N_pos: "0 < unat N"
    and N_dvd: "unat N dvd 2 ^ LENGTH('l)"
begin

lemma slot_eq: "unat ((r + of_nat k :: 'l word) mod N) = (unat r + k) mod unat N"
proof -
  have "unat ((r + of_nat k :: 'l word) mod N) = (unat r + k) mod 2 ^ LENGTH('l) mod unat N"
    by (simp add: unat_mod_distrib unat_word_ariths(1) unat_of_nat mod_simps)
  then show ?thesis using N_dvd by (simp add: mod_mod_cancel)
qed

lemma slot_less [simp]: "unat ((r :: 'l word) mod N) < unat N"
  using N_pos by (simp add: unat_mod_distrib)

lemma push:
  assumes "length buf = unat N" "unat (w - r) < unat N"
  shows "ring_q N (buf[unat (w mod N) := x]) r (w + 1) = ring_q N buf r w @ [x]"
proof -
  let ?n = "unat (w - r)"
  have w: "w = r + of_nat ?n" by simp
  have wn: "unat (w mod N) = (unat r + ?n) mod unat N"
    using slot_eq [of r ?n] w by simp
  have ne: "unat (w mod N) \<noteq> unat ((r + of_nat k) mod N)" if "k < ?n" for k
  proof
    assume "unat (w mod N) = unat ((r + of_nat k) mod N)"
    then have "(unat r + ?n) mod unat N = (unat r + k) mod unat N"
      using wn slot_eq [of r k] by simp
    then have "?n mod unat N = k mod unat N" by (simp add: mod_add_cong nat_mod_eq_iff) 
    then show False using that assms(2) by simp
  qed
  have "ring_q N (buf[unat (w mod N) := x]) r (w + 1)
    = map (\<lambda>k. buf[unat (w mod N) := x] ! unat ((r + of_nat k) mod N)) [0..<?n]
      @ [buf[unat (w mod N) := x] ! unat ((r + of_nat ?n) mod N)]"
    by (simp add: ring_q_def unat_diff_Suc [OF assms(2)])
  also have "\<dots> = ring_q N buf r w @ [x]"
    using ne assms(1) w by (simp add: ring_q_def)
  finally show ?thesis .
qed

lemma pop: "w \<noteq> r \<Longrightarrow> ring_q N buf r w = buf ! unat (r mod N) # ring_q N buf (r + 1) w"
  by (simp add: ring_q_def unat_Suc_diff upt_conv_Cons map_Suc_upt [symmetric] add_ac del: upt_Suc)

text \<open>The last element written can be taken back, which is what erasing on the console does.\<close>

lemma unpush:
  assumes "w \<noteq> r"
  shows "ring_q N buf r w = ring_q N buf r (w - 1) @ [buf ! unat ((w - 1) mod N)]"
proof -
  have "unat (w - r) = Suc (unat (w - r - 1))" using assms by (intro Suc_unat_pred) simp
  then have "unat (w - r) = Suc (unat (w - 1 - r))" by (simp add: algebra_simps)
  then show ?thesis by (simp add: ring_q_def)
qed

end

end
