(* ===== verification/Sched.thy ===== *)
theory Sched
  imports Proc_Table
begin

text \<open>
  Scheduling as a transition system. A step is what one hart does between two points at which it
  runs freely: a round of the scheduler's loop, a process that yields, sleeps or exits back into the
  scheduler, a wakeup, a kill, an allocation, a wait, or any code that touches memory only. Steps
  of different harts interleave arbitrarily; the locks in the operations decide which can happen.
\<close>

section \<open>What the operations do to the table\<close>

lemma vm_only_procs:
  assumes "vm_only s s'"
  shows "procs s' = procs s" "nextpid s' = nextpid s" "initproc s' = initproc s" "cur c s' = cur c s"
    "sleeplocks s' = sleeplocks s" "forkret_addr s' = forkret_addr s" "pkstate.more s' = pkstate.more s"
proof -
  have "kstate.more s' = kstate.more s" using assms by (simp add: vm_only_def)
  then show "procs s' = procs s" "nextpid s' = nextpid s" "initproc s' = initproc s"
    "sleeplocks s' = sleeplocks s" "forkret_addr s' = forkret_addr s" "pkstate.more s' = pkstate.more s"
    by (cases s; cases s'; simp)+
  show "cur c s' = cur c s" using assms by (simp add: vm_only_def)
qed

lemma vm_eqs:
  "vm_only s s' \<Longrightarrow> procs s' = procs s \<and> (\<forall>c. cur c s' = cur c s) \<and> initproc s' = initproc s \<and> nextpid s' = nextpid s"
  by (simp add: vm_only_procs)

lemmas vm_table = vm_frame [THEN vm_eqs]

text \<open>An operation that starts and stops no process: it may change states other than \<open>RUNNING\<close>.\<close>

definition keeps_running :: "'a pkstate_scheme \<Rightarrow> 'a pkstate_scheme \<Rightarrow> bool" where
  "keeps_running s s' \<longleftrightarrow> (\<forall>c. cur c s' = cur c s)
     \<and> (\<forall>i. p_state (procs s' i) = RUNNING \<longleftrightarrow> p_state (procs s i) = RUNNING)"

named_theorems run_frame \<open>operations that keep the set of running processes\<close>

lemma keeps_refl [simp, intro!]: "keeps_running s s"
  by (simp add: keeps_running_def)

lemma keeps_trans [trans]: "keeps_running s t \<Longrightarrow> keeps_running t u \<Longrightarrow> keeps_running s u"
  by (simp add: keeps_running_def)

lemma vm_only_keeps: "vm_only s s' \<Longrightarrow> keeps_running s s'"
  by (simp add: keeps_running_def vm_only_procs)

lemmas vm_keeps [run_frame] = vm_frame [THEN vm_only_keeps]

lemma keeps_upd_right:
  "p_state (f (procs t i)) = RUNNING \<longleftrightarrow> p_state (procs t i) = RUNNING \<Longrightarrow>
    keeps_running s (upd_proc i f t) \<longleftrightarrow> keeps_running s t"
  by (auto simp: keeps_running_def upd_proc_def)

lemma keeps_upd_left:
  "p_state (f (procs t i)) = RUNNING \<longleftrightarrow> p_state (procs t i) = RUNNING \<Longrightarrow>
    keeps_running (upd_proc i f t) s \<longleftrightarrow> keeps_running t s"
  by (auto simp: keeps_running_def upd_proc_def)

lemmas keeps_upd = keeps_upd_right keeps_upd_left

lemma myproc_keeps [run_frame]: "myproc c s = Inr (p, s') \<Longrightarrow> keeps_running s s'"
  by (auto simp: myproc_def Let_def keeps_running_def dest: pop_off_cproc)

lemma curproc_keeps [run_frame]: "curproc c s = Inr (p, s') \<Longrightarrow> keeps_running s s'"
  by (auto simp: curproc_def split: option.splits dest: run_frame)

lemma curproc_cur: "curproc c s = Inr (p, s') \<Longrightarrow> cur c s = Some p"
  by (auto simp: curproc_def myproc_def Let_def mycpu_def split: option.splits)

lemma wakeup1_keeps [run_frame]: "wakeup1 c ch i s = Inr s' \<Longrightarrow> keeps_running s s'"
  by (auto simp: wakeup1_def keeps_upd split: if_splits dest!: run_frame intro: keeps_trans)

lemma foldM_keeps:
  assumes "foldM g is s = Inr s'" "\<And>i s s'. g i s = Inr s' \<Longrightarrow> keeps_running s s'"
  shows "keeps_running s s'"
  by (rule foldM_invariant [where P = "keeps_running s", OF assms(1)]) (auto dest: assms(2) intro: keeps_trans)

lemma wakeup_keeps [run_frame]: "wakeup c ch s = Inr s' \<Longrightarrow> keeps_running s s'"
  unfolding wakeup_def by (rule foldM_keeps) (auto dest: run_frame)

lemmas keeps_unfold = keeps_running_def upd_proc_def fun_upd_apply

lemma kill_scan_keeps: "kill_scan c n is s = Inr (r, s') \<Longrightarrow> keeps_running s s'"
proof (induction "is" arbitrary: s)
  case (Cons i xs)
  then show ?case
    by (auto simp: Let_def split: if_splits dest!: Cons.IH vm_table; auto simp: keeps_unfold split: if_splits)
qed simp

lemma kill_keeps [run_frame]: "kill c n s = Inr (r, s') \<Longrightarrow> keeps_running s s'"
  unfolding kill_def by (rule kill_scan_keeps)

lemma killed_keeps [run_frame]: "killed c p s = Inr (r, s') \<Longrightarrow> keeps_running s s'"
  by (auto simp: killed_def Let_def dest!: run_frame intro: keeps_trans)

lemma reparent_keeps [run_frame]: "reparent c p s = Inr s' \<Longrightarrow> keeps_running s s'"
  unfolding reparent_def
  by (rule foldM_keeps) (auto simp: keeps_upd split: if_splits dest!: run_frame)

lemma allocpid_keeps [run_frame]: "allocpid c s = Inr (n, s') \<Longrightarrow> keeps_running s s'"
  by (auto simp: allocpid_def Let_def dest!: run_frame; auto simp: keeps_unfold)

lemma proc_freepagetable_frame [vm_frame]: "proc_freepagetable c pt n s = Inr s' \<Longrightarrow> vm_only s s'"
  by (auto simp: proc_freepagetable_def dest!: vm_frame; meson vm_only_trans)

lemma proc_pagetable_frame [vm_frame]: "proc_pagetable c p s = Inr (r, s') \<Longrightarrow> vm_only s s'"
  by (auto simp: proc_pagetable_def split: if_splits dest!: vm_frame; meson vm_only_trans)

lemmas proc_vm_table = proc_pagetable_frame [THEN vm_eqs] proc_freepagetable_frame [THEN vm_eqs]

lemma freeproc_table:
  assumes "freeproc c p s = Inr s'"
  shows "(\<forall>c. cur c s' = cur c s) \<and> (\<forall>i. i \<noteq> p \<longrightarrow> procs s' i = procs s i) \<and> p_state (procs s' p) = UNUSED
    \<and> p_pid (procs s' p) = 0 \<and> p_parent (procs s' p) = None \<and> p_trapframe (procs s' p) = 0
    \<and> p_pagetable (procs s' p) = 0"
  using assms unfolding freeproc_def
  by (auto simp: Let_def split: if_splits dest!: vm_frame; auto simp: vm_only_procs upd_proc_def)

lemma freeproc_keeps: "freeproc c p s = Inr s' \<Longrightarrow> p_state (procs s p) \<noteq> RUNNING \<Longrightarrow> keeps_running s s'"
  using freeproc_table [of c p s s'] by (auto simp: keeps_running_def; metis procstate.distinct)

lemma allocproc_scan_table:
  "allocproc_scan c is s = Inr (r, s') \<Longrightarrow> procs s' = procs s \<and> nextpid s' = nextpid s \<and> (\<forall>c. cur c s' = cur c s)
    \<and> (\<forall>p. r = Some p \<longrightarrow> p \<in> set is \<and> p_state (procs s p) = UNUSED)
    \<and> (r = None \<longrightarrow> (\<forall>p\<in>set is. p_state (procs s p) \<noteq> UNUSED))"
proof (induction "is" arbitrary: s)
  case (Cons i xs)
  from Cons.prems obtain t where t: "kacquire c (ProcLock i) s = Inr t" by auto
  have e: "procs t = procs s" "nextpid t = nextpid s" "cur c t = cur c s" for c using vm_table(1) [OF t] by auto
  show ?case
  proof (cases "p_state (procs s i) = UNUSED")
    case True
    then show ?thesis using Cons.prems t e by auto
  next
    case False
    then obtain u where u: "krelease c (ProcLock i) t = Inr u" "allocproc_scan c xs u = Inr (r, s')"
      using Cons.prems t e by auto
    have "procs u = procs t" "nextpid u = nextpid t" "cur c u = cur c t" for c using vm_table(2) [OF u(1)] by auto
    then show ?thesis using Cons.IH [OF u(2)] e False by auto
  qed
qed simp

lemma allocproc_fail_table:
  "allocproc_fail c p s = Inr (r, s') \<Longrightarrow> r = None \<and> (\<forall>c. cur c s' = cur c s)
    \<and> (\<forall>i. i \<noteq> p \<longrightarrow> procs s' i = procs s i) \<and> p_state (procs s' p) = UNUSED"
  by (auto simp: allocproc_fail_def dest!: vm_table freeproc_table)

text \<open>
  A slot returned by \<open>allocproc\<close> was unused, has become \<open>USED\<close> with the next pid, and is the only
  one that changed; when it returns 0 no slot is in use that was not before.
\<close>

lemma allocproc_table:
  assumes "allocproc c s = Inr (r, s')"
  shows "(\<forall>c. cur c s' = cur c s) \<and> (case r of
      None \<Rightarrow> (\<forall>i. procs s' i = procs s i \<or> p_state (procs s i) = UNUSED \<and> p_state (procs s' i) = UNUSED)
    | Some p \<Rightarrow> p < NPROC \<and> p_state (procs s p) = UNUSED \<and> p_state (procs s' p) = USED
        \<and> p_pid (procs s' p) = nextpid s \<and> (\<forall>i. i \<noteq> p \<longrightarrow> procs s' i = procs s i))"
proof -
  from assms obtain r1 s1 where sc: "allocproc_scan c [0..<NPROC] s = Inr (r1, s1)"
    by (auto simp: allocproc_def)
  note T = allocproc_scan_table [OF sc]
  show ?thesis
  proof (cases r1)
    case None
    then show ?thesis using assms sc T by (auto simp: allocproc_def)
  next
    case (Some p)
    then show ?thesis
      using assms sc T unfolding allocproc_def
      by (auto simp: Let_def allocpid_def upd_proc_def split: if_splits
          dest!: vm_table proc_vm_table allocproc_fail_table)
  qed
qed

lemma wait_reap_keeps:
  assumes "wait_reap c addr p i s = Inr (r, s')" "p_state (procs s i) = ZOMBIE"
  shows "keeps_running s s'"
proof -
  have "\<exists>t. vm_only s t \<and> ((\<exists>u. krelease c (ProcLock i) t = Inr u \<and> krelease c WaitLock u = Inr s')
      \<or> (\<exists>v u. freeproc c i t = Inr v \<and> krelease c (ProcLock i) v = Inr u \<and> krelease c WaitLock u = Inr s'))"
    using assms(1) unfolding wait_reap_def Let_def
    by (cases "addr = 0") (auto split: if_splits dest: copyout_frame)
  then obtain t where t: "vm_only s t"
    and k: "(\<exists>u. krelease c (ProcLock i) t = Inr u \<and> krelease c WaitLock u = Inr s')
      \<or> (\<exists>v u. freeproc c i t = Inr v \<and> krelease c (ProcLock i) v = Inr u \<and> krelease c WaitLock u = Inr s')"
    by blast
  have "p_state (procs t i) = ZOMBIE" using assms(2) vm_eqs [OF t] by simp
  then have "keeps_running t v" if "freeproc c i t = Inr v" for v
    using freeproc_keeps [OF that] by simp
  then show ?thesis
    using k vm_only_keeps [OF t] krelease_frame [THEN vm_only_keeps] by (meson keeps_trans)
qed

lemma wait_scan_keeps:
  "wait_scan c addr p is hk s = Inr (r, hk', s') \<Longrightarrow> keeps_running s s'"
proof (induction "is" arbitrary: hk s)
  case (Cons i xs)
  show ?case
  proof (cases "p_parent (procs s i) = Some p")
    case True
    from Cons.prems True obtain t where t: "kacquire c (ProcLock i) s = Inr t" by auto
    note kt = vm_only_keeps [OF kacquire_frame [OF t]]
    show ?thesis
    proof (cases "p_state (procs t i) = ZOMBIE")
      case z: True
      then show ?thesis using Cons.prems True t wait_reap_keeps [OF _ z] kt by (auto intro: keeps_trans)
    next
      case z: False
      then show ?thesis using Cons.prems True t kt
        by (auto dest!: krelease_frame [THEN vm_only_keeps] Cons.IH intro: keeps_trans)
    qed
  qed (use Cons in auto)
qed simp

lemma wait_keeps [run_frame]:
  assumes "wait c addr s = Inr (r, s')"
  shows "keeps_running s s'"
proof -
  from assms obtain p s1 s2 v hk s3 where e: "curproc c s = Inr (p, s1)" "kacquire c WaitLock s1 = Inr s2"
    "wait_scan c addr p [0..<NPROC] False s2 = Inr (v, hk, s3)"
    and rest: "(case v of Some v \<Rightarrow> Inr (v, s3)
       | None \<Rightarrow> bnd (if \<not> hk then Inr (1, s3) else killed c p s3) (\<lambda>(k, s).
           if k \<noteq> 0 then bnd (krelease c WaitLock s) (\<lambda>s. Inr (-1, s))
           else sleep c (ProcChan p) WaitLock s)) = Inr (r, s')"
    unfolding wait_def by (auto simp del: wait_scan.simps NPROC_def)
  have k: "keeps_running s s3"
    using curproc_keeps [OF e(1)] kacquire_frame [OF e(2), THEN vm_only_keeps] wait_scan_keeps [OF e(3)]
    by (meson keeps_trans)
  have "keeps_running s3 s'"
  proof (cases v)
    case None
    with rest obtain q s4 where "(if \<not> hk then Inr (1, s3) else killed c p s3) = Inr (q, s4)"
      "q \<noteq> 0" "krelease c WaitLock s4 = Inr s'"
      by (auto simp: sleep_def split: if_splits)
    then show ?thesis
      using killed_keeps [of c p s3 q s4] krelease_frame [THEN vm_only_keeps, of c WaitLock s4 s']
      by (cases hk) (auto intro: keeps_trans)
  qed (use rest in auto)
  with k show ?thesis by (rule keeps_trans)
qed

lemma fork_start_keeps:
  "fork_start c p s = Inr s' \<Longrightarrow> p_state (procs s p) = USED \<Longrightarrow> keeps_running s s'"
  by (auto simp: fork_start_def keeps_unfold dest!: vm_table split: if_splits)

text \<open>Process \<open>p\<close> leaves the running state and nothing else starts or stops.\<close>

definition stops :: "nat \<Rightarrow> 'a pkstate_scheme \<Rightarrow> 'a pkstate_scheme \<Rightarrow> bool" where
  "stops p s s' \<longleftrightarrow> (\<forall>c. cur c s' = cur c s) \<and> p_state (procs s' p) \<noteq> RUNNING
     \<and> (\<forall>i. i \<noteq> p \<longrightarrow> (p_state (procs s' i) = RUNNING \<longleftrightarrow> p_state (procs s i) = RUNNING))"

lemma myproc_table: "myproc c s = Inr (p, s') \<Longrightarrow> procs s' = procs s \<and> (\<forall>c. cur c s' = cur c s)"
  by (auto simp: myproc_def Let_def dest: pop_off_cproc)

lemma curproc_table: "curproc c s = Inr (p, s') \<Longrightarrow> procs s' = procs s \<and> (\<forall>c. cur c s' = cur c s)"
  by (auto simp: curproc_def split: option.splits dest!: myproc_table)

lemma sched_enter_table: "sched_enter c s = Inr s' \<Longrightarrow> procs s' = procs s \<and> (\<forall>c. cur c s' = cur c s)"
  by (auto simp: sched_enter_def split: if_splits dest!: curproc_table)

lemma curproc_full:
  "curproc c s = Inr (p, s') \<Longrightarrow> cur c s = Some p \<and> procs s' = procs s \<and> (\<forall>c. cur c s' = cur c s)"
  using curproc_cur curproc_table by blast

lemma yield_enter_stops: "yield_enter c s = Inr s' \<Longrightarrow> cur c s = Some p \<Longrightarrow> stops p s s'"
  by (auto simp: yield_enter_def stops_def upd_proc_def dest!: curproc_full sched_enter_table vm_table)

lemma sleep_enter_stops: "sleep_enter c ch lk s = Inr s' \<Longrightarrow> cur c s = Some p \<Longrightarrow> stops p s s'"
  by (auto simp: sleep_enter_def stops_def upd_proc_def dest!: curproc_full sched_enter_table vm_table)

lemma exit_tail_stops:
  assumes "exit_tail c p status s = Inr s'"
  shows "stops p s s'"
proof -
  from assms obtain s1 s2 s3 s4 s5 where e: "kacquire c WaitLock s = Inr s1" "reparent c p s1 = Inr s2"
    "wakeup c (map_option ProcChan (p_parent (procs s2 p))) s2 = Inr s3" "kacquire c (ProcLock p) s3 = Inr s4"
    "krelease c WaitLock (upd_proc p (\<lambda>q. q\<lparr>p_xstate := status, p_state := ZOMBIE\<rparr>) s4) = Inr s5"
    "sched_enter c s5 = Inr s'"
    by (auto simp: exit_tail_def Let_def)
  have k: "keeps_running s s4"
    using kacquire_frame [OF e(1), THEN vm_only_keeps] reparent_keeps [OF e(2)] wakeup_keeps [OF e(3)]
      kacquire_frame [OF e(4), THEN vm_only_keeps] by (meson keeps_trans)
  have "procs s5 = (procs s4)(p := (procs s4 p)\<lparr>p_xstate := status, p_state := ZOMBIE\<rparr>)" "\<forall>d. cur d s5 = cur d s4"
    using vm_eqs [OF krelease_frame [OF e(5)]] by (simp_all add: upd_proc_def)
  then show ?thesis
    using k sched_enter_table [OF e(6)] by (simp add: stops_def keeps_running_def)
qed

section \<open>The transition system\<close>

inductive sched_step :: "'a pkstate_scheme \<Rightarrow> 'a pkstate_scheme \<Rightarrow> bool" where
  step_idle: "cur c s = None \<Longrightarrow> i < NPROC \<Longrightarrow> scheduler_switch c i s = Inr (False, s') \<Longrightarrow> sched_step s s'"
| step_run_yielded: "cur c s = None \<Longrightarrow> i < NPROC \<Longrightarrow> scheduler_switch c i s = Inr (True, t) \<Longrightarrow>
    yield_resume c i t = Inr s' \<Longrightarrow> sched_step s s'"
| step_run_slept: "cur c s = None \<Longrightarrow> i < NPROC \<Longrightarrow> scheduler_switch c i s = Inr (True, t) \<Longrightarrow>
    sleep_resume c i lk t = Inr s' \<Longrightarrow> sched_step s s'"
| step_run_new: "cur c s = None \<Longrightarrow> i < NPROC \<Longrightarrow> scheduler_switch c i s = Inr (True, t) \<Longrightarrow>
    krelease c (ProcLock i) t = Inr s' \<Longrightarrow> sched_step s s'"
| step_yield: "cur c s = Some p \<Longrightarrow> yield_enter c s = Inr t \<Longrightarrow> scheduler_return c p t = Inr s' \<Longrightarrow> sched_step s s'"
| step_sleep: "cur c s = Some p \<Longrightarrow> sleep_enter c ch lk s = Inr t \<Longrightarrow> scheduler_return c p t = Inr s' \<Longrightarrow> sched_step s s'"
| step_exit: "cur c s = Some p \<Longrightarrow> exit_tail c p status s = Inr t \<Longrightarrow> scheduler_return c p t = Inr s' \<Longrightarrow> sched_step s s'"
| step_wakeup: "wakeup c ch s = Inr s' \<Longrightarrow> sched_step s s'"
| step_kill: "kill c n s = Inr (r, s') \<Longrightarrow> sched_step s s'"
| step_wait: "wait c addr s = Inr (r, s') \<Longrightarrow> sched_step s s'"
| step_alloc: "allocproc c s = Inr (Some p, t) \<Longrightarrow> krelease c (ProcLock p) t = Inr s' \<Longrightarrow> sched_step s s'"
| step_alloc_fail: "allocproc c s = Inr (None, s') \<Longrightarrow> sched_step s s'"
| step_start: "p_state (procs s p) = USED \<Longrightarrow> fork_start c p s = Inr s' \<Longrightarrow> sched_step s s'"
| step_memory: "vm_only s s' \<Longrightarrow> sched_step s s'"

definition sched_init :: "'a pkstate_scheme \<Rightarrow> bool" where
  "sched_init s \<longleftrightarrow> (\<forall>c. cur c s = None) \<and> (\<forall>i. p_state (procs s i) \<noteq> RUNNING)"

text \<open>A process is running iff exactly one hart runs it.\<close>

definition run_inv :: "'a pkstate_scheme \<Rightarrow> bool" where
  "run_inv s \<longleftrightarrow> (\<forall>c p. cur c s = Some p \<longrightarrow> p_state (procs s p) = RUNNING)
     \<and> (\<forall>c d p. cur c s = Some p \<longrightarrow> cur d s = Some p \<longrightarrow> c = d)
     \<and> (\<forall>p. p_state (procs s p) = RUNNING \<longrightarrow> (\<exists>c. cur c s = Some p))"

lemma run_inv_keeps: "run_inv s \<Longrightarrow> keeps_running s s' \<Longrightarrow> run_inv s'"
  by (simp add: run_inv_def keeps_running_def)

lemma scheduler_return_table:
  assumes "scheduler_return c p s = Inr s'"
  shows "procs s' = procs s" "cur d s' = (if d = c then None else cur d s)"
proof -
  let ?t = "s\<lparr>mach := set_cpu c ((mycpu c (mach s))\<lparr>cproc := None\<rparr>) (mach s)\<rparr>"
  have v: "vm_only ?t s'" using assms unfolding scheduler_return_def by (rule krelease_frame)
  then show "procs s' = procs s" by (simp add: vm_only_procs)
  have "cur d s' = cur d ?t" using v by (simp add: vm_only_def)
  then show "cur d s' = (if d = c then None else cur d s)" by (simp add: set_cpu_def)
qed

lemma run_inv_stop:
  assumes "run_inv s" "cur c s = Some p" "stops p s t" "scheduler_return c p t = Inr s'"
  shows "run_inv s'"
proof -
  have u: "cur d s = Some p \<longleftrightarrow> d = c" for d using assms(1,2) by (auto simp: run_inv_def)
  have c: "cur d s' = (if d = c then None else cur d s)" for d
    using scheduler_return_table(2) [OF assms(4)] assms(3) by (simp add: stops_def)
  have r: "p_state (procs s' i) = RUNNING \<longleftrightarrow> i \<noteq> p \<and> p_state (procs s i) = RUNNING" for i
    using scheduler_return_table(1) [OF assms(4)] assms(3) by (auto simp: stops_def)
  have ex: "\<exists>d. cur d s' = Some q" if "p_state (procs s' q) = RUNNING" for q
  proof -
    have q: "q \<noteq> p" "p_state (procs s q) = RUNNING" using that r by auto
    then obtain d where d: "cur d s = Some q" using assms(1) unfolding run_inv_def by blast
    then have "d \<noteq> c" using assms(2) q(1) by auto
    then show ?thesis using d c by auto
  qed
  have "p_state (procs s' q) = RUNNING" if "cur d s' = Some q" for d q
    using that c r u [of d] assms(1) by (auto simp: run_inv_def split: if_splits)
  moreover have "d = e" if "cur d s' = Some q" "cur e s' = Some q" for d e q
    using that c assms(1) by (auto simp: run_inv_def split: if_splits)
  ultimately show ?thesis using ex unfolding run_inv_def by blast
qed

lemma scheduler_switch_table:
  assumes "scheduler_switch c i s = Inr (True, s')"
  shows "p_state (procs s i) = RUNNABLE" "procs s' = (procs s)(i := (procs s i)\<lparr>p_state := RUNNING\<rparr>)"
    "cur d s' = (if d = c then Some i else cur d s)"
  using assms by (auto simp: scheduler_switch_def Let_def upd_proc_def set_cpu_def mycpu_def
      split: if_splits dest!: vm_table)

lemma run_inv_switch:
  assumes "run_inv s" "cur c s = None" "scheduler_switch c i s = Inr (True, s')"
  shows "run_inv s'"
proof -
  note T = scheduler_switch_table [OF assms(3)]
  have "cur d s \<noteq> Some i" for d using assms(1) T(1) by (auto simp: run_inv_def)
  moreover have "\<exists>d. cur d s' = Some q" if r: "p_state (procs s' q) = RUNNING" for q
  proof (cases "q = i")
    case False
    then obtain d where "cur d s = Some q" using r T(2) assms(1) by (auto simp: run_inv_def)
    then show ?thesis using T(3) assms(2) by (intro exI [of _ d]) auto
  qed (use T(3) in auto)
  ultimately show ?thesis using assms(1,2) T by (simp add: run_inv_def) metis
qed

lemma switch_false_keeps: "scheduler_switch c i s = Inr (False, s') \<Longrightarrow> keeps_running s s'"
  by (auto simp: scheduler_switch_def Let_def split: if_splits dest!: run_frame intro: keeps_trans)

lemma sched_resume_keeps: "keeps_running s (sched_resume c p s)"
  by (simp add: keeps_running_def sched_resume_def set_cpu_def mycpu_def)

lemma yield_resume_keeps: "yield_resume c p s = Inr s' \<Longrightarrow> keeps_running s s'"
  unfolding yield_resume_def
  using sched_resume_keeps [of s c p] by (auto dest!: run_frame intro: keeps_trans)

lemma sleep_resume_keeps: "sleep_resume c p lk s = Inr s' \<Longrightarrow> keeps_running s s'"
  unfolding sleep_resume_def
  using sched_resume_keeps [of s c p] by (auto simp: keeps_upd dest!: run_frame; meson keeps_trans keeps_upd)

lemma alloc_keeps: "allocproc c s = Inr (r, s') \<Longrightarrow> keeps_running s s'"
  using allocproc_table [of c s r s'] by (auto simp: keeps_running_def split: option.splits; metis procstate.distinct)

lemma run_inv_step: "sched_step s s' \<Longrightarrow> run_inv s \<Longrightarrow> run_inv s'"
proof (induction rule: sched_step.induct)
  case (step_run_yielded c s i t s')
  then show ?case using run_inv_switch run_inv_keeps yield_resume_keeps by blast
next
  case (step_run_slept c s i t lk s')
  then show ?case using run_inv_switch run_inv_keeps sleep_resume_keeps by blast
next
  case (step_run_new c s i t s')
  then show ?case using run_inv_switch run_inv_keeps krelease_frame vm_only_keeps by blast
next
  case (step_alloc c s p t s')
  then show ?case using run_inv_keeps alloc_keeps krelease_frame vm_only_keeps by blast
qed (blast intro: run_inv_keeps run_inv_stop switch_false_keeps yield_enter_stops sleep_enter_stops
    exit_tail_stops wakeup_keeps kill_keeps wait_keeps alloc_keeps fork_start_keeps vm_only_keeps)+

lemma run_inv_init: "sched_init s \<Longrightarrow> run_inv s"
  by (simp add: sched_init_def run_inv_def)

interpretation sched: inv_system sched_init sched_step run_inv
  by unfold_locales (blast intro: run_inv_init run_inv_step)+

section \<open>Entering the scheduler does not panic\<close>

lemma crit_noff: "0 < noff (cpus m c) \<Longrightarrow> crit c m = m"
  by (simp add: crit_def)

lemma noff_taken: "noff (cpus (taken c l m) c) = noff (cpus m c) + 1"
  by (simp add: noff_push_off)

lemma sched_enter_eq:
  assumes "mach s = taken c (ProcLock p) m" "cpu_ok c m" "noff (cpus m c) = 0" "cur c s = Some p"
    "p_state (procs s p) \<noteq> RUNNING"
  shows "sched_enter c s = Inr (s\<lparr>sched_intena := (sched_intena s)(p := intena (cpus (mach s) c))\<rparr>)"
proof -
  have ok: "cpu_ok c (mach s)" using assms by simp
  have n: "noff (cpus (mach s) c) = 1" using assms(1,3) by (simp add: noff_push_off)
  then have cm: "calm c s = s" by (simp add: crit_noff)
  have "holding c (ProcLock p) (mach s)" using assms(1) by simp
  moreover have "\<not> intr_get (sstatus (mach s) c)" using ok n by (simp add: cpu_ok_def)
  ultimately show ?thesis
    using curproc_eq [OF ok assms(4)] cm n assms(5) by (simp add: sched_enter_def mycpu_def)
qed

text \<open>
  \<open>sleep()\<close> up to its \<open>swtch\<close>: the caller's lock is free again and the process is asleep on the
  channel with its own lock held, which the scheduler then releases.
\<close>

lemma sleep_enter_eq:
  fixes s :: "'a pkstate_scheme" and ch :: chan
  assumes m: "mach s = taken c lk m" and ok: "cpu_ok c m" "noff (cpus m c) = 0"
    and fr: "lock_free lk m" "lock_free (ProcLock p) m" "lk \<noteq> ProcLock p" and p: "cur c s = Some p"
  defines "t \<equiv> upd_proc p (\<lambda>q. q\<lparr>p_chan := Some ch, p_state := SLEEPING\<rparr>) (s\<lparr>mach := taken c (ProcLock p) m\<rparr>)"
  shows "sleep_enter c ch lk s = Inr (t\<lparr>sched_intena := (sched_intena s)(p := intena (cpus (taken c (ProcLock p) m) c))\<rparr>)"
proof -
  have okm: "cpu_ok c (mach s)" using ok m by simp
  have cp: "curproc c s = Inr (p, s)"
    using curproc_eq [OF okm p] ok(2) m by (simp add: crit_noff noff_push_off)
  have fp: "lock_free (ProcLock p) (mach s)" using m fr by simp
  have rl: "krelease c lk (s\<lparr>mach := taken c (ProcLock p) (mach s)\<rparr>) = Inr (s\<lparr>mach := taken c (ProcLock p) m\<rparr>)"
    using krelease_outer [of "s\<lparr>mach := taken c (ProcLock p) (mach s)\<rparr>" c "ProcLock p" lk m] m ok(1) fr by simp
  have "cur c t = Some p" using p m by (simp add: t_def upd_proc_def)
  then have "sched_enter c t = Inr (t\<lparr>sched_intena := (sched_intena t)(p := intena (cpus (mach t) c))\<rparr>)"
    using ok by (intro sched_enter_eq [where m = m]) (simp_all add: t_def upd_proc_def)
  then show ?thesis
    using cp kacquire_free [OF fp] rl by (simp add: sleep_enter_def t_def upd_proc_def)
qed

lemma yield_enter_eq:
  assumes ok: "cpu_ok c (mach s)" "noff (cpus (mach s) c) = 0" "lock_free (ProcLock p) (mach s)"
    and p: "cur c s = Some p"
  defines "t \<equiv> upd_proc p (\<lambda>q. q\<lparr>p_state := RUNNABLE\<rparr>) (s\<lparr>mach := taken c (ProcLock p) (mach s)\<rparr>)"
  shows "yield_enter c s = Inr (t\<lparr>sched_intena := (sched_intena s)(p := intena (cpus (mach t) c))\<rparr>)"
proof -
  have "cur c t = Some p" using p by (simp add: t_def upd_proc_def)
  then have "sched_enter c t = Inr (t\<lparr>sched_intena := (sched_intena t)(p := intena (cpus (mach t) c))\<rparr>)"
    using ok by (intro sched_enter_eq [where m = "mach s"]) (simp_all add: t_def upd_proc_def)
  then show ?thesis
    using curproc_eq [OF ok(1) p] ok by (simp add: yield_enter_def t_def upd_proc_def)
qed

lemma set_cproc_taken:
  "set_cpu c ((cpus (taken c l m) c)\<lparr>cproc := v\<rparr>) (taken c l m)
    = taken c l (set_cpu c ((cpus m c)\<lparr>cproc := v\<rparr>) m)"
  by (cases "cpus m c", rule machine.equality) (simp_all add: taken_def push_off_def machine_defs)

lemma set_cpu_simps [simp]:
  "lock_free l (set_cpu c x m) \<longleftrightarrow> lock_free l m" "cpus (set_cpu c x m) d = (if d = c then x else cpus m d)"
  by (simp_all add: lock_free_def set_cpu_def)

lemma scheduler_return_eq:
  assumes "mach s = taken c (ProcLock p) m" "cpu_ok c m" "lock_free (ProcLock p) m"
  shows "scheduler_return c p s
    = Inr (s\<lparr>mach := crit c (set_cpu c ((cpus m c)\<lparr>cproc := None\<rparr>) m)\<rparr>)"
proof -
  let ?m = "set_cpu c ((cpus m c)\<lparr>cproc := None\<rparr>) m"
  have "cpu_ok c ?m" "lock_free (ProcLock p) ?m" using assms by (simp_all add: cpu_ok_def lock_free_def set_cpu_def)
  then show ?thesis
    using krelease_taken [of "s\<lparr>mach := taken c (ProcLock p) ?m\<rparr>" c "ProcLock p" ?m] assms(1)
    by (simp add: scheduler_return_def mycpu_def set_cproc_taken [simplified])
qed

section \<open>Correctness of scheduling\<close>

text \<open>A table with one runnable process, for the examples below.\<close>

definition demo_proc :: "procstate \<Rightarrow> int \<Rightarrow> chan option \<Rightarrow> proc" where
  "demo_proc st n ch = \<lparr>p_state = st, p_chan = ch, p_killed = 0, p_xstate = 0, p_pid = n, p_parent = None,
     p_kstack = 0, p_sz = 0, p_pagetable = 0, p_trapframe = 0,
     p_context = \<lparr>c_ra = 0, c_sp = 0, c_s = (\<lambda>_. 0)\<rparr>, p_ofile = (\<lambda>_. None), p_cwd = None,
     p_name = replicate 16 0\<rparr>"

definition demo_pk :: "(nat \<Rightarrow> proc) \<Rightarrow> machine \<Rightarrow> pkstate" where
  "demo_pk ps m = \<lparr>mach = m, mem = (\<lambda>_. 0), freelist = 0, kend = 0x80022000, etext = 0x80008000,
     trampoline = 0x80007000, procs = ps, nextpid = 2, initproc = Some 0, forkret_addr = 0x80001000,
     sleeplocks = (\<lambda>_. \<lparr>sl_locked = 0, sl_name = [], sl_pid = 0\<rparr>), sched_intena = (\<lambda>_. True)\<rparr>"

definition demo_table :: "nat \<Rightarrow> proc" where
  "demo_table i = (if i = 1 then demo_proc RUNNABLE 7 None
     else if i = 2 then demo_proc SLEEPING 8 (Some TicksChan)
     else if i = 3 then demo_proc SLEEPING 9 (Some LogChan) else demo_proc UNUSED 0 None)"

lemma demo_pk_fields [simp]:
  "mach (demo_pk ps m) = m" "procs (demo_pk ps m) = ps" "initproc (demo_pk ps m) = Some 0"
  "nextpid (demo_pk ps m) = 2"
  by (simp_all add: demo_pk_def)

lemma demo_proc_fields [simp]:
  "p_state (demo_proc st n ch) = st" "p_pid (demo_proc st n ch) = n" "p_chan (demo_proc st n ch) = ch"
  "p_killed (demo_proc st n ch) = 0" "p_parent (demo_proc st n ch) = None"
  by (simp_all add: demo_proc_def)



text \<open>
  C22. \<open>wakeup(chan)\<close>, called without any process lock held, makes every process other than the
  caller's that sleeps on \<open>chan\<close> runnable, and changes nothing else in the process table.
\<close>

theorem wakeup_correct:
  assumes "cpu_ok c (mach s)" and "\<forall>i<NPROC. lock_free (ProcLock i) (mach s)"
  shows "\<exists>s'. wakeup c ch s = Inr s' \<and> mem s' = mem s \<and> locks (mach s') = locks (mach s)
    \<and> (\<forall>i. procs s' i = (if i < NPROC \<and> cur c s \<noteq> Some i \<and> p_state (procs s i) = SLEEPING
          \<and> p_chan (procs s i) = ch then (procs s i)\<lparr>p_state := RUNNABLE\<rparr> else procs s i))"
proof -
  have "quiet c proc_locks s" using assms by (auto simp: quiet_def)
  from wakeup_eq [OF this, of ch] show ?thesis by (auto simp: wake_def)
qed

theorem wakeup_correct_witness:
  "\<exists>s'. wakeup 0 (Some TicksChan) (demo_pk demo_table demo_machine) = Inr s'
    \<and> p_state (procs s' 2) = RUNNABLE \<and> p_state (procs s' 3) = SLEEPING"
  using wakeup_correct [of 0 "demo_pk demo_table demo_machine" "Some TicksChan"] demo_machine_ok
  by (auto simp: demo_table_def demo_machine_def)

text \<open>
  C23. \<open>sleep(chan, lk)\<close> of a running process that holds only \<open>lk\<close> passes every check of \<open>sched()\<close>.
  At the switch the process is \<open>SLEEPING\<close> on \<open>chan\<close>, \<open>lk\<close> is free, and the process lock is held; the
  scheduler then runs no process on the hart and has released the process lock.
\<close>

theorem sleep_correct:
  assumes "mach s = taken c lk m" and "cpu_ok c m" and "noff (cpus m c) = 0" and "lock_free lk m"
    and "lock_free (ProcLock p) m" and "lk \<noteq> ProcLock p" and "cur c s = Some p"
  shows "\<exists>t s'. sleep_enter c ch lk s = Inr t \<and> lock_free lk (mach t) \<and> holding c (ProcLock p) (mach t)
    \<and> p_state (procs t p) = SLEEPING \<and> p_chan (procs t p) = Some ch
    \<and> scheduler_return c p t = Inr s' \<and> cur c s' = None \<and> lock_free (ProcLock p) (mach s')
    \<and> procs s' = procs t \<and> (\<forall>i. i \<noteq> p \<longrightarrow> procs s' i = procs s i)"
proof -
  note e = sleep_enter_eq [OF assms, of ch]
  let ?t = "(upd_proc p (\<lambda>q. q\<lparr>p_chan := Some ch, p_state := SLEEPING\<rparr>) (s\<lparr>mach := taken c (ProcLock p) m\<rparr>))
    \<lparr>sched_intena := (sched_intena s)(p := intena (cpus (taken c (ProcLock p) m) c))\<rparr>"
  have m: "mach ?t = taken c (ProcLock p) m" by (simp add: upd_proc_def)
  show ?thesis
    using e scheduler_return_eq [OF m assms(2,5)] assms m
    by - (rule exI [of _ ?t], simp add: upd_proc_def)
qed

theorem sleep_correct_witness:
  "\<exists>t. sleep_enter 0 TicksChan TicksLock
      (demo_pk demo_table (taken 0 TicksLock (demo_machine\<lparr>cpus := (\<lambda>_. \<lparr>cproc = Some 1, noff = 0, intena = True\<rparr>)\<rparr>)))
      = Inr t \<and> p_state (procs t 1) = SLEEPING \<and> lock_free TicksLock (mach t)"
  using sleep_correct [of "demo_pk demo_table (taken 0 TicksLock (demo_machine\<lparr>cpus := (\<lambda>_. \<lparr>cproc = Some 1, noff = 0, intena = True\<rparr>)\<rparr>))"
      0 TicksLock "demo_machine\<lparr>cpus := (\<lambda>_. \<lparr>cproc = Some 1, noff = 0, intena = True\<rparr>)\<rparr>" 1 TicksChan]
    demo_machine_ok
  by (auto simp: cpu_ok_def lock_free_def)

end
