(* ===== verification/Uart.thy ===== *)
theory Uart
  imports Ring Sched
begin

text \<open>
  The driver of the 16550a UART, \<open>kernel/uart.c\<close>. The device is what the driver sees of it: the bytes
  waiting in the receive register, the successive values of the transmit-idle bit that reads of the
  line status register return, and the log of register writes. The state of the console, of the kernel's
  \<open>printf\<close> and the clock ticks are in the same record; \<open>devsw\<close> says which major device numbers have a driver.
\<close>

section \<open>State of the console devices\<close>

record uart_dev =
  rx :: "uchar list"
  tx_idle :: "bool list"
  reg_log :: "(nat \<times> uchar) list"

record console =
  cons_buf :: "uchar list"
  cons_r :: uint
  cons_w :: uint
  cons_e :: uint

record dkstate = pkstate +
  panicked :: bool
  dev :: uart_dev
  uart_tx_buf :: "uchar list"
  uart_tx_w :: uint64
  uart_tx_r :: uint64
  pr_locking :: bool
  cons :: console
  devsw :: "nat \<Rightarrow> bool"
  ticks :: uint

definition RHR :: nat where [simp]: "RHR = 0"
definition THR :: nat where [simp]: "THR = 0"
definition IER :: nat where [simp]: "IER = 1"
definition IER_RX_ENABLE :: uchar where [simp]: "IER_RX_ENABLE = push_bit 0 1"
definition IER_TX_ENABLE :: uchar where [simp]: "IER_TX_ENABLE = push_bit 1 1"
definition FCR :: nat where [simp]: "FCR = 2"
definition FCR_FIFO_ENABLE :: uchar where [simp]: "FCR_FIFO_ENABLE = push_bit 0 1"
definition FCR_FIFO_CLEAR :: uchar where [simp]: "FCR_FIFO_CLEAR = push_bit 1 3"
definition LCR :: nat where [simp]: "LCR = 3"
definition LCR_EIGHT_BITS :: uchar where [simp]: "LCR_EIGHT_BITS = push_bit 0 3"
definition LCR_BAUD_LATCH :: uchar where [simp]: "LCR_BAUD_LATCH = push_bit 7 1"
definition UART_TX_BUF_SIZE :: uint64 where [simp]: "UART_TX_BUF_SIZE = 32"

definition WriteReg :: "nat \<Rightarrow> uchar \<Rightarrow> 'a dkstate_scheme \<Rightarrow> 'a dkstate_scheme" where
  "WriteReg reg v s = s\<lparr>dev := (dev s)\<lparr>reg_log := reg_log (dev s) @ [(reg, v)]\<rparr>\<rparr>"

text \<open>One read of \<open>LSR\<close>, for its transmit-idle bit.\<close>

definition lsr_tx_idle :: "'a dkstate_scheme \<Rightarrow> bool \<times> 'a dkstate_scheme" where
  "lsr_tx_idle s = (case tx_idle (dev s) of
       [] \<Rightarrow> (False, s)
     | b # bs \<Rightarrow> (b, s\<lparr>dev := (dev s)\<lparr>tx_idle := bs\<rparr>\<rparr>))"

section \<open>The driver\<close>

definition uartinit :: "'a dkstate_scheme \<Rightarrow> 'a dkstate_scheme" where
  "uartinit s =
     (let s = WriteReg IER 0 s;
          s = WriteReg LCR LCR_BAUD_LATCH s;
          s = WriteReg 0 0x03 s;
          s = WriteReg 1 0x00 s;
          s = WriteReg LCR LCR_EIGHT_BITS s;
          s = WriteReg FCR (or FCR_FIFO_ENABLE FCR_FIFO_CLEAR) s;
          s = WriteReg IER (or IER_TX_ENABLE IER_RX_ENABLE) s
      in s\<lparr>mach := initlock UartTxLock ''uart'' (mach s)\<rparr>)"

fun uartstart_loop :: "nat \<Rightarrow> nat \<Rightarrow> 'a dkstate_scheme \<Rightarrow> 'a dkstate_scheme kres" where
  "uartstart_loop c 0 s = Inl (Spin ''uartstart'')"
| "uartstart_loop c (Suc n) s =
     (if uart_tx_w s = uart_tx_r s then Inr s
      else case lsr_tx_idle s of (idle, s) \<Rightarrow>
        if \<not> idle then Inr s
        else let ch = uart_tx_buf s ! unat (uart_tx_r s mod UART_TX_BUF_SIZE);
                 s = s\<lparr>uart_tx_r := uart_tx_r s + 1\<rparr>
             in bnd (wakeup c (Some UartChan) s) (\<lambda>s. uartstart_loop c n (WriteReg THR ch s)))"

definition uartstart :: "nat \<Rightarrow> 'a dkstate_scheme \<Rightarrow> 'a dkstate_scheme kres" where
  "uartstart c s = uartstart_loop c (Suc (unat (uart_tx_w s - uart_tx_r s))) s"

definition uartputc :: "nat \<Rightarrow> uchar \<Rightarrow> 'a dkstate_scheme \<Rightarrow> 'a dkstate_scheme kres" where
  "uartputc c ch s =
     bnd (kacquire c UartTxLock s) (\<lambda>s.
       if panicked s then Inl (Spin ''uartputc'')
       else if uart_tx_w s = uart_tx_r s + UART_TX_BUF_SIZE then sleep c UartChan UartTxLock s
       else let s = s\<lparr>uart_tx_buf := (uart_tx_buf s)[unat (uart_tx_w s mod UART_TX_BUF_SIZE) := ch]\<rparr>;
                s = s\<lparr>uart_tx_w := uart_tx_w s + 1\<rparr>
            in bnd (uartstart c s) (krelease c UartTxLock))"

text \<open>\<open>uartputc_sync\<close> reads \<open>LSR\<close> until the transmitter is idle.\<close>

definition uartputc_sync :: "nat \<Rightarrow> uchar \<Rightarrow> 'a dkstate_scheme \<Rightarrow> 'a dkstate_scheme kres" where
  "uartputc_sync c ch s =
     (let s = s\<lparr>mach := push_off c (mach s)\<rparr>
      in if panicked s then Inl (Spin ''uartputc_sync'')
         else case dropWhile Not (tx_idle (dev s)) of
             [] \<Rightarrow> Inl (Spin ''uartputc_sync'')
           | _ # bs \<Rightarrow>
               let s = WriteReg THR ch (s\<lparr>dev := (dev s)\<lparr>tx_idle := bs\<rparr>\<rparr>)
               in bnd (pop_off c (mach s)) (\<lambda>m. Inr (s\<lparr>mach := m\<rparr>)))"

definition uartgetc :: "'a dkstate_scheme \<Rightarrow> int \<times> 'a dkstate_scheme" where
  "uartgetc s = (case rx (dev s) of
       [] \<Rightarrow> (-1, s)
     | b # bs \<Rightarrow> (uint b, s\<lparr>dev := (dev s)\<lparr>rx := bs\<rparr>\<rparr>))"

section \<open>The transmit queue\<close>

interpretation uart_ring: ring UART_TX_BUF_SIZE
  by unfold_locales simp_all

text \<open>The bytes given to the transmitter so far, and those still queued.\<close>

definition sent :: "'a dkstate_scheme \<Rightarrow> uchar list" where
  "sent s = map snd (filter (\<lambda>(r, v). r = THR) (reg_log (dev s)))"

definition txq :: "'a dkstate_scheme \<Rightarrow> uchar list" where
  "txq s = ring_q UART_TX_BUF_SIZE (uart_tx_buf s) (uart_tx_r s) (uart_tx_w s)"

definition uart_ok :: "'a dkstate_scheme \<Rightarrow> bool" where
  "uart_ok s \<longleftrightarrow> length (uart_tx_buf s) = 32 \<and> unat (uart_tx_w s - uart_tx_r s) \<le> 32"

lemma upd_table_dk [simp]:
  "panicked (upd_table I f s) = panicked s" "dev (upd_table I f s) = dev s"
  "uart_tx_buf (upd_table I f s) = uart_tx_buf s" "uart_tx_w (upd_table I f s) = uart_tx_w s"
  "uart_tx_r (upd_table I f s) = uart_tx_r s" "cons (upd_table I f s) = cons s"
  by (simp_all add: upd_table_def)

lemma uartstart_loop_ok:
  fixes s :: "'a dkstate_scheme"
  assumes "quiet c proc_locks s" "uart_ok s" "unat (uart_tx_w s - uart_tx_r s) < n"
  shows "\<exists>s'. uartstart_loop c n s = Inr s' \<and> uart_ok s' \<and> sent s' @ txq s' = sent s @ txq s
    \<and> (mach s' = mach s \<or> mach s' = crit c (mach s))"
  using assms
proof (induction n arbitrary: s)
  case (Suc n)
  show ?case
  proof (cases "uart_tx_w s = uart_tx_r s \<or> \<not> fst (lsr_tx_idle s)")
    case True
    then show ?thesis using Suc.prems
      by (auto simp: lsr_tx_idle_def uart_ok_def sent_def txq_def split: list.splits)
  next
    case False
    obtain bs where i: "tx_idle (dev s) = True # bs" and ne: "uart_tx_w s \<noteq> uart_tx_r s"
      using False by (auto simp: lsr_tx_idle_def split: list.splits)
    define t where "t = s\<lparr>dev := (dev s)\<lparr>tx_idle := bs\<rparr>, uart_tx_r := uart_tx_r s + 1\<rparr>"
    define u where "u = WriteReg THR (uart_tx_buf s ! unat (uart_tx_r s mod 32))
      (calm c (upd_table {..<NPROC} (wake (Some UartChan) (cur c s)) t))"
    have q: "quiet c proc_locks t" using Suc.prems(1) by (simp add: t_def quiet_def)
    have loop: "uartstart_loop c (Suc n) s = uartstart_loop c n u"
      using ne i wakeup_eq [OF q, of "Some UartChan"]
      by (simp add: lsr_tx_idle_def Let_def u_def t_def)
    have d: "unat (uart_tx_w s - uart_tx_r s) = Suc (unat (uart_tx_w s - (uart_tx_r s + 1)))"
      using ne by (rule unat_Suc_diff)
    have "quiet c proc_locks u" "uart_ok u" "unat (uart_tx_w u - uart_tx_r u) < n"
      using Suc.prems d by (simp_all add: u_def t_def WriteReg_def quiet_def uart_ok_def)
    then obtain s' where s': "uartstart_loop c n u = Inr s'" "uart_ok s'"
      "sent s' @ txq s' = sent u @ txq u" "mach s' = mach u \<or> mach s' = crit c (mach u)"
      using Suc.IH by blast
    have "sent u @ txq u = sent s @ txq s"
      using uart_ring.pop [OF ne, of "uart_tx_buf s"]
      by (simp add: u_def t_def WriteReg_def sent_def txq_def)
    moreover have "mach u = crit c (mach s)" by (simp add: u_def t_def WriteReg_def)
    ultimately show ?thesis using s' loop by auto
  qed
qed simp

lemma uartstart_ok:
  assumes "quiet c proc_locks s" "uart_ok s"
  shows "\<exists>s'. uartstart c s = Inr s' \<and> uart_ok s' \<and> sent s' @ txq s' = sent s @ txq s
    \<and> (mach s' = mach s \<or> mach s' = crit c (mach s))"
  unfolding uartstart_def by (rule uartstart_loop_ok) (use assms in simp_all)

lemma uartputc_ok:
  assumes "quiet c (insert UartTxLock proc_locks) s" "uart_ok s" "\<not> panicked s" "length (txq s) < 32"
  shows "\<exists>s'. uartputc c ch s = Inr s' \<and> uart_ok s' \<and> sent s' @ txq s' = sent s @ txq s @ [ch]
    \<and> mach s' = crit c (mach s)"
proof -
  let ?b = "(uart_tx_buf s)[unat (uart_tx_w s mod 32) := ch]"
  define t where "t = s\<lparr>mach := taken c UartTxLock (mach s), uart_tx_buf := ?b, uart_tx_w := uart_tx_w s + 1\<rparr>"
  have c: "cpu_ok c (mach s)" and f: "lock_free UartTxLock (mach s)"
    using assms(1) by (simp_all add: quiet_def)
  have l: "unat (uart_tx_w s - uart_tx_r s) < 32" using assms(4) by (simp add: txq_def)
  then have nf: "uart_tx_w s \<noteq> uart_tx_r s + 32" by auto
  have n1: "unat (uart_tx_w s + 1 - uart_tx_r s) = Suc (unat (uart_tx_w s - uart_tx_r s))"
    using unat_diff_Suc [of "uart_tx_w s" "uart_tx_r s" 32] l by simp
  have "quiet c proc_locks t" using assms(1) by (auto simp: t_def quiet_def)
  moreover have "uart_ok t" using assms(2) l n1 by (simp add: uart_ok_def t_def)
  ultimately obtain s' where s': "uartstart c t = Inr s'" "uart_ok s'" "sent s' @ txq s' = sent t @ txq t"
    "mach s' = mach t \<or> mach s' = crit c (mach t)" using uartstart_ok by blast
  have m: "mach s' = taken c UartTxLock (mach s)" using s'(4) c by (auto simp: t_def)
  have "sent t @ txq t = sent s @ txq s @ [ch]"
    using uart_ring.push [of "uart_tx_buf s" "uart_tx_w s" "uart_tx_r s" ch] assms(2) l
    by (simp add: t_def sent_def txq_def uart_ok_def)
  moreover have "uartputc c ch s = Inr (s'\<lparr>mach := crit c (mach s)\<rparr>)"
    using s'(1) nf assms(3) f krelease_taken [OF m c f]
    by (simp add: uartputc_def Let_def t_def)
  ultimately show ?thesis using s' by (simp add: uart_ok_def sent_def txq_def)
qed

section \<open>Correctness\<close>

definition demo_dk :: "bool list \<Rightarrow> uchar list \<Rightarrow> (nat \<Rightarrow> proc) \<Rightarrow> machine \<Rightarrow> dkstate" where
  "demo_dk idle inp ps m = pkstate.extend (demo_pk ps m)
     \<lparr>panicked = False, dev = \<lparr>rx = inp, tx_idle = idle, reg_log = []\<rparr>, uart_tx_buf = replicate 32 0,
      uart_tx_w = 0, uart_tx_r = 0, pr_locking = True,
      cons = \<lparr>cons_buf = replicate 128 0, cons_r = 0, cons_w = 0, cons_e = 0\<rparr>, devsw = (\<lambda>_. False), ticks = 0\<rparr>"

lemma demo_dk_fields [simp]:
  "mach (demo_dk i inp ps m) = m" "procs (demo_dk i inp ps m) = ps" "panicked (demo_dk i inp ps m) = False"
  "dev (demo_dk i inp ps m) = \<lparr>rx = inp, tx_idle = i, reg_log = []\<rparr>"
  "uart_tx_buf (demo_dk i inp ps m) = replicate 32 0" "uart_tx_w (demo_dk i inp ps m) = 0"
  "uart_tx_r (demo_dk i inp ps m) = 0" "pr_locking (demo_dk i inp ps m) = True"
  "cons (demo_dk i inp ps m) = \<lparr>cons_buf = replicate 128 0, cons_r = 0, cons_w = 0, cons_e = 0\<rparr>"
  by (simp_all add: demo_dk_def pkstate.defs demo_pk_def)



end
