(* ===== verification/Kprintf.thy ===== *)
theory Kprintf
  imports Uart
begin

text \<open>
  Formatted output of the kernel, \<open>kernel/printf.c\<close>, on the synchronous console output
  \<open>consputc()\<close> of \<open>kernel/console.c\<close>.
\<close>

section \<open>Formatting\<close>

definition chr :: "char \<Rightarrow> uchar" where
  "chr ch = of_char ch"

definition cstr :: "string \<Rightarrow> uchar list" where
  "cstr = map chr"

definition digits :: "uchar list" where
  "digits = cstr ''0123456789abcdef''"

text \<open>
  The \<open>do\<close> loop of \<open>printint()\<close>, least significant digit first; \<open>room\<close> is what is left of the 16-byte
  buffer.
\<close>

fun digit_loop :: "uchar list \<Rightarrow> nat \<Rightarrow> uint \<Rightarrow> uint \<Rightarrow> uchar list kres" where
  "digit_loop ds 0 x base = Inl (Undefined ''buffer overflow'')"
| "digit_loop ds (Suc room) x base =
     (let d = ds ! unat (x mod base); x = x div base
      in if x \<noteq> 0 then bnd (digit_loop ds room x base) (\<lambda>rest. Inr (d # rest)) else Inr [d])"

definition printint :: "uint \<Rightarrow> uint \<Rightarrow> bool \<Rightarrow> uchar list kres" where
  "printint xx base sign =
     (let neg = (sign \<and> sint xx < 0); x = (if neg then - xx else xx)
      in bnd (digit_loop digits 16 x base) (\<lambda>buf.
         if neg then (if length buf < 16 then Inr (rev (buf @ [chr CHR ''-''])) else Inl (Undefined ''buffer overflow''))
         else Inr (rev buf)))"

definition hex_digits :: "uchar list \<Rightarrow> uint64 \<Rightarrow> uchar list" where
  "hex_digits ds x = map (\<lambda>i. ds ! unat (drop_bit 60 (push_bit (4 * i) x))) [0..<16]"

definition printptr :: "uint64 \<Rightarrow> uchar list" where
  "printptr x = cstr ''0x'' @ hex_digits digits x"

datatype arg = AInt uint | APtr uint64 | AStr "uchar list option"

text \<open>The loop of \<open>printf()\<close> over the format; fetching an argument that is not there is undefined.\<close>

fun format_loop :: "string \<Rightarrow> arg list \<Rightarrow> uchar list kres" where
  "format_loop [] ap = Inr []"
| "format_loop (c # fmt) ap =
     (if c \<noteq> CHR ''%'' then bnd (format_loop fmt ap) (\<lambda>out. Inr (chr c # out))
      else case fmt of
          [] \<Rightarrow> Inr []
        | k # fmt \<Rightarrow>
            if k = CHR ''d'' then (case ap of AInt v # ap \<Rightarrow>
                bnd (printint v 10 True) (\<lambda>o1. bnd (format_loop fmt ap) (\<lambda>out. Inr (o1 @ out)))
              | _ \<Rightarrow> Inl (Undefined ''va_arg''))
            else if k = CHR ''x'' then (case ap of AInt v # ap \<Rightarrow>
                bnd (printint v 16 True) (\<lambda>o1. bnd (format_loop fmt ap) (\<lambda>out. Inr (o1 @ out)))
              | _ \<Rightarrow> Inl (Undefined ''va_arg''))
            else if k = CHR ''p'' then (case ap of APtr v # ap \<Rightarrow>
                bnd (format_loop fmt ap) (\<lambda>out. Inr (printptr v @ out))
              | _ \<Rightarrow> Inl (Undefined ''va_arg''))
            else if k = CHR ''s'' then (case ap of AStr v # ap \<Rightarrow>
                let str = (case v of None \<Rightarrow> cstr ''(null)'' | Some str \<Rightarrow> takeWhile (\<lambda>b. b \<noteq> 0) str)
                in bnd (format_loop fmt ap) (\<lambda>out. Inr (str @ out))
              | _ \<Rightarrow> Inl (Undefined ''va_arg''))
            else if k = CHR ''%'' then bnd (format_loop fmt ap) (\<lambda>out. Inr (chr CHR ''%'' # out))
            else bnd (format_loop fmt ap) (\<lambda>out. Inr (chr CHR ''%'' # chr k # out)))"

section \<open>Output\<close>

definition BACKSPACE :: int where [simp]: "BACKSPACE = 0x100"

definition consputc :: "nat \<Rightarrow> int \<Rightarrow> 'a dkstate_scheme \<Rightarrow> 'a dkstate_scheme kres" where
  "consputc c ch s =
     (if ch = BACKSPACE
      then bnd (uartputc_sync c 8 s) (\<lambda>s. bnd (uartputc_sync c 32 s) (uartputc_sync c 8))
      else uartputc_sync c (word_of_int ch) s)"

definition printf :: "nat \<Rightarrow> string \<Rightarrow> arg list \<Rightarrow> 'a dkstate_scheme \<Rightarrow> 'a dkstate_scheme kres" where
  "printf c fmt ap s =
     (let locking = pr_locking s
      in bnd (if locking then kacquire c PrLock s else Inr s) (\<lambda>s.
         bnd (format_loop fmt ap) (\<lambda>out.
         bnd (foldM (\<lambda>b s. consputc c (uint b) s) out s) (\<lambda>s.
           if locking then krelease c PrLock s else Inr s))))"

text \<open>\<open>panic()\<close> up to the endless loop it ends in.\<close>

definition panic :: "nat \<Rightarrow> string \<Rightarrow> 'a dkstate_scheme \<Rightarrow> 'a dkstate_scheme kres" where
  "panic c str s =
     bnd (printf c ''panic: '' [] (s\<lparr>pr_locking := False\<rparr>)) (\<lambda>s.
     bnd (printf c str [] s) (\<lambda>s.
     bnd (printf c [CHR 0x0A] [] s) (\<lambda>s. Inr (s\<lparr>panicked := True\<rparr>))))"

definition printfinit :: "'a dkstate_scheme \<Rightarrow> 'a dkstate_scheme" where
  "printfinit s = s\<lparr>mach := initlock PrLock ''pr'' (mach s), pr_locking := True\<rparr>"

text \<open>\<open>procdump()\<close> of \<open>kernel/proc.c\<close> prints the table.\<close>

definition procdump_print :: "nat \<Rightarrow> 'a dkstate_scheme \<Rightarrow> 'a dkstate_scheme kres" where
  "procdump_print c s =
     bnd (printf c [CHR 0x0A] [] s) (\<lambda>s.
       foldM (\<lambda>(pid, state, name) s.
           bnd (printf c ''%d %s %s'' [AInt (word_of_int pid), AStr (Some (cstr state)), AStr (Some name)] s)
             (printf c [CHR 0x0A] [])) (procdump s) s)"

section \<open>Printed numbers can be read back\<close>

definition digit_value :: "uchar \<Rightarrow> int" where
  "digit_value d = (if d < 58 then uint d - 48 else if d < 97 then uint d - 55 else uint d - 87)"

definition number_value :: "int \<Rightarrow> uchar list \<Rightarrow> int" where
  "number_value base ds = foldl (\<lambda>a d. base * a + digit_value d) 0 ds"

definition read_number :: "int \<Rightarrow> uchar list \<Rightarrow> int" where
  "read_number base ds = (case ds of d # rest \<Rightarrow> if d = chr CHR ''-'' then - number_value base rest
     else number_value base ds | [] \<Rightarrow> 0)"

definition digit_list :: "uchar list \<Rightarrow> bool" where
  "digit_list ds \<longleftrightarrow> length ds = 16 \<and> (\<forall>i<16. digit_value (ds ! i) = int i \<and> ds ! i \<noteq> chr CHR ''-'')"

lemma number_value_snoc: "number_value b (ds @ [d]) = b * number_value b ds + digit_value d"
  by (simp add: number_value_def)

lemma div_less_int:
  assumes "0 < (b :: int)" "x < y * b"
  shows "x div b < y"
proof -
  have "x div b * b \<le> x" using assms by (simp add: minus_mod_eq_div_mult [symmetric])
  then show ?thesis using assms by (meson le_less_trans mult_less_cancel_right_pos)
qed

lemma digit_loop_ok:
  assumes "digit_list ds" "1 < base" "base \<le> 16" "uint x < uint base ^ n" "0 < n" "n \<le> room"
  shows "\<exists>buf. digit_loop ds room x base = Inr buf \<and> length buf \<le> n \<and> buf \<noteq> []
    \<and> (\<forall>d\<in>set buf. d \<noteq> chr CHR ''-'') \<and> number_value (uint base) (rev buf) = uint x"
  using assms(4,5,6)
proof (induction n arbitrary: x room)
  case (Suc n)
  obtain r where room: "room = Suc r" "n \<le> r" using Suc.prems(3) by (cases room) auto
  have b: "1 < uint base" "uint base \<le> 16" using assms(2,3) by (simp_all add: word_less_def word_le_def)
  have m: "unat (x mod base) < 16" "int (unat (x mod base)) = uint x mod uint base"
  proof -
    have "0 < unat base" "unat base \<le> 16" using assms(2,3) by (simp_all add: word_less_nat_alt word_le_nat_alt)
    then show "unat (x mod base) < 16" by (simp add: unat_mod_distrib order.strict_trans2 [OF mod_less_divisor])
    show "int (unat (x mod base)) = uint x mod uint base" by (simp add: uint_mod)
  qed
  have d: "digit_value (ds ! unat (x mod base)) = uint x mod uint base" "ds ! unat (x mod base) \<noteq> chr CHR ''-''"
    using assms(1) m by (simp_all add: digit_list_def)
  show ?case
  proof (cases "x div base = 0")
    case True
    then have "uint x div uint base = 0" by (metis uint_div unsigned_0)
    then have "uint x mod uint base = uint x" by (metis add_0 mult_zero_left div_mult_mod_eq)
    then show ?thesis using True d room by (simp add: number_value_def)
  next
    case False
    have "n \<noteq> 0"
    proof
      assume "n = 0"
      then have "uint x div uint base = 0" using Suc.prems(1) by simp
      then show False using False by (metis uint_div uint_0_iff)
    qed
    moreover have "uint (x div base) < uint base ^ n"
      using Suc.prems(1) b div_less_int [of "uint base" "uint x" "uint base ^ n"]
      by (simp add: uint_div mult.commute)
    ultimately obtain buf where buf: "digit_loop ds r (x div base) base = Inr buf" "length buf \<le> n" "buf \<noteq> []"
      "\<forall>d\<in>set buf. d \<noteq> chr CHR ''-''" "number_value (uint base) (rev buf) = uint (x div base)"
      using Suc.IH room by blast
    then show ?thesis using False d room
      by (simp add: number_value_snoc uint_div)
  qed
qed simp

lemma digit_list_digits: "digit_list digits"
proof -
  have "\<forall>i\<in>set [0..<16]. digit_value (digits ! i) = int i \<and> digits ! i \<noteq> chr CHR ''-''"
    by (simp add: upt_rec digits_def cstr_def chr_def digit_value_def)
  then show ?thesis by (simp add: digit_list_def digits_def cstr_def)
qed

lemma read_number_plus:
  assumes "buf \<noteq> []" "\<forall>d\<in>set buf. d \<noteq> chr CHR ''-''"
  shows "read_number b (rev buf) = number_value b (rev buf)"
proof (cases "rev buf")
  case (Cons d ds)
  then have "d \<in> set buf" by (metis list.set_intros(1) set_rev)
  then show ?thesis using Cons assms by (auto simp: read_number_def)
qed (use assms in simp)

lemma uint_neg: "sint (xx :: uint) < 0 \<Longrightarrow> uint (- xx) = - sint xx"
proof -
  assume n: "sint xx < 0"
  have b: "- (2 ^ 31) \<le> sint xx" using sint_greater_eq [of xx] by simp
  have "uint (- xx) = (- sint xx) mod 2 ^ 32"
    using uint_word_of_int [of "- sint xx", where ?'a = 32] by simp
  then show ?thesis using n b by simp
qed

lemma uint_pos: "0 \<le> sint (xx :: uint) \<Longrightarrow> uint xx = sint xx"
proof -
  assume n: "0 \<le> sint xx"
  have "sint xx < 2 ^ 31" using sint_less [of xx] by simp
  moreover have "uint xx = sint xx mod 2 ^ 32"
    using uint_word_of_int [of "sint xx", where ?'a = 32] by simp
  ultimately show ?thesis using n by simp
qed



end
