(* ===== verification/Syscall.thy ===== *)
theory Syscall
  imports Kprintf
begin

text \<open>
  System call arguments and dispatch, \<open>kernel/syscall.c\<close>, and the system calls of \<open>kernel/sysproc.c\<close> that
  need nothing of the file system.
\<close>

section \<open>Arguments\<close>

text \<open>The results of \<open>fetchaddr\<close> and \<open>fetchstr\<close> come with what they store through their pointer argument.\<close>

definition fetchaddr :: "nat \<Rightarrow> uint64 \<Rightarrow> 'a pkstate_scheme \<Rightarrow> (int \<times> uint64 \<times> 'a pkstate_scheme) kres" where
  "fetchaddr c addr s =
     bnd (curproc c s) (\<lambda>(p, s).
       if addr \<ge> p_sz (procs s p) \<or> addr + 8 > p_sz (procs s p) then Inr (-1, 0, s)
       else bnd (copyin c (p_pagetable (procs s p)) addr 8 s) (\<lambda>(r, bs).
         if r \<noteq> 0 then Inr (-1, 0, s) else Inr (0, load64 (\<lambda>a. bytes_of bs (unat a)) 0, s)))"

definition fetchstr :: "nat \<Rightarrow> uint64 \<Rightarrow> int \<Rightarrow> 'a pkstate_scheme \<Rightarrow> (int \<times> uchar list \<times> 'a pkstate_scheme) kres" where
  "fetchstr c addr mx s =
     bnd (curproc c s) (\<lambda>(p, s).
     bnd (copyinstr c (p_pagetable (procs s p)) addr (word_of_int mx) s) (\<lambda>(r, buf).
       if r < 0 then Inr (-1, buf, s)
       else case strlen (bytes_of buf) of
           None \<Rightarrow> Inl (Spin ''strlen'')
         | Some n \<Rightarrow> Inr (int n, buf, s)))"

definition argraw :: "nat \<Rightarrow> nat \<Rightarrow> 'a pkstate_scheme \<Rightarrow> (uint64 \<times> 'a pkstate_scheme) kres" where
  "argraw c n s =
     bnd (curproc c s) (\<lambda>(p, s).
       if n \<le> 5 then Inr (tf_get p (TF_a n) s, s) else Inl (Panic ''argraw''))"

definition argint :: "nat \<Rightarrow> nat \<Rightarrow> 'a pkstate_scheme \<Rightarrow> (int \<times> 'a pkstate_scheme) kres" where
  "argint c n s = bnd (argraw c n s) (\<lambda>(v, s). Inr (sint (ucast v :: uint), s))"

definition argaddr :: "nat \<Rightarrow> nat \<Rightarrow> 'a pkstate_scheme \<Rightarrow> (uint64 \<times> 'a pkstate_scheme) kres" where
  "argaddr c n s = argraw c n s"

definition argstr :: "nat \<Rightarrow> nat \<Rightarrow> int \<Rightarrow> 'a pkstate_scheme \<Rightarrow> (int \<times> uchar list \<times> 'a pkstate_scheme) kres" where
  "argstr c n mx s = bnd (argaddr c n s) (\<lambda>(addr, s). fetchstr c addr mx s)"

section \<open>Dispatch\<close>

text \<open>The table of handlers is the argument \<open>syscalls\<close>; the array has 22 elements.\<close>

definition syscall :: "nat \<Rightarrow> (nat \<Rightarrow> ('a dkstate_scheme \<Rightarrow> (uint64 \<times> 'a dkstate_scheme) kres) option) \<Rightarrow>
    'a dkstate_scheme \<Rightarrow> 'a dkstate_scheme kres" where
  "syscall c syscalls s =
     bnd (curproc c s) (\<lambda>(p, s).
       let num = sint (ucast (tf_get p (TF_a 7) s) :: uint)
       in case (if 0 < num \<and> num < 22 then syscalls (nat num) else None) of
            Some f \<Rightarrow> bnd (f s) (\<lambda>(r, s). Inr (tf_set p (TF_a 0) r s))
          | None \<Rightarrow>
              bnd (printf c (''%d %s: unknown sys call %d'' @ [CHR 0x0A])
                [AInt (word_of_int (p_pid (procs s p))), AStr (Some (p_name (procs s p))), AInt (word_of_int num)] s)
                (\<lambda>s. Inr (tf_set p (TF_a 0) (-1) s)))"

section \<open>Process system calls\<close>

definition sys_getpid :: "nat \<Rightarrow> 'a dkstate_scheme \<Rightarrow> (uint64 \<times> 'a dkstate_scheme) kres" where
  "sys_getpid c s = bnd (curproc c s) (\<lambda>(p, s). Inr (word_of_int (p_pid (procs s p)), s))"

definition sys_wait :: "nat \<Rightarrow> 'a dkstate_scheme \<Rightarrow> (uint64 \<times> 'a dkstate_scheme) kres" where
  "sys_wait c s = bnd (argaddr c 0 s) (\<lambda>(p, s). bnd (wait c p s) (\<lambda>(r, s). Inr (word_of_int r, s)))"

definition sys_sbrk :: "nat \<Rightarrow> 'a dkstate_scheme \<Rightarrow> (uint64 \<times> 'a dkstate_scheme) kres" where
  "sys_sbrk c s =
     bnd (argint c 0 s) (\<lambda>(n, s).
     bnd (curproc c s) (\<lambda>(p, s).
       let addr = p_sz (procs s p)
       in bnd (growproc c n s) (\<lambda>(r, s). Inr (if r < 0 then -1 else addr, s))))"

text \<open>The loop of \<open>sys_sleep\<close>, which the process re-enters with the same \<open>ticks0\<close> each time it wakes up.\<close>

definition sys_sleep_loop :: "nat \<Rightarrow> uint \<Rightarrow> int \<Rightarrow> 'a dkstate_scheme \<Rightarrow> (uint64 \<times> 'a dkstate_scheme) kres" where
  "sys_sleep_loop c ticks0 n s =
     (if ticks s - ticks0 < word_of_int n
      then bnd (curproc c s) (\<lambda>(p, s). bnd (killed c p s) (\<lambda>(k, s).
             if k \<noteq> 0 then bnd (krelease c TicksLock s) (\<lambda>s. Inr (-1, s))
             else sleep c TicksChan TicksLock s))
      else bnd (krelease c TicksLock s) (\<lambda>s. Inr (0, s)))"

definition sys_sleep :: "nat \<Rightarrow> 'a dkstate_scheme \<Rightarrow> (uint64 \<times> 'a dkstate_scheme) kres" where
  "sys_sleep c s =
     bnd (argint c 0 s) (\<lambda>(n, s).
     bnd (kacquire c TicksLock s) (\<lambda>s. sys_sleep_loop c (ticks s) n s))"

definition sys_kill :: "nat \<Rightarrow> 'a dkstate_scheme \<Rightarrow> (uint64 \<times> 'a dkstate_scheme) kres" where
  "sys_kill c s = bnd (argint c 0 s) (\<lambda>(pid, s). bnd (kill c pid s) (\<lambda>(r, s). Inr (word_of_int r, s)))"

definition sys_uptime :: "nat \<Rightarrow> 'a dkstate_scheme \<Rightarrow> (uint64 \<times> 'a dkstate_scheme) kres" where
  "sys_uptime c s =
     bnd (kacquire c TicksLock s) (\<lambda>s.
       let xticks = ticks s in bnd (krelease c TicksLock s) (\<lambda>s. Inr (ucast xticks, s)))"

section \<open>What reaches the kernel from user memory\<close>

lemma copyinstr_page_shape:
  "copyinstr_page m p n = (bs, g) \<Longrightarrow>
    length bs \<le> n \<and> (if g then \<exists>xs. bs = xs @ [0] \<and> 0 \<notin> set xs else length bs = n \<and> 0 \<notin> set bs)"
proof (induction m p n arbitrary: bs g rule: copyinstr_page.induct)
  case (2 m p n)
  obtain ys h where y: "copyinstr_page m (p + 1) n = (ys, h)" by fastforce
  show ?case
  proof (cases "m p = 0")
    case True
    then show ?thesis using "2.prems" by (auto intro: exI [of _ "[]"])
  next
    case False
    then have "bs = m p # ys" "g = h" using "2.prems" y by auto
    moreover have "\<exists>xs. m p # ys = xs @ [0] \<and> 0 \<notin> set xs" if "ys = zs @ [0]" "0 \<notin> set zs" for zs
      using that False by (intro exI [of _ "m p # zs"]) auto
    ultimately show ?thesis using "2.IH" [OF False y] False by (auto split: if_splits)
  qed
qed simp

lemma copy_chunk_le: "copy_chunk srcva mx \<le> mx"
  by (auto simp: copy_chunk_def Let_def)

lemma copyinstr_shape:
  "copyinstr c pt srcva mx s = Inr (r, bs) \<Longrightarrow>
    r \<in> {0, -1} \<and> length bs \<le> unat mx \<and> (if r = 0 then \<exists>xs. bs = xs @ [0] \<and> 0 \<notin> set xs else 0 \<notin> set bs)"
proof (induction c pt srcva mx s arbitrary: r bs rule: copyinstr.induct)
  case (1 c pt srcva mx s)
  let ?va = "PGROUNDDOWN srcva"
  let ?n = "copy_chunk srcva mx"
  show ?case
  proof (cases "mx > 0 \<and> (\<exists>pa. walkaddr c pt ?va s = Inr pa \<and> pa \<noteq> 0)")
    case False
    then show ?thesis using "1.prems"
      by (subst (asm) copyinstr.simps) (auto simp: Let_def bnd_def split: if_splits sum.splits)
  next
    case True
    then obtain pa where pa: "walkaddr c pt ?va s = Inr pa" "pa \<noteq> 0" "mx > 0" by blast
    obtain ys g where y: "copyinstr_page (mem s) (pa + (srcva - ?va)) (unat ?n) = (ys, g)" by fastforce
    note sh = copyinstr_page_shape [OF y]
    have le: "unat ?n \<le> unat mx" using copy_chunk_le by (simp add: word_le_nat_alt)
    show ?thesis
    proof (cases g)
      case True
      then have "r = 0" "bs = ys" using "1.prems" pa y
        by (subst (asm) copyinstr.simps, simp add: Let_def)+
      then show ?thesis using sh True le by simp
    next
      case False
      obtain r' zs where z: "copyinstr c pt (?va + PGSIZE) (mx - ?n) s = Inr (r', zs)" "r = r'" "bs = ys @ zs"
        using "1.prems" pa y False
        by (subst (asm) copyinstr.simps) (auto simp: Let_def bnd_def split: sum.splits)
      have "unat (mx - ?n) = unat mx - unat ?n" using le by (simp add: unat_sub word_le_nat_alt)
      moreover have "\<exists>xs. ys @ zs = xs @ [0] \<and> 0 \<notin> set xs" if "zs = us @ [0]" "0 \<notin> set us" for us
        using that sh False by (intro exI [of _ "ys @ us"]) auto
      ultimately show ?thesis
        using "1.IH" [OF pa(3) refl pa(1,2) refl y [symmetric] False] z sh False le by (auto split: if_splits)
    qed
  qed
qed

lemma strlen_terminated: "0 \<notin> set xs \<Longrightarrow> strlen (bytes_of (xs @ [0])) = Some (length xs)"
  unfolding strlen_Some_iff by (auto simp: bytes_of_def nth_append) (metis nth_mem)

lemma fetchstr_shape:
  assumes "fetchstr c addr mx s = Inr (r, buf, s')" "0 \<le> mx" "mx < 2 ^ 63"
  shows "r = -1 \<or> (\<exists>xs. buf = xs @ [0] \<and> 0 \<notin> set xs \<and> r = int (length xs) \<and> r < mx)"
proof -
  obtain p t q where t: "curproc c s = Inr (p, t)"
    "copyinstr c (p_pagetable (procs t p)) addr (word_of_int mx) t = Inr (q, buf)"
    "r = -1 \<or> (q = 0 \<and> (\<exists>n. strlen (bytes_of buf) = Some n \<and> r = int n))"
    using assms(1) copyinstr_shape
    by (fastforce simp: fetchstr_def bnd_def split: sum.splits if_splits option.splits)
  have "unat (word_of_int mx :: uint64) = nat mx"
    using assms(2,3) by (simp add: unat_eq_nat_uint uint_word_of_int)
  then show ?thesis using t(3) copyinstr_shape [OF t(2)] assms(2) strlen_terminated by fastforce
qed

section \<open>Correctness\<close>

text \<open>A process with one page of memory, all zero, running on hart 0.\<close>

definition demo_user :: pkstate where
  "demo_user = (demo_pk (\<lambda>i. if i = 2 then (demo_proc RUNNING 7 None)\<lparr>p_pagetable := 0x87fff000,
       p_trapframe := 0x87ffb000, p_sz := 0x1000\<rparr> else demo_proc UNUSED 0 None)
     (set_cpu 0 ((cpus demo_machine 0)\<lparr>cproc := Some 2\<rparr>) demo_machine))\<lparr>mem := demo_pt\<rparr>"

lemma demo_user_fields:
  "mem demo_user = demo_pt" "cur 0 demo_user = Some 2" "cpu_ok 0 (mach demo_user)"
  "p_pagetable (procs demo_user 2) = 0x87fff000" "p_trapframe (procs demo_user 2) = 0x87ffb000"
  "p_sz (procs demo_user 2) = 0x1000"
  using demo_machine_ok by (simp_all add: demo_user_def set_cpu_def cpu_ok_def)

lemma demo_user_walk: "mem s = demo_pt \<Longrightarrow> walkaddr c 0x87fff000 0 s = Inr 0x87ffc000"
  using walkaddr_eq [of s "0x87fff000"] by (simp add: demo_pt_upage demo_pt_wft)

lemma demo_user_argstr: "\<exists>s'. argstr 0 0 16 demo_user = Inr (0, [0], s')"
proof -
  have cp: "curproc 0 demo_user = Inr (2, calm 0 demo_user)" "curproc 0 (calm 0 demo_user) = Inr (2, calm 0 demo_user)"
    using demo_user_fields by (simp_all add: curproc_eq)
  have "load64 demo_pt (0x87ffb000 + TF_a 0) = 0"
    by (simp add: demo_pt_def load_other_page al8_def PGROUNDDOWN_def TF_a_def)
  then have raw: "argaddr 0 0 demo_user = Inr (0, calm 0 demo_user)"
    using cp by (simp add: argaddr_def argraw_def tf_get_def demo_user_fields)
  have n: "copy_chunk 0 16 = 16" by (simp add: copy_chunk_def PGROUNDDOWN_def)
  have z: "demo_pt 0x87ffc000 = 0" by (simp add: demo_pt_def store64_frame)
  have "copyinstr_page demo_pt 0x87ffc000 16 = ([0], True)" by (simp add: eval_nat_numeral z)
  then have "copyinstr 0 0x87fff000 0 16 (calm 0 demo_user) = Inr (0, [0])"
    by (subst copyinstr.simps) (simp add: n demo_user_walk demo_user_fields PGROUNDDOWN_def)
  then show ?thesis using cp raw strlen_terminated [of "[]"]
    by (simp add: argstr_def fetchstr_def demo_user_fields)
qed

lemma demo_user_fetchaddr: "\<exists>v s'. fetchaddr 0 0x10 demo_user = Inr (0, v, s')"
proof -
  have "umapped demo_pt 0x87fff000 0x10 8"
    by (simp add: umapped_def demo_pt_page0 demo_pt_upage)
  then have "copyin 0 0x87fff000 0x10 8 (calm 0 demo_user)
    = Inr (0, map (\<lambda>i. demo_pt (ubyte demo_pt 0x87fff000 (0x10 + of_nat i))) [0..<8])"
    using copyin_spec [of "calm 0 demo_user" "0x87fff000" "0x10" 8 0] by (simp add: demo_user_fields demo_pt_wft)
  then show ?thesis using demo_user_fields by (simp add: fetchaddr_def curproc_eq)
qed



text \<open>
  C34. \<open>fetchaddr()\<close> never reads outside the process: if it succeeds, the eight bytes at the address lie
  below the size of the process as unbounded integers, so the sum in its second test did not wrap around.
  (Process sizes are at most \<open>MAXVA\<close>; near \<open>2\<^sup>6\<^sup>4\<close> the two tests alone would not exclude it.)
\<close>

theorem fetchaddr_in_bounds:
  assumes "fetchaddr c addr s = Inr (0, v, s')" and "cur c s = Some p" and "p_sz (procs s p) \<le> MAXVA"
  shows "uint addr + 8 \<le> uint (p_sz (procs s p))"
proof -
  obtain q t where t: "curproc c s = Inr (q, t)" "addr < p_sz (procs t q)" "addr + 8 \<le> p_sz (procs t q)"
    using assms(1) by (auto simp: fetchaddr_def bnd_def split: sum.splits if_splits)
  have "q = p" "procs t = procs s"
    using t(1) assms(2) by (auto simp: curproc_def myproc_def Let_def bnd_def mycpu_def split: sum.splits option.splits)
  then have le: "uint addr < uint (p_sz (procs s p))" "uint (addr + 8) \<le> uint (p_sz (procs s p))"
    "uint (p_sz (procs s p)) \<le> 2 ^ 38"
    using t(2,3) assms(3) by (simp_all add: word_less_def word_le_def MAXVA_def)
  have "uint (addr + 8) = (uint addr + 8) mod 2 ^ 64" by (simp add: uint_word_ariths)
  then have "uint (addr + 8) = uint addr + 8" using le by simp
  then show ?thesis using le(2) by simp
qed

theorem fetchaddr_in_bounds_witness:
  "\<exists>v s'. fetchaddr 0 0x10 demo_user = Inr (0, v, s') \<and> uint (0x10 :: uint64) + 8 \<le> uint (p_sz (procs demo_user 2))"
proof -
  obtain v s' where f: "fetchaddr 0 0x10 demo_user = Inr (0, v, s')" using demo_user_fetchaddr by blast
  from fetchaddr_in_bounds [OF f, of 2] show ?thesis
    using f by (simp add: demo_user_fields MAXVA_eq)
qed

end
