(* ===== verification/Virtio.thy ===== *)
theory Virtio
  imports Syscall
begin

text \<open>
  The state of the storage and file layers, and the driver of the virtio disk, \<open>kernel/virtio_disk.c\<close>, with
  the behaviour of the device that the virtio specification describes: it takes the next chain of the
  available ring, transfers the block, writes status 0 and adds the chain to the used ring.
\<close>

section \<open>State\<close>

definition NUM :: nat where [simp]: "NUM = 8"
definition BSIZE :: nat where [simp]: "BSIZE = 1024"
definition VRING_DESC_F_NEXT :: ushort where [simp]: "VRING_DESC_F_NEXT = 1"
definition VRING_DESC_F_WRITE :: ushort where [simp]: "VRING_DESC_F_WRITE = 2"
definition VIRTIO_BLK_T_IN :: uint where [simp]: "VIRTIO_BLK_T_IN = 0"
definition VIRTIO_BLK_T_OUT :: uint where [simp]: "VIRTIO_BLK_T_OUT = 1"
definition MAXOPBLOCKS :: nat where [simp]: "MAXOPBLOCKS = 10"
definition LOGSIZE :: nat where [simp]: "LOGSIZE = MAXOPBLOCKS * 3"
definition NBUF :: nat where [simp]: "NBUF = MAXOPBLOCKS * 3"
definition NINODE :: nat where [simp]: "NINODE = 50"
definition NFILE :: nat where [simp]: "NFILE = 100"
definition NDEV :: nat where [simp]: "NDEV = 10"
definition ROOTDEV :: uint where [simp]: "ROOTDEV = 1"

text \<open>What the address in a descriptor points to: a request header, the data of a buffer, a status byte.\<close>

datatype daddr = NoAddr | OpsAddr nat | DataAddr nat | StatusAddr nat

record virtq_desc =
  d_addr :: daddr
  d_len :: uint
  d_flags :: ushort
  d_next :: ushort

record virtio_blk_req =
  r_type :: uint
  r_sector :: uint64

record disk =
  desc :: "nat \<Rightarrow> virtq_desc"
  avail_idx :: ushort
  avail_ring :: "nat \<Rightarrow> ushort"
  used_dev_idx :: ushort
  used_ring :: "nat \<Rightarrow> uint"
  dfree :: "nat \<Rightarrow> bool"
  used_idx :: ushort
  info_b :: "nat \<Rightarrow> nat option"
  info_status :: "nat \<Rightarrow> uchar"
  dops :: "nat \<Rightarrow> virtio_blk_req"
  last_avail :: ushort
  queue_pages :: "uint64 list"
  mmio_log :: "(nat \<times> uint) list"

text \<open>
  The sleep lock of buffer \<open>i\<close> is \<open>BufLock i\<close>; the element \<open>NBUF\<close> of the array is the head of the list.
\<close>

record buf =
  b_valid :: bool
  b_disk :: bool
  b_dev :: uint
  b_blockno :: uint
  b_refcnt :: uint
  b_prev :: nat
  b_next :: nat
  b_data :: bytes

record log =
  l_start :: int
  l_size :: int
  l_outstanding :: int
  l_committing :: bool
  l_dev :: int
  lh_n :: int
  lh_block :: "uint list"

record superblock =
  sb_magic :: uint
  sb_size :: uint
  sb_nblocks :: uint
  sb_ninodes :: uint
  sb_nlog :: uint
  sb_logstart :: uint
  sb_inodestart :: uint
  sb_bmapstart :: uint

record inode =
  i_dev :: uint
  i_inum :: uint
  i_ref :: int
  i_valid :: bool
  i_type :: ushort
  i_major :: ushort
  i_minor :: ushort
  i_nlink :: ushort
  i_size :: uint
  i_addrs :: "uint list"

datatype ftype = FD_NONE | FD_PIPE | FD_INODE | FD_DEVICE

record kfile =
  f_type :: ftype
  f_ref :: int
  f_readable :: bool
  f_writable :: bool
  f_pipe :: uint64
  f_ip :: nat
  f_off :: uint
  f_major :: ushort

record pipe =
  pi_data :: "uchar list"
  pi_nread :: uint
  pi_nwrite :: uint
  pi_readopen :: bool
  pi_writeopen :: bool

text \<open>
  \<open>media\<close> is the content of the disk by block and \<open>media_log\<close> the sequence of blocks written to it. A pipe is
  named by the page that \<open>pipealloc\<close> gave it. \<open>stk\<close> is the address, in the current kernel stack frame, of a
  local variable whose address is passed on.
\<close>

record fkstate = dkstate +
  vdisk :: disk
  media :: "uint \<Rightarrow> bytes"
  media_log :: "(uint \<times> bytes) list"
  bufs :: "nat \<Rightarrow> buf"
  log :: log
  sb :: superblock
  itable :: "nat \<Rightarrow> inode"
  ftable :: "nat \<Rightarrow> kfile"
  pipes :: "uint64 \<Rightarrow> pipe"
  stk :: uint64

definition upd_buf :: "nat \<Rightarrow> (buf \<Rightarrow> buf) \<Rightarrow> 'a fkstate_scheme \<Rightarrow> 'a fkstate_scheme" where
  "upd_buf b f s = s\<lparr>bufs := (bufs s)(b := f (bufs s b))\<rparr>"

definition upd_disk :: "(disk \<Rightarrow> disk) \<Rightarrow> 'a fkstate_scheme \<Rightarrow> 'a fkstate_scheme" where
  "upd_disk f s = s\<lparr>vdisk := f (vdisk s)\<rparr>"

section \<open>Initialisation\<close>

definition VIRTIO_MMIO_MAGIC_VALUE :: nat where [simp]: "VIRTIO_MMIO_MAGIC_VALUE = 0x000"
definition VIRTIO_MMIO_VERSION :: nat where [simp]: "VIRTIO_MMIO_VERSION = 0x004"
definition VIRTIO_MMIO_DEVICE_ID :: nat where [simp]: "VIRTIO_MMIO_DEVICE_ID = 0x008"
definition VIRTIO_MMIO_VENDOR_ID :: nat where [simp]: "VIRTIO_MMIO_VENDOR_ID = 0x00c"
definition VIRTIO_MMIO_DEVICE_FEATURES :: nat where [simp]: "VIRTIO_MMIO_DEVICE_FEATURES = 0x010"
definition VIRTIO_MMIO_DRIVER_FEATURES :: nat where [simp]: "VIRTIO_MMIO_DRIVER_FEATURES = 0x020"
definition VIRTIO_MMIO_QUEUE_SEL :: nat where [simp]: "VIRTIO_MMIO_QUEUE_SEL = 0x030"
definition VIRTIO_MMIO_QUEUE_NUM_MAX :: nat where [simp]: "VIRTIO_MMIO_QUEUE_NUM_MAX = 0x034"
definition VIRTIO_MMIO_QUEUE_NUM :: nat where [simp]: "VIRTIO_MMIO_QUEUE_NUM = 0x038"
definition VIRTIO_MMIO_QUEUE_READY :: nat where [simp]: "VIRTIO_MMIO_QUEUE_READY = 0x044"
definition VIRTIO_MMIO_STATUS :: nat where [simp]: "VIRTIO_MMIO_STATUS = 0x070"
definition VIRTIO_MMIO_QUEUE_DESC_LOW :: nat where [simp]: "VIRTIO_MMIO_QUEUE_DESC_LOW = 0x080"
definition VIRTIO_MMIO_QUEUE_DESC_HIGH :: nat where [simp]: "VIRTIO_MMIO_QUEUE_DESC_HIGH = 0x084"
definition VIRTIO_MMIO_DRIVER_DESC_LOW :: nat where [simp]: "VIRTIO_MMIO_DRIVER_DESC_LOW = 0x090"
definition VIRTIO_MMIO_DRIVER_DESC_HIGH :: nat where [simp]: "VIRTIO_MMIO_DRIVER_DESC_HIGH = 0x094"
definition VIRTIO_MMIO_DEVICE_DESC_LOW :: nat where [simp]: "VIRTIO_MMIO_DEVICE_DESC_LOW = 0x0a0"
definition VIRTIO_MMIO_DEVICE_DESC_HIGH :: nat where [simp]: "VIRTIO_MMIO_DEVICE_DESC_HIGH = 0x0a4"
definition VIRTIO_CONFIG_S_ACKNOWLEDGE :: uint where [simp]: "VIRTIO_CONFIG_S_ACKNOWLEDGE = 1"
definition VIRTIO_CONFIG_S_DRIVER :: uint where [simp]: "VIRTIO_CONFIG_S_DRIVER = 2"
definition VIRTIO_CONFIG_S_DRIVER_OK :: uint where [simp]: "VIRTIO_CONFIG_S_DRIVER_OK = 4"
definition VIRTIO_CONFIG_S_FEATURES_OK :: uint where [simp]: "VIRTIO_CONFIG_S_FEATURES_OK = 8"

text \<open>The feature bits that the driver clears.\<close>

definition refused_features :: "nat list" where
  "refused_features = [5, 7, 11, 12, 27, 29, 28]"

definition negotiate :: "uint64 \<Rightarrow> uint64" where
  "negotiate features = fold (\<lambda>bit f. f AND NOT (push_bit bit 1)) refused_features features"

definition wr :: "nat \<Rightarrow> uint \<Rightarrow> 'a fkstate_scheme \<Rightarrow> 'a fkstate_scheme" where
  "wr r v = upd_disk (\<lambda>d. d\<lparr>mmio_log := mmio_log d @ [(r, v)]\<rparr>)"

text \<open>
  \<open>rd\<close> gives the values that the device's registers have when they are read; \<open>max < NUM\<close> and the other
  conditions on them are panics.
\<close>

definition virtio_disk_init :: "nat \<Rightarrow> (nat \<Rightarrow> uint) \<Rightarrow> 'a fkstate_scheme \<Rightarrow> 'a fkstate_scheme kres" where
  "virtio_disk_init c rd s =
     (let s = s\<lparr>mach := initlock VdiskLock ''virtio_disk'' (mach s)\<rparr>
      in if rd VIRTIO_MMIO_MAGIC_VALUE \<noteq> 0x74726976 \<or> rd VIRTIO_MMIO_VERSION \<noteq> 2
            \<or> rd VIRTIO_MMIO_DEVICE_ID \<noteq> 2 \<or> rd VIRTIO_MMIO_VENDOR_ID \<noteq> 0x554d4551
         then Inl (Panic ''could not find virtio disk'')
         else let st1 = VIRTIO_CONFIG_S_ACKNOWLEDGE; st2 = st1 OR VIRTIO_CONFIG_S_DRIVER;
                  s = wr VIRTIO_MMIO_STATUS st2 (wr VIRTIO_MMIO_STATUS st1 (wr VIRTIO_MMIO_STATUS 0 s));
                  s = wr VIRTIO_MMIO_DRIVER_FEATURES (ucast (negotiate (ucast (rd VIRTIO_MMIO_DEVICE_FEATURES)))) s;
                  s = wr VIRTIO_MMIO_STATUS (st2 OR VIRTIO_CONFIG_S_FEATURES_OK) s;
                  status = rd VIRTIO_MMIO_STATUS
              in if status AND VIRTIO_CONFIG_S_FEATURES_OK = 0 then Inl (Panic ''virtio disk FEATURES_OK unset'')
                 else let s = wr VIRTIO_MMIO_QUEUE_SEL 0 s; max = rd VIRTIO_MMIO_QUEUE_NUM_MAX
                      in if rd VIRTIO_MMIO_QUEUE_READY \<noteq> 0 then Inl (Panic ''virtio disk should not be ready'')
                         else if max = 0 then Inl (Panic ''virtio disk has no queue 0'')
                         else if max < of_nat NUM then Inl (Panic ''virtio disk max queue too short'')
                         else bnd (kalloc c s) (\<lambda>(dp, s). bnd (kalloc c s) (\<lambda>(av, s). bnd (kalloc c s) (\<lambda>(us, s).
                           if dp = 0 \<or> av = 0 \<or> us = 0 then Inl (Panic ''virtio disk kalloc'')
                           else let s = s\<lparr>mem := memset (memset (memset (mem s) dp 0 4096) av 0 4096) us 0 4096\<rparr>;
                                    s = upd_disk (\<lambda>d. d\<lparr>queue_pages := [dp, av, us], avail_idx := 0, used_dev_idx := 0\<rparr>) s;
                                    s = wr VIRTIO_MMIO_QUEUE_NUM (of_nat NUM) s;
                                    s = wr VIRTIO_MMIO_QUEUE_DESC_LOW (ucast dp) s;
                                    s = wr VIRTIO_MMIO_QUEUE_DESC_HIGH (ucast (drop_bit 32 dp)) s;
                                    s = wr VIRTIO_MMIO_DRIVER_DESC_LOW (ucast av) s;
                                    s = wr VIRTIO_MMIO_DRIVER_DESC_HIGH (ucast (drop_bit 32 av)) s;
                                    s = wr VIRTIO_MMIO_DEVICE_DESC_LOW (ucast us) s;
                                    s = wr VIRTIO_MMIO_DEVICE_DESC_HIGH (ucast (drop_bit 32 us)) s;
                                    s = wr VIRTIO_MMIO_QUEUE_READY 1 s;
                                    s = upd_disk (\<lambda>d. d\<lparr>dfree := (\<lambda>i. i < NUM \<or> dfree d i)\<rparr>) s
                                in Inr (wr VIRTIO_MMIO_STATUS (status OR VIRTIO_CONFIG_S_DRIVER_OK) s)))))"

section \<open>Descriptors\<close>

fun alloc_desc_scan :: "nat list \<Rightarrow> disk \<Rightarrow> int \<times> disk" where
  "alloc_desc_scan [] d = (-1, d)"
| "alloc_desc_scan (i # is) d =
     (if dfree d i then (int i, d\<lparr>dfree := (dfree d)(i := False)\<rparr>) else alloc_desc_scan is d)"

definition alloc_desc :: "disk \<Rightarrow> int \<times> disk" where
  "alloc_desc d = alloc_desc_scan [0..<NUM] d"

definition free_desc :: "nat \<Rightarrow> int \<Rightarrow> 'a fkstate_scheme \<Rightarrow> 'a fkstate_scheme kres" where
  "free_desc c i s =
     (if i \<ge> int NUM then Inl (Panic ''free_desc 1'')
      else if dfree (vdisk s) (nat i) then Inl (Panic ''free_desc 2'')
      else wakeup c (Some DescChan) (upd_disk (\<lambda>d. d\<lparr>
             desc := (desc d)(nat i := \<lparr>d_addr = NoAddr, d_len = 0, d_flags = 0, d_next = 0\<rparr>),
             dfree := (dfree d)(nat i := True)\<rparr>) s))"

fun free_chain :: "nat \<Rightarrow> nat \<Rightarrow> int \<Rightarrow> 'a fkstate_scheme \<Rightarrow> 'a fkstate_scheme kres" where
  "free_chain c 0 i s = Inl (Spin ''free_chain'')"
| "free_chain c (Suc n) i s =
     (let flag = d_flags (desc (vdisk s) (nat i)); nxt = uint (d_next (desc (vdisk s) (nat i)))
      in bnd (free_desc c i s) (\<lambda>s.
           if flag AND VRING_DESC_F_NEXT \<noteq> 0 then free_chain c n nxt s else Inr s))"

text \<open>The descriptors allocated so far are in \<open>got\<close>; they are freed when there is no third one.\<close>

fun alloc3_loop :: "nat \<Rightarrow> nat \<Rightarrow> int list \<Rightarrow> 'a fkstate_scheme \<Rightarrow> (int list option \<times> 'a fkstate_scheme) kres" where
  "alloc3_loop c 0 got s = Inr (Some got, s)"
| "alloc3_loop c (Suc n) got s =
     (case alloc_desc (vdisk s) of (i, d) \<Rightarrow>
        let s = s\<lparr>vdisk := d\<rparr>
        in if i < 0 then bnd (foldM (free_desc c) got s) (\<lambda>s. Inr (None, s))
           else alloc3_loop c n (got @ [i]) s)"

definition alloc3_desc :: "nat \<Rightarrow> 'a fkstate_scheme \<Rightarrow> (int list option \<times> 'a fkstate_scheme) kres" where
  "alloc3_desc c s = alloc3_loop c 3 [] s"

section \<open>Requests\<close>

definition virtio_request :: "nat \<Rightarrow> bool \<Rightarrow> nat \<Rightarrow> nat \<Rightarrow> nat \<Rightarrow> 'a fkstate_scheme \<Rightarrow> 'a fkstate_scheme" where
  "virtio_request b write i0 i1 i2 s =
     (let sector = ucast (b_blockno (bufs s b) * 2);
          s = upd_disk (\<lambda>d. d\<lparr>
                dops := (dops d)(i0 := \<lparr>r_type = (if write then VIRTIO_BLK_T_OUT else VIRTIO_BLK_T_IN), r_sector = sector\<rparr>),
                desc := (desc d)(
                  i0 := \<lparr>d_addr = OpsAddr i0, d_len = 16, d_flags = VRING_DESC_F_NEXT, d_next = of_nat i1\<rparr>,
                  i1 := \<lparr>d_addr = DataAddr b, d_len = of_nat BSIZE,
                         d_flags = (if write then 0 else VRING_DESC_F_WRITE) OR VRING_DESC_F_NEXT, d_next = of_nat i2\<rparr>,
                  i2 := \<lparr>d_addr = StatusAddr i0, d_len = 1, d_flags = VRING_DESC_F_WRITE, d_next = 0\<rparr>),
                info_status := (info_status d)(i0 := 0xff),
                info_b := (info_b d)(i0 := Some b),
                avail_ring := (avail_ring d)(unat (avail_idx d) mod NUM := of_nat i0),
                avail_idx := avail_idx d + 1\<rparr>) s
      in upd_buf b (\<lambda>x. x\<lparr>b_disk := True\<rparr>) s)"

text \<open>The device: one chain of the available ring.\<close>

definition virtio_serve :: "'a fkstate_scheme \<Rightarrow> 'a fkstate_scheme" where
  "virtio_serve s =
     (let d = vdisk s; h = unat (avail_ring d (unat (last_avail d) mod NUM));
          d1 = desc d (unat (d_next (desc d h))); d2 = desc d (unat (d_next d1))
      in if last_avail d = avail_idx d then s
         else case (d_addr (desc d h), d_addr d1, d_addr d2) of
           (OpsAddr k, DataAddr b, StatusAddr j) \<Rightarrow>
             let blk = ucast (r_sector (dops d k) div 2);
                 s = (if r_type (dops d k) = VIRTIO_BLK_T_OUT
                      then s\<lparr>media := (media s)(blk := b_data (bufs s b)),
                             media_log := media_log s @ [(blk, b_data (bufs s b))]\<rparr>
                      else upd_buf b (\<lambda>x. x\<lparr>b_data := media s blk\<rparr>) s)
             in upd_disk (\<lambda>d. d\<lparr>info_status := (info_status d)(j := 0),
                  used_ring := (used_ring d)(unat (used_dev_idx d) mod NUM := of_nat h),
                  used_dev_idx := used_dev_idx d + 1, last_avail := last_avail d + 1\<rparr>) s
         | _ \<Rightarrow> s)"

fun virtio_intr_loop :: "nat \<Rightarrow> nat \<Rightarrow> 'a fkstate_scheme \<Rightarrow> 'a fkstate_scheme kres" where
  "virtio_intr_loop c 0 s = Inl (Spin ''virtio_disk_intr'')"
| "virtio_intr_loop c (Suc n) s =
     (let d = vdisk s
      in if used_idx d = used_dev_idx d then Inr s
         else let i = unat (used_ring d (unat (used_idx d) mod NUM))
              in if info_status d i \<noteq> 0 then Inl (Panic ''virtio_disk_intr status'')
                 else case info_b d i of
                     None \<Rightarrow> Inl (Panic ''kerneltrap'')
                   | Some b \<Rightarrow>
                       bnd (wakeup c (Some (DiskChan b)) (upd_buf b (\<lambda>x. x\<lparr>b_disk := False\<rparr>) s)) (\<lambda>s.
                         virtio_intr_loop c n (upd_disk (\<lambda>d. d\<lparr>used_idx := used_idx d + 1\<rparr>) s)))"

definition virtio_disk_intr :: "nat \<Rightarrow> 'a fkstate_scheme \<Rightarrow> 'a fkstate_scheme kres" where
  "virtio_disk_intr c s =
     bnd (kacquire c VdiskLock s) (\<lambda>s.
     bnd (virtio_intr_loop c (Suc (unat (used_dev_idx (vdisk s) - used_idx (vdisk s)))) s) (\<lambda>s.
       krelease c VdiskLock s))"

text \<open>
  Waiting for the completion of the request: the process sleeps, which releases the lock; the device serves the
  request and its interrupt is handled; the process wakes up and holds the lock again.
\<close>

definition virtio_wait :: "nat \<Rightarrow> nat \<Rightarrow> 'a fkstate_scheme \<Rightarrow> 'a fkstate_scheme kres" where
  "virtio_wait c b s =
     bnd (krelease c VdiskLock s) (\<lambda>s.
     bnd (virtio_disk_intr c (virtio_serve s)) (\<lambda>s.
     bnd (kacquire c VdiskLock s) (\<lambda>s.
       if b_disk (bufs s b) then sleep c (DiskChan b) VdiskLock s else Inr s)))"

definition virtio_disk_rw :: "nat \<Rightarrow> nat \<Rightarrow> bool \<Rightarrow> 'a fkstate_scheme \<Rightarrow> 'a fkstate_scheme kres" where
  "virtio_disk_rw c b write s =
     bnd (kacquire c VdiskLock s) (\<lambda>s.
     bnd (alloc3_desc c s) (\<lambda>(idx, s).
       case idx of
         None \<Rightarrow> sleep c DescChan VdiskLock s
       | Some idx \<Rightarrow>
           let i0 = nat (idx ! 0); i1 = nat (idx ! 1); i2 = nat (idx ! 2)
           in bnd (virtio_wait c b (virtio_request b write i0 i1 i2 s)) (\<lambda>s.
              bnd (free_chain c NUM (int i0) (upd_disk (\<lambda>d. d\<lparr>info_b := (info_b d)(i0 := None)\<rparr>) s)) (\<lambda>s.
                krelease c VdiskLock s))))"

end
