(* ===== verification/Virtio_Ok.thy ===== *)
theory Virtio_Ok
  imports Virtio
begin

text \<open>
  Correctness of the disk driver: with all descriptors free, a request is carried out, the buffer belongs
  to the processor again, and the descriptors are free again.
\<close>

section \<open>A request completes\<close>

text \<open>Only sleeping processes other than \<open>me\<close> may have been made runnable.\<close>

definition woken :: "nat option \<Rightarrow> (nat \<Rightarrow> proc) \<Rightarrow> (nat \<Rightarrow> proc) \<Rightarrow> bool" where
  "woken me ps qs \<longleftrightarrow> (\<forall>i. qs i = ps i
     \<or> Some i \<noteq> me \<and> p_state (ps i) = SLEEPING \<and> qs i = (ps i)\<lparr>p_state := RUNNABLE\<rparr>)"

lemma woken_refl [simp]: "woken me ps ps"
  by (simp add: woken_def)

lemma woken_trans: "woken me ps qs \<Longrightarrow> woken me qs rs \<Longrightarrow> woken me ps rs"
  unfolding woken_def by (metis proc.select_convs(1) proc.surjective proc.update_convs(1) procstate.distinct(19))

lemma woken_me: "woken (Some p) ps qs \<Longrightarrow> qs p = ps p"
  by (auto simp: woken_def)

lemma woken_fields:
  assumes "woken me ps qs"
  shows "p_pid (qs i) = p_pid (ps i)" "p_pagetable (qs i) = p_pagetable (ps i)" "p_cwd (qs i) = p_cwd (ps i)"
  using assms by (auto simp: woken_def) (metis proc.select_convs proc.surjective proc.update_convs)+

lemma wakeup_form:
  assumes "quiet c proc_locks s"
  shows "\<exists>ps. wakeup c ch s = Inr (s\<lparr>mach := crit c (mach s), procs := ps\<rparr>) \<and> woken (cur c s) (procs s) ps"
proof -
  let ?ps = "\<lambda>i. if i < NPROC then wake ch (cur c s) i (procs s i) else procs s i"
  have "wakeup c ch s = Inr (s\<lparr>mach := crit c (mach s), procs := ?ps\<rparr>)"
    using wakeup_eq [OF assms, of ch] by (simp add: upd_table_def)
  moreover have "woken (cur c s) (procs s) ?ps" by (auto simp: woken_def wake_def)
  ultimately show ?thesis by blast
qed

definition freed :: "nat \<Rightarrow> disk \<Rightarrow> disk" where
  "freed i d = d\<lparr>desc := (desc d)(i := \<lparr>d_addr = NoAddr, d_len = 0, d_flags = 0, d_next = 0\<rparr>),
     dfree := (dfree d)(i := True)\<rparr>"

definition disk_idle :: "disk \<Rightarrow> bool" where
  "disk_idle d \<longleftrightarrow> (\<forall>i<NUM. dfree d i) \<and> last_avail d = avail_idx d \<and> used_idx d = used_dev_idx d"

text \<open>Inside the critical section of a lock that \<open>c\<close> holds, the machine state does not change.\<close>

definition held :: "nat \<Rightarrow> 'a pkstate_scheme \<Rightarrow> bool" where
  "held c s \<longleftrightarrow> quiet c proc_locks s \<and> crit c (mach s) = mach s"

lemma wakeup_held:
  assumes "held c s"
  shows "\<exists>ps. wakeup c ch s = Inr (s\<lparr>procs := ps\<rparr>) \<and> woken (cur c s) (procs s) ps"
proof -
  obtain ps where ps: "wakeup c ch s = Inr (s\<lparr>mach := crit c (mach s), procs := ps\<rparr>)" "woken (cur c s) (procs s) ps"
    using assms wakeup_form [of c s ch] by (auto simp: held_def)
  have "s\<lparr>mach := crit c (mach s), procs := ps\<rparr> = s\<lparr>procs := ps\<rparr>" using assms by (simp add: held_def)
  then show ?thesis using ps by metis
qed

lemma held_cong: "mach t = mach s \<Longrightarrow> held c t = held c s"
  by (simp add: held_def quiet_def)

lemma free_desc_ok:
  assumes "held c s" "i < 8" "\<not> dfree (vdisk s) i"
  shows "\<exists>ps. free_desc c (int i) s = Inr (s\<lparr>procs := ps, vdisk := freed i (vdisk s)\<rparr>) \<and> woken (cur c s) (procs s) ps"
proof -
  let ?t = "s\<lparr>vdisk := freed i (vdisk s)\<rparr>"
  have "held c ?t" using assms(1) by (simp add: held_cong [of ?t s])
  from wakeup_held [OF this, of "Some DescChan"] obtain ps where ps:
    "wakeup c (Some DescChan) ?t = Inr (?t\<lparr>procs := ps\<rparr>)" "woken (cur c s) (procs s) ps" by auto
  have "free_desc c (int i) s = Inr (s\<lparr>procs := ps, vdisk := freed i (vdisk s)\<rparr>)"
    using ps(1) assms(2,3) by (simp add: free_desc_def upd_disk_def freed_def)
  then show ?thesis using ps(2) by blast
qed

lemma free_chain3_ok:
  assumes "held c s" "\<not> dfree (vdisk s) 0" "\<not> dfree (vdisk s) 1" "\<not> dfree (vdisk s) 2"
    "d_flags (desc (vdisk s) 0) = VRING_DESC_F_NEXT" "d_next (desc (vdisk s) 0) = 1"
    "d_flags (desc (vdisk s) 1) AND VRING_DESC_F_NEXT \<noteq> 0" "d_next (desc (vdisk s) 1) = 2"
    "d_flags (desc (vdisk s) 2) = VRING_DESC_F_WRITE"
  shows "\<exists>ps. free_chain c NUM 0 s = Inr (s\<lparr>procs := ps, vdisk := freed 2 (freed 1 (freed 0 (vdisk s)))\<rparr>)
    \<and> woken (cur c s) (procs s) ps"
proof -
  obtain p1 where p1: "free_desc c 0 s = Inr (s\<lparr>procs := p1, vdisk := freed 0 (vdisk s)\<rparr>)" "woken (cur c s) (procs s) p1"
    using free_desc_ok [OF assms(1), of 0] assms(2) by auto
  define s1 where "s1 = s\<lparr>procs := p1, vdisk := freed 0 (vdisk s)\<rparr>"
  have h1: "held c s1" using assms(1) by (simp add: held_def quiet_def s1_def)
  obtain p2 where p2: "free_desc c 1 s1 = Inr (s1\<lparr>procs := p2, vdisk := freed 1 (vdisk s1)\<rparr>)" "woken (cur c s1) (procs s1) p2"
    using free_desc_ok [OF h1, of 1] assms(3) by (auto simp: s1_def freed_def)
  define s2 where "s2 = s1\<lparr>procs := p2, vdisk := freed 1 (vdisk s1)\<rparr>"
  have h2: "held c s2" using h1 by (simp add: held_def quiet_def s2_def)
  obtain p3 where p3: "free_desc c 2 s2 = Inr (s2\<lparr>procs := p3, vdisk := freed 2 (vdisk s2)\<rparr>)" "woken (cur c s2) (procs s2) p3"
    using free_desc_ok [OF h2, of 2] assms(4) by (auto simp: s2_def s1_def freed_def)
  have w: "woken (cur c s) (procs s) p3"
    using p1(2) p2(2) p3(2) by (auto simp: s1_def s2_def intro: woken_trans)
  have d: "d_flags (desc (vdisk s1) 1) AND 1 \<noteq> 0" "d_next (desc (vdisk s1) 1) = 2" "d_flags (desc (vdisk s2) 2) = 2"
    using assms(7-9) by (simp_all add: s1_def s2_def freed_def)
  have n: "NUM = Suc (Suc (Suc 5))" by simp
  have q: "free_desc c 0 s = Inr s1" "free_desc c 1 s1 = Inr s2" using p1(1) p2(1) by (simp_all only: s1_def s2_def)
  have "free_chain c NUM 0 s = Inr (s2\<lparr>procs := p3, vdisk := freed 2 (vdisk s2)\<rparr>)"
    unfolding n free_chain.simps Let_def using assms(5,6) d q p3(1) by simp
  also have "s2\<lparr>procs := p3, vdisk := freed 2 (vdisk s2)\<rparr> = s\<lparr>procs := p3, vdisk := freed 2 (freed 1 (freed 0 (vdisk s)))\<rparr>"
    by (simp add: s2_def s1_def)
  finally show ?thesis using w by blast
qed

lemma alloc3_ok:
  assumes "disk_idle (vdisk s)"
  shows "alloc3_desc c s = Inr (Some [0, 1, 2],
    s\<lparr>vdisk := (vdisk s)\<lparr>dfree := (dfree (vdisk s))(0 := False, 1 := False, 2 := False)\<rparr>\<rparr>)"
proof -
  have n: "(3 :: nat) = Suc (Suc (Suc 0))" by simp
  have u: "[0..<NUM] = [0, 1, 2, 3, 4, 5, 6, 7]" by (simp add: upt_rec)
  show ?thesis using assms unfolding alloc3_desc_def n alloc3_loop.simps alloc_desc_def u
    by (simp add: disk_idle_def)
qed

text \<open>The effect of a completed request on the disk and on the buffers.\<close>

definition media_after :: "nat \<Rightarrow> bool \<Rightarrow> 'a fkstate_scheme \<Rightarrow> uint \<Rightarrow> bytes" where
  "media_after b w s = (if w then (media s)(b_blockno (bufs s b) := b_data (bufs s b)) else media s)"

definition media_log_after :: "nat \<Rightarrow> bool \<Rightarrow> 'a fkstate_scheme \<Rightarrow> (uint \<times> bytes) list" where
  "media_log_after b w s = (if w then media_log s @ [(b_blockno (bufs s b), b_data (bufs s b))] else media_log s)"

definition bufs_after :: "nat \<Rightarrow> bool \<Rightarrow> 'a fkstate_scheme \<Rightarrow> nat \<Rightarrow> buf" where
  "bufs_after b w s = (bufs s)(b := (bufs s b)\<lparr>
     b_data := (if w then b_data (bufs s b) else media s (b_blockno (bufs s b))), b_disk := False\<rparr>)"

lemma sector_block:
  assumes "bno < (0x80000000 :: uint)"
  shows "(ucast (((ucast (bno * 2)) :: uint64) div 2) :: uint) = bno"
proof -
  have b: "uint bno < 2 ^ 31" using assms by (simp add: word_less_def)
  then have "uint (bno * 2) = uint bno * 2" by (simp add: uint_word_ariths)
  then have "uint ((ucast (bno * 2) :: uint64) div 2) = uint bno"
    using b by (simp add: uint_div unsigned_ucast_eq take_bit_int_eq_self)
  then show ?thesis using b by (simp add: word_uint_eq_iff unsigned_ucast_eq take_bit_int_eq_self)
qed

lemma virtio_request_fields:
  fixes b w s
  defines "t \<equiv> virtio_request b w 0 1 2 s"
  shows "t = s\<lparr>vdisk := vdisk t, bufs := (bufs s)(b := (bufs s b)\<lparr>b_disk := True\<rparr>)\<rparr>"
    and "desc (vdisk t) 0 = \<lparr>d_addr = OpsAddr 0, d_len = 16, d_flags = 1, d_next = 1\<rparr>"
    and "desc (vdisk t) 1 = \<lparr>d_addr = DataAddr b, d_len = 1024, d_flags = (if w then 0 else 2) OR 1, d_next = 2\<rparr>"
    and "desc (vdisk t) 2 = \<lparr>d_addr = StatusAddr 0, d_len = 1, d_flags = 2, d_next = 0\<rparr>"
    and "dops (vdisk t) 0 = \<lparr>r_type = (if w then 1 else 0), r_sector = ucast (b_blockno (bufs s b) * 2)\<rparr>"
    and "avail_ring (vdisk t) (unat (avail_idx (vdisk s)) mod NUM) = 0" "avail_idx (vdisk t) = avail_idx (vdisk s) + 1"
    and "last_avail (vdisk t) = last_avail (vdisk s)" "used_dev_idx (vdisk t) = used_dev_idx (vdisk s)"
    and "used_idx (vdisk t) = used_idx (vdisk s)" "dfree (vdisk t) = dfree (vdisk s)" "info_b (vdisk t) 0 = Some b"
  by (simp_all add: t_def virtio_request_def upd_disk_def upd_buf_def Let_def)

lemma virtio_serve_step:
  assumes "last_avail (vdisk s) \<noteq> avail_idx (vdisk s)"
    and "avail_ring (vdisk s) (unat (last_avail (vdisk s)) mod NUM) = 0"
    and "d_addr (desc (vdisk s) 0) = OpsAddr 0" "d_next (desc (vdisk s) 0) = 1"
    and "d_addr (desc (vdisk s) 1) = DataAddr b" "d_next (desc (vdisk s) 1) = 2"
    and "d_addr (desc (vdisk s) 2) = StatusAddr 0"
    and "dops (vdisk s) 0 = \<lparr>r_type = (if w then 1 else 0), r_sector = sec\<rparr>"
    and "ucast (sec div 2) = bno"
  shows "virtio_serve s = s\<lparr>
      media := (if w then (media s)(bno := b_data (bufs s b)) else media s),
      media_log := (if w then media_log s @ [(bno, b_data (bufs s b))] else media_log s),
      bufs := (if w then bufs s else (bufs s)(b := (bufs s b)\<lparr>b_data := media s bno\<rparr>)),
      vdisk := (vdisk s)\<lparr>info_status := (info_status (vdisk s))(0 := 0),
        used_ring := (used_ring (vdisk s))(unat (used_dev_idx (vdisk s)) mod NUM := 0),
        used_dev_idx := used_dev_idx (vdisk s) + 1, last_avail := last_avail (vdisk s) + 1\<rparr>\<rparr>"
  using assms by (cases w) (simp_all add: virtio_serve_def upd_disk_def upd_buf_def Let_def)

lemma virtio_intr_ok:
  assumes "quiet c (insert VdiskLock proc_locks) s" "used_dev_idx (vdisk s) = used_idx (vdisk s) + 1"
    "used_ring (vdisk s) (unat (used_idx (vdisk s)) mod NUM) = 0" "info_status (vdisk s) 0 = 0"
    "info_b (vdisk s) 0 = Some b"
  shows "\<exists>ps. virtio_disk_intr c s = Inr (s\<lparr>mach := crit c (mach s), procs := ps,
      vdisk := (vdisk s)\<lparr>used_idx := used_idx (vdisk s) + 1\<rparr>,
      bufs := (bufs s)(b := (bufs s b)\<lparr>b_disk := False\<rparr>)\<rparr>) \<and> woken (cur c s) (procs s) ps"
proof -
  let ?B = "(bufs s)(b := (bufs s b)\<lparr>b_disk := False\<rparr>)"
  let ?t = "s\<lparr>mach := taken c VdiskLock (mach s)\<rparr>"
  have q: "cpu_ok c (mach s)" "lock_free VdiskLock (mach s)" using assms(1) by (simp_all add: quiet_def)
  have "held c (?t\<lparr>bufs := ?B\<rparr>)" using assms(1) q by (auto simp: held_def quiet_def)
  from wakeup_held [OF this, of "Some (DiskChan b)"] obtain ps where
    ps: "wakeup c (Some (DiskChan b)) (?t\<lparr>bufs := ?B\<rparr>) = Inr (?t\<lparr>bufs := ?B, procs := ps\<rparr>)"
    "woken (cur c s) (procs s) ps" by auto
  let ?u = "?t\<lparr>bufs := ?B, procs := ps, vdisk := (vdisk s)\<lparr>used_idx := used_idx (vdisk s) + 1\<rparr>\<rparr>"
  have n: "Suc (unat (used_dev_idx (vdisk s) - used_idx (vdisk s))) = Suc (Suc 0)" using assms(2) by simp
  have "virtio_intr_loop c (Suc (Suc 0)) ?t = Inr ?u"
    using assms(2-5) ps(1) by (simp add: Let_def upd_buf_def upd_disk_def)
  moreover have "krelease c VdiskLock ?u = Inr (?u\<lparr>mach := crit c (mach s)\<rparr>)"
    using q by (intro krelease_taken) simp_all
  ultimately have "virtio_disk_intr c s = Inr (?u\<lparr>mach := crit c (mach s)\<rparr>)"
    unfolding virtio_disk_intr_def using q n by (simp del: virtio_intr_loop.simps)
  also have "?u\<lparr>mach := crit c (mach s)\<rparr> = s\<lparr>mach := crit c (mach s), procs := ps,
      vdisk := (vdisk s)\<lparr>used_idx := used_idx (vdisk s) + 1\<rparr>, bufs := ?B\<rparr>" by simp
  finally show ?thesis using ps(2) by blast
qed

text \<open>\<open>carry t s\<close> is \<open>s\<close> with the fields that disk requests may change taken from \<open>t\<close>.\<close>

definition carry :: "'a fkstate_scheme \<Rightarrow> 'a fkstate_scheme \<Rightarrow> 'a fkstate_scheme" where
  "carry t s = s\<lparr>mach := mach t, procs := procs t, vdisk := vdisk t, media := media t,
     media_log := media_log t, bufs := bufs t\<rparr>"

definition disk_only :: "'a fkstate_scheme \<Rightarrow> 'a fkstate_scheme \<Rightarrow> bool" where
  "disk_only s t \<longleftrightarrow> t = carry t s"

lemma disk_only_refl [simp]: "disk_only s s"
  by (simp add: disk_only_def carry_def)

lemma disk_only_trans: "disk_only s t \<Longrightarrow> disk_only t u \<Longrightarrow> disk_only s u"
proof -
  assume "disk_only s t" "disk_only t u"
  then have t: "t = carry t s" and u: "u = carry u t" by (simp_all add: disk_only_def)
  have "carry u (carry t s) = carry u s" by (simp add: carry_def)
  then show "disk_only s u" using t u by (metis disk_only_def)
qed

lemma disk_only_upd [simp]:
  "disk_only s (t\<lparr>mach := m\<rparr>) = disk_only s t"
  "disk_only s (t\<lparr>procs := ps\<rparr>) = disk_only s t"
  "disk_only s (t\<lparr>vdisk := d\<rparr>) = disk_only s t"
  "disk_only s (t\<lparr>media := me\<rparr>) = disk_only s t"
  "disk_only s (t\<lparr>media_log := ml\<rparr>) = disk_only s t"
  "disk_only s (t\<lparr>bufs := bs\<rparr>) = disk_only s t"
  by (cases s; cases t; simp add: disk_only_def carry_def)+

lemma virtio_disk_rw_ok:
  assumes "quiet c (insert VdiskLock proc_locks) s" "disk_idle (vdisk s)" "b_blockno (bufs s b) < 0x80000000"
  shows "\<exists>ps d. virtio_disk_rw c b w s = Inr (s\<lparr>mach := crit c (mach s), procs := ps, vdisk := d,
      media := media_after b w s, media_log := media_log_after b w s, bufs := bufs_after b w s\<rparr>)
    \<and> woken (cur c s) (procs s) ps \<and> disk_idle d"
proof -
  have q: "cpu_ok c (mach s)" "lock_free VdiskLock (mach s)" using assms(1) by (simp_all add: quiet_def)
  let ?T = "taken c VdiskLock (mach s)"
  define d1 where "d1 = (vdisk s)\<lparr>dfree := (dfree (vdisk s))(0 := False, 1 := False, 2 := False)\<rparr>"
  define s1 where "s1 = s\<lparr>mach := ?T, vdisk := d1\<rparr>"
  have a: "alloc3_desc c (s\<lparr>mach := ?T\<rparr>) = Inr (Some [0, 1, 2], s1)"
    using alloc3_ok [of "s\<lparr>mach := ?T\<rparr>" c] assms(2) by (simp add: s1_def d1_def)
  define s2 where "s2 = virtio_request b w 0 1 2 s1"
  note r = virtio_request_fields [of b w s1, folded s2_def]
  have m2: "mach s2 = ?T" "cur c s2 = cur c s" "procs s2 = procs s" by (subst r(1), simp add: s1_def)+
  define s3 where "s3 = s2\<lparr>mach := crit c (mach s)\<rparr>"
  have rel: "krelease c VdiskLock s2 = Inr s3" unfolding s3_def using m2(1) q by (rule krelease_taken)
  define s4 where "s4 = virtio_serve s3"
  have d3: "vdisk s3 = vdisk s2" "media s3 = media s" "media_log s3 = media_log s"
    "bufs s3 = (bufs s)(b := (bufs s b)\<lparr>b_disk := True\<rparr>)"
    unfolding s3_def by simp (subst r(1), simp add: s1_def)+
  have av: "avail_idx (vdisk s1) = avail_idx (vdisk s)" "last_avail (vdisk s1) = avail_idx (vdisk s)"
    "used_idx (vdisk s1) = used_idx (vdisk s)" "used_dev_idx (vdisk s1) = used_idx (vdisk s)"
    "bufs s1 = bufs s"
    using assms(2) by (simp_all add: s1_def d1_def disk_idle_def)
  note serve = virtio_serve_step [of s3 b w "ucast (b_blockno (bufs s b) * 2)" "b_blockno (bufs s b)"]
  have s4: "s4 = s3\<lparr>
      media := (if w then (media s3)(b_blockno (bufs s b) := b_data (bufs s3 b)) else media s3),
      media_log := (if w then media_log s3 @ [(b_blockno (bufs s b), b_data (bufs s3 b))] else media_log s3),
      bufs := (if w then bufs s3 else (bufs s3)(b := (bufs s3 b)\<lparr>b_data := media s3 (b_blockno (bufs s b))\<rparr>)),
      vdisk := (vdisk s3)\<lparr>info_status := (info_status (vdisk s3))(0 := 0),
        used_ring := (used_ring (vdisk s3))(unat (used_dev_idx (vdisk s3)) mod NUM := 0),
        used_dev_idx := used_dev_idx (vdisk s3) + 1, last_avail := last_avail (vdisk s3) + 1\<rparr>\<rparr>"
    unfolding s4_def using r sector_block [OF assms(3)] by (intro serve) (simp_all add: d3 av)
  have q4: "quiet c (insert VdiskLock proc_locks) s4"
    using assms(1) by (simp add: s4 s3_def quiet_def)
  have f4: "used_dev_idx (vdisk s4) = used_idx (vdisk s4) + 1" "used_ring (vdisk s4) (unat (used_idx (vdisk s4)) mod NUM) = 0"
    "info_status (vdisk s4) 0 = 0" "info_b (vdisk s4) 0 = Some b" "last_avail (vdisk s4) = avail_idx (vdisk s4)"
    "desc (vdisk s4) = desc (vdisk s2)" "dfree (vdisk s4) = dfree d1"
    "cur c s4 = cur c s" "procs s4 = procs s" "mach s4 = crit c (mach s)"
    using r av m2 by (simp_all add: s4 d3 s3_def) (simp add: s1_def)
  obtain ps where ps: "virtio_disk_intr c s4 = Inr (s4\<lparr>mach := crit c (mach s4), procs := ps,
      vdisk := (vdisk s4)\<lparr>used_idx := used_idx (vdisk s4) + 1\<rparr>,
      bufs := (bufs s4)(b := (bufs s4 b)\<lparr>b_disk := False\<rparr>)\<rparr>)" "woken (cur c s4) (procs s4) ps"
    using virtio_intr_ok [OF q4 f4(1-4)] by blast
  define s5 where "s5 = s4\<lparr>mach := ?T, procs := ps,
      vdisk := (vdisk s4)\<lparr>used_idx := used_idx (vdisk s4) + 1, info_b := (info_b (vdisk s4))(0 := None)\<rparr>,
      bufs := (bufs s4)(b := (bufs s4 b)\<lparr>b_disk := False\<rparr>)\<rparr>"
  have lf: "lock_free VdiskLock (crit c (mach s))" using q by simp
  define s5' where "s5' = s4\<lparr>mach := ?T, procs := ps, vdisk := (vdisk s4)\<lparr>used_idx := used_idx (vdisk s4) + 1\<rparr>,
      bufs := (bufs s4)(b := (bufs s4 b)\<lparr>b_disk := False\<rparr>)\<rparr>"
  have wt: "virtio_wait c b s2 = Inr s5'"
    using rel ps(1) q lf by (simp add: virtio_wait_def s4_def [symmetric] f4 s5'_def)
  have up: "upd_disk (\<lambda>d. d\<lparr>info_b := (info_b d)(0 := None)\<rparr>) s5' = s5" by (simp add: s5'_def s5_def upd_disk_def)
  have h5: "held c s5" using assms(1) q by (auto simp: held_def quiet_def s5_def)
  obtain qs where qs: "free_chain c NUM 0 s5 = Inr (s5\<lparr>procs := qs, vdisk := freed 2 (freed 1 (freed 0 (vdisk s5)))\<rparr>)"
    "woken (cur c s5) (procs s5) qs"
    using free_chain3_ok [OF h5] r f4(6,7) by (auto simp: s5_def d1_def)
  define s6 where "s6 = s5\<lparr>procs := qs, vdisk := freed 2 (freed 1 (freed 0 (vdisk s5)))\<rparr>"
  have rel6: "krelease c VdiskLock s6 = Inr (s6\<lparr>mach := crit c (mach s)\<rparr>)"
    using q by (intro krelease_taken) (simp_all add: s6_def s5_def)
  have c6: "free_chain c NUM 0 s5 = Inr s6" unfolding s6_def by (rule qs(1))
  have r2: "virtio_request b w 0 (Suc 0) 2 s1 = s2" by (simp add: s2_def)
  have run: "virtio_disk_rw c b w s = Inr (s6\<lparr>mach := crit c (mach s)\<rparr>)"
    unfolding virtio_disk_rw_def
    using q a wt up c6 rel6 r2 by (simp del: free_chain.simps)
  have only: "disk_only s s6"
  proof -
    have "disk_only s s2" by (subst r(1)) (simp add: s1_def)
    then show ?thesis by (simp add: s6_def s5_def s4 s3_def)
  qed
  have fin: "media s6 = media_after b w s" "media_log s6 = media_log_after b w s" "bufs s6 = bufs_after b w s"
    by (simp_all add: s6_def s5_def s4 d3 media_after_def media_log_after_def bufs_after_def)
  have "woken (cur c s) (procs s) (procs s6)"
    using ps(2) qs(2) f4 by (simp add: s6_def s5_def) (metis woken_trans)
  moreover have "disk_idle (vdisk s6)"
    using assms(2) f4(1,5,7) by (auto simp: disk_idle_def s6_def s5_def freed_def d1_def)
  moreover have "s6\<lparr>mach := crit c (mach s)\<rparr> = s\<lparr>mach := crit c (mach s), procs := procs s6, vdisk := vdisk s6,
      media := media s6, media_log := media_log s6, bufs := bufs s6\<rparr>"
  proof -
    have "s6 = carry s6 s" using only by (simp add: disk_only_def)
    then have "s6\<lparr>mach := crit c (mach s)\<rparr> = (carry s6 s)\<lparr>mach := crit c (mach s)\<rparr>" by simp
    then show ?thesis by (simp add: carry_def)
  qed
  ultimately show ?thesis using run unfolding fin by metis
qed

section \<open>Correctness\<close>

text \<open>A machine with an idle disk and empty buffers in a list, for the examples.\<close>

definition demo_disk :: disk where
  "demo_disk = \<lparr>desc = (\<lambda>_. \<lparr>d_addr = NoAddr, d_len = 0, d_flags = 0, d_next = 0\<rparr>), avail_idx = 0, avail_ring = (\<lambda>_. 0),
     used_dev_idx = 0, used_ring = (\<lambda>_. 0), dfree = (\<lambda>_. True), used_idx = 0, info_b = (\<lambda>_. None),
     info_status = (\<lambda>_. 0), dops = (\<lambda>_. \<lparr>r_type = 0, r_sector = 0\<rparr>), last_avail = 0, queue_pages = [], mmio_log = []\<rparr>"

definition demo_buf :: "nat \<Rightarrow> buf" where
  "demo_buf i = \<lparr>b_valid = False, b_disk = False, b_dev = 0, b_blockno = 0, b_refcnt = 0,
     b_prev = (if i = 0 then NBUF else i - 1), b_next = (if i = NBUF then 0 else i + 1), b_data = (\<lambda>_. 0)\<rparr>"

definition demo_fk :: "(uint \<Rightarrow> bytes) \<Rightarrow> (nat \<Rightarrow> proc) \<Rightarrow> machine \<Rightarrow> fkstate" where
  "demo_fk md ps m = dkstate.extend (demo_dk (replicate 400 True) [] ps m)
     \<lparr>vdisk = demo_disk, media = md, media_log = [], bufs = demo_buf,
      log = \<lparr>l_start = 2, l_size = 30, l_outstanding = 0, l_committing = False, l_dev = 1, lh_n = 0, lh_block = replicate 30 0\<rparr>,
      sb = \<lparr>sb_magic = 0x10203040, sb_size = 2000, sb_nblocks = 1954, sb_ninodes = 200, sb_nlog = 30, sb_logstart = 2,
        sb_inodestart = 32, sb_bmapstart = 45\<rparr>,
      itable = (\<lambda>_. \<lparr>i_dev = 0, i_inum = 0, i_ref = 0, i_valid = False, i_type = 0, i_major = 0, i_minor = 0, i_nlink = 0,
        i_size = 0, i_addrs = replicate 13 0\<rparr>),
      ftable = (\<lambda>_. \<lparr>f_type = FD_NONE, f_ref = 0, f_readable = False, f_writable = False, f_pipe = 0, f_ip = 0, f_off = 0, f_major = 0\<rparr>),
      pipes = (\<lambda>_. \<lparr>pi_data = replicate 512 0, pi_nread = 0, pi_nwrite = 0, pi_readopen = False, pi_writeopen = False\<rparr>),
      stk = 0x3fffffd000\<rparr>"

lemma demo_fk_fields [simp]:
  "mach (demo_fk md ps m) = m" "procs (demo_fk md ps m) = ps" "vdisk (demo_fk md ps m) = demo_disk"
  "media (demo_fk md ps m) = md" "media_log (demo_fk md ps m) = []" "bufs (demo_fk md ps m) = demo_buf"
  "sleeplocks (demo_fk md ps m) = (\<lambda>_. \<lparr>sl_locked = 0, sl_name = [], sl_pid = 0\<rparr>)"
  by (simp_all add: demo_fk_def dkstate.defs demo_dk_def pkstate.defs demo_pk_def)

lemma demo_disk_idle: "disk_idle demo_disk"
  by (simp add: disk_idle_def demo_disk_def)



end
