(* ===== verification/Bio.thy ===== *)
theory Bio
  imports Virtio_Ok
begin

text \<open>
  The buffer cache, \<open>kernel/bio.c\<close>: a doubly linked list of buffers in the order of their last use. The
  links are the fields \<open>prev\<close> and \<open>next\<close> of the source, with indices for pointers; the index \<open>NBUF\<close> is
  \<open>bcache.head\<close>.
\<close>

section \<open>Operations\<close>

abbreviation head :: nat where "head \<equiv> NBUF"

definition link_front :: "nat \<Rightarrow> 'a fkstate_scheme \<Rightarrow> 'a fkstate_scheme" where
  "link_front b s =
     (let s = upd_buf b (\<lambda>x. x\<lparr>b_next := b_next (bufs s head)\<rparr>) s;
          s = upd_buf b (\<lambda>x. x\<lparr>b_prev := head\<rparr>) s;
          s = upd_buf (b_next (bufs s head)) (\<lambda>x. x\<lparr>b_prev := b\<rparr>) s
      in upd_buf head (\<lambda>x. x\<lparr>b_next := b\<rparr>) s)"

definition binit :: "'a fkstate_scheme \<Rightarrow> 'a fkstate_scheme" where
  "binit s =
     (let s = s\<lparr>mach := initlock BcacheLock ''bcache'' (mach s)\<rparr>;
          s = upd_buf head (\<lambda>x. x\<lparr>b_prev := head, b_next := head\<rparr>) s
      in fold (\<lambda>b s. link_front b (initsleeplock (BufLock b) ''buffer'' s)) [0..<NBUF] s)"

fun bget_find :: "nat \<Rightarrow> (nat \<Rightarrow> buf) \<Rightarrow> uint \<Rightarrow> uint \<Rightarrow> nat \<Rightarrow> nat option kres" where
  "bget_find 0 bs dv blockno b = Inl (Spin ''bget'')"
| "bget_find (Suc n) bs dv blockno b =
     (if b = head then Inr None
      else if b_dev (bs b) = dv \<and> b_blockno (bs b) = blockno then Inr (Some b)
      else bget_find n bs dv blockno (b_next (bs b)))"

fun bget_lru :: "nat \<Rightarrow> (nat \<Rightarrow> buf) \<Rightarrow> nat \<Rightarrow> nat option kres" where
  "bget_lru 0 bs b = Inl (Spin ''bget'')"
| "bget_lru (Suc n) bs b =
     (if b = head then Inr None
      else if b_refcnt (bs b) = 0 then Inr (Some b)
      else bget_lru n bs (b_prev (bs b)))"

definition bget :: "nat \<Rightarrow> uint \<Rightarrow> uint \<Rightarrow> 'a fkstate_scheme \<Rightarrow> (nat \<times> 'a fkstate_scheme) kres" where
  "bget c dv blockno s =
     bnd (kacquire c BcacheLock s) (\<lambda>s.
     bnd (bget_find (Suc NBUF) (bufs s) dv blockno (b_next (bufs s head))) (\<lambda>r.
       case r of
         Some b \<Rightarrow>
           bnd (krelease c BcacheLock (upd_buf b (\<lambda>x. x\<lparr>b_refcnt := b_refcnt x + 1\<rparr>) s)) (\<lambda>s.
           bnd (acquiresleep c (BufLock b) s) (\<lambda>s. Inr (b, s)))
       | None \<Rightarrow>
           bnd (bget_lru (Suc NBUF) (bufs s) (b_prev (bufs s head))) (\<lambda>r.
             case r of
               Some b \<Rightarrow>
                 bnd (krelease c BcacheLock (upd_buf b (\<lambda>x. x\<lparr>b_dev := dv, b_blockno := blockno,
                        b_valid := False, b_refcnt := 1\<rparr>) s)) (\<lambda>s.
                 bnd (acquiresleep c (BufLock b) s) (\<lambda>s. Inr (b, s)))
             | None \<Rightarrow> Inl (Panic ''bget: no buffers''))))"

definition bread :: "nat \<Rightarrow> uint \<Rightarrow> uint \<Rightarrow> 'a fkstate_scheme \<Rightarrow> (nat \<times> 'a fkstate_scheme) kres" where
  "bread c dv blockno s =
     bnd (bget c dv blockno s) (\<lambda>(b, s).
       if \<not> b_valid (bufs s b)
       then bnd (virtio_disk_rw c b False s) (\<lambda>s. Inr (b, upd_buf b (\<lambda>x. x\<lparr>b_valid := True\<rparr>) s))
       else Inr (b, s))"

definition bwrite :: "nat \<Rightarrow> nat \<Rightarrow> 'a fkstate_scheme \<Rightarrow> 'a fkstate_scheme kres" where
  "bwrite c b s =
     bnd (holdingsleep c (BufLock b) s) (\<lambda>(h, s).
       if \<not> h then Inl (Panic ''bwrite'') else virtio_disk_rw c b True s)"

definition brelse :: "nat \<Rightarrow> nat \<Rightarrow> 'a fkstate_scheme \<Rightarrow> 'a fkstate_scheme kres" where
  "brelse c b s =
     bnd (holdingsleep c (BufLock b) s) (\<lambda>(h, s).
       if \<not> h then Inl (Panic ''brelse'')
       else bnd (releasesleep c (BufLock b) s) (\<lambda>s.
            bnd (kacquire c BcacheLock s) (\<lambda>s.
              let s = upd_buf b (\<lambda>x. x\<lparr>b_refcnt := b_refcnt x - 1\<rparr>) s;
                  s = (if b_refcnt (bufs s b) = 0
                       then let s = upd_buf (b_next (bufs s b)) (\<lambda>x. x\<lparr>b_prev := b_prev (bufs s b)\<rparr>) s;
                                s = upd_buf (b_prev (bufs s b)) (\<lambda>x. x\<lparr>b_next := b_next (bufs s b)\<rparr>) s
                            in link_front b s
                       else s)
              in krelease c BcacheLock s)))"

definition bpin :: "nat \<Rightarrow> nat \<Rightarrow> 'a fkstate_scheme \<Rightarrow> 'a fkstate_scheme kres" where
  "bpin c b s =
     bnd (kacquire c BcacheLock s) (\<lambda>s. krelease c BcacheLock (upd_buf b (\<lambda>x. x\<lparr>b_refcnt := b_refcnt x + 1\<rparr>) s))"

definition bunpin :: "nat \<Rightarrow> nat \<Rightarrow> 'a fkstate_scheme \<Rightarrow> 'a fkstate_scheme kres" where
  "bunpin c b s =
     bnd (kacquire c BcacheLock s) (\<lambda>s. krelease c BcacheLock (upd_buf b (\<lambda>x. x\<lparr>b_refcnt := b_refcnt x - 1\<rparr>) s))"

end
