(* ===== verification/Log.thy ===== *)
theory Log
  imports Bio
begin

text \<open>The write-ahead log, \<open>kernel/log.c\<close>.\<close>

section \<open>Integers in block data\<close>

definition get32 :: "bytes \<Rightarrow> nat \<Rightarrow> uint" where
  "get32 d o1 = ucast (d o1) OR push_bit 8 (ucast (d (o1 + 1))) OR push_bit 16 (ucast (d (o1 + 2)))
     OR push_bit 24 (ucast (d (o1 + 3)))"

definition put32 :: "nat \<Rightarrow> uint \<Rightarrow> bytes \<Rightarrow> bytes" where
  "put32 o1 v d = d(o1 := ucast v, o1 + 1 := ucast (drop_bit 8 v), o1 + 2 := ucast (drop_bit 16 v),
     o1 + 3 := ucast (drop_bit 24 v))"

definition get16 :: "bytes \<Rightarrow> nat \<Rightarrow> ushort" where
  "get16 d o1 = ucast (d o1) OR push_bit 8 (ucast (d (o1 + 1)))"

definition put16 :: "nat \<Rightarrow> ushort \<Rightarrow> bytes \<Rightarrow> bytes" where
  "put16 o1 v d = d(o1 := ucast v, o1 + 1 := ucast (drop_bit 8 v))"

section \<open>The log\<close>

definition upd_log :: "(log \<Rightarrow> log) \<Rightarrow> 'a fkstate_scheme \<Rightarrow> 'a fkstate_scheme" where
  "upd_log f s = s\<lparr>log := f (log s)\<rparr>"

text \<open>Block number \<open>i\<close> of the header in memory; there are \<open>LOGSIZE\<close> of them.\<close>

definition logged :: "nat \<Rightarrow> 'a fkstate_scheme \<Rightarrow> uint kres" where
  "logged i s = (if i < length (lh_block (log s)) then Inr (lh_block (log s) ! i) else Inl (Undefined ''array index''))"

definition log_dev :: "'a fkstate_scheme \<Rightarrow> uint" where
  "log_dev s = word_of_int (l_dev (log s))"

definition log_blk :: "nat \<Rightarrow> 'a fkstate_scheme \<Rightarrow> uint" where
  "log_blk tail s = word_of_int (l_start (log s) + int tail + 1)"

definition copy_block :: "nat \<Rightarrow> nat \<Rightarrow> 'a fkstate_scheme \<Rightarrow> 'a fkstate_scheme" where
  "copy_block dst src s = upd_buf dst (\<lambda>x. x\<lparr>b_data := b_data (bufs s src)\<rparr>) s"

definition install_one :: "nat \<Rightarrow> bool \<Rightarrow> nat \<Rightarrow> 'a fkstate_scheme \<Rightarrow> 'a fkstate_scheme kres" where
  "install_one c recovering tail s =
     bnd (bread c (log_dev s) (log_blk tail s) s) (\<lambda>(lbuf, s).
     bnd (logged tail s) (\<lambda>blockno.
     bnd (bread c (log_dev s) blockno s) (\<lambda>(dbuf, s).
     bnd (bwrite c dbuf (copy_block dbuf lbuf s)) (\<lambda>s.
     bnd (if recovering then Inr s else bunpin c dbuf s) (\<lambda>s.
     bnd (brelse c lbuf s) (\<lambda>s. brelse c dbuf s))))))"

definition install_trans :: "nat \<Rightarrow> bool \<Rightarrow> 'a fkstate_scheme \<Rightarrow> 'a fkstate_scheme kres" where
  "install_trans c recovering s = foldM (install_one c recovering) [0..<nat (lh_n (log s))] s"

definition read_head_entry :: "nat \<Rightarrow> nat \<Rightarrow> 'a fkstate_scheme \<Rightarrow> 'a fkstate_scheme kres" where
  "read_head_entry b i s =
     (if i < LOGSIZE
      then Inr (upd_log (\<lambda>l. l\<lparr>lh_block := (lh_block l)[i := get32 (b_data (bufs s b)) (4 + 4 * i)]\<rparr>) s)
      else Inl (Undefined ''array index''))"

definition read_head :: "nat \<Rightarrow> 'a fkstate_scheme \<Rightarrow> 'a fkstate_scheme kres" where
  "read_head c s =
     bnd (bread c (log_dev s) (word_of_int (l_start (log s))) s) (\<lambda>(b, s).
       let s = upd_log (\<lambda>l. l\<lparr>lh_n := sint (get32 (b_data (bufs s b)) 0)\<rparr>) s
       in bnd (foldM (read_head_entry b) [0..<nat (lh_n (log s))] s) (\<lambda>s. brelse c b s))"

definition write_head_entry :: "nat \<Rightarrow> nat \<Rightarrow> 'a fkstate_scheme \<Rightarrow> 'a fkstate_scheme kres" where
  "write_head_entry b i s =
     bnd (logged i s) (\<lambda>v. Inr (upd_buf b (\<lambda>x. x\<lparr>b_data := put32 (4 + 4 * i) v (b_data x)\<rparr>) s))"

definition write_head :: "nat \<Rightarrow> 'a fkstate_scheme \<Rightarrow> 'a fkstate_scheme kres" where
  "write_head c s =
     bnd (bread c (log_dev s) (word_of_int (l_start (log s))) s) (\<lambda>(b, s).
       let s = upd_buf b (\<lambda>x. x\<lparr>b_data := put32 0 (word_of_int (lh_n (log s))) (b_data x)\<rparr>) s
       in bnd (foldM (write_head_entry b) [0..<nat (lh_n (log s))] s) (\<lambda>s.
          bnd (bwrite c b s) (\<lambda>s. brelse c b s)))"

definition recover_from_log :: "nat \<Rightarrow> 'a fkstate_scheme \<Rightarrow> 'a fkstate_scheme kres" where
  "recover_from_log c s =
     bnd (read_head c s) (\<lambda>s.
     bnd (install_trans c True s) (\<lambda>s.
       write_head c (upd_log (\<lambda>l. l\<lparr>lh_n := 0\<rparr>) s)))"

text \<open>The header is smaller than a block: \<open>sizeof(struct logheader)\<close> is 124.\<close>

definition initlog :: "nat \<Rightarrow> int \<Rightarrow> superblock \<Rightarrow> 'a fkstate_scheme \<Rightarrow> 'a fkstate_scheme kres" where
  "initlog c dv super s =
     (if 4 + 4 * LOGSIZE \<ge> BSIZE then Inl (Panic ''initlog: too big logheader'')
      else recover_from_log c (upd_log (\<lambda>l. l\<lparr>l_start := sint (sb_logstart super), l_size := sint (sb_nlog super), l_dev := dv\<rparr>)
             (s\<lparr>mach := initlock LogLock ''log'' (mach s)\<rparr>)))"

definition begin_op :: "nat \<Rightarrow> 'a fkstate_scheme \<Rightarrow> 'a fkstate_scheme kres" where
  "begin_op c s =
     bnd (kacquire c LogLock s) (\<lambda>s.
       if l_committing (log s) then sleep c LogChan LogLock s
       else if lh_n (log s) + (l_outstanding (log s) + 1) * int MAXOPBLOCKS > int LOGSIZE then sleep c LogChan LogLock s
       else krelease c LogLock (upd_log (\<lambda>l. l\<lparr>l_outstanding := l_outstanding l + 1\<rparr>) s))"

definition write_log_one :: "nat \<Rightarrow> nat \<Rightarrow> 'a fkstate_scheme \<Rightarrow> 'a fkstate_scheme kres" where
  "write_log_one c tail s =
     bnd (bread c (log_dev s) (log_blk tail s) s) (\<lambda>(to, s).
     bnd (logged tail s) (\<lambda>blockno.
     bnd (bread c (log_dev s) blockno s) (\<lambda>(fr, s).
     bnd (bwrite c to (copy_block to fr s)) (\<lambda>s.
     bnd (brelse c fr s) (\<lambda>s. brelse c to s)))))"

definition write_log :: "nat \<Rightarrow> 'a fkstate_scheme \<Rightarrow> 'a fkstate_scheme kres" where
  "write_log c s = foldM (write_log_one c) [0..<nat (lh_n (log s))] s"

definition commit :: "nat \<Rightarrow> 'a fkstate_scheme \<Rightarrow> 'a fkstate_scheme kres" where
  "commit c s =
     (if lh_n (log s) > 0
      then bnd (write_log c s) (\<lambda>s.
           bnd (write_head c s) (\<lambda>s.
           bnd (install_trans c False s) (\<lambda>s.
             write_head c (upd_log (\<lambda>l. l\<lparr>lh_n := 0\<rparr>) s))))
      else Inr s)"

definition end_op :: "nat \<Rightarrow> 'a fkstate_scheme \<Rightarrow> 'a fkstate_scheme kres" where
  "end_op c s =
     bnd (kacquire c LogLock s) (\<lambda>s.
       let s = upd_log (\<lambda>l. l\<lparr>l_outstanding := l_outstanding l - 1\<rparr>) s
       in if l_committing (log s) then Inl (Panic ''log.committing'')
          else let do_commit = (l_outstanding (log s) = 0)
               in bnd (if do_commit then Inr (upd_log (\<lambda>l. l\<lparr>l_committing := True\<rparr>) s)
                       else wakeup c (Some LogChan) s) (\<lambda>s.
                  bnd (krelease c LogLock s) (\<lambda>s.
                    if do_commit
                    then bnd (commit c s) (\<lambda>s.
                         bnd (kacquire c LogLock s) (\<lambda>s.
                         bnd (wakeup c (Some LogChan) (upd_log (\<lambda>l. l\<lparr>l_committing := False\<rparr>) s)) (\<lambda>s.
                           krelease c LogLock s)))
                    else Inr s)))"

fun absorb :: "nat \<Rightarrow> uint list \<Rightarrow> uint \<Rightarrow> nat \<Rightarrow> nat" where
  "absorb 0 block blockno i = i"
| "absorb (Suc n) block blockno i = (if block ! i = blockno then i else absorb n block blockno (i + 1))"

definition log_write :: "nat \<Rightarrow> nat \<Rightarrow> 'a fkstate_scheme \<Rightarrow> 'a fkstate_scheme kres" where
  "log_write c b s =
     bnd (kacquire c LogLock s) (\<lambda>s.
       let n = lh_n (log s)
       in if n \<ge> int LOGSIZE \<or> n \<ge> l_size (log s) - 1 then Inl (Panic ''too big a transaction'')
          else if l_outstanding (log s) < 1 then Inl (Panic ''log_write outside of trans'')
          else let blockno = b_blockno (bufs s b);
                   i = absorb (nat n) (lh_block (log s)) blockno 0;
                   s = upd_log (\<lambda>l. l\<lparr>lh_block := (lh_block l)[i := blockno]\<rparr>) s
               in bnd (if int i = n then bnd (bpin c b s) (\<lambda>s. Inr (upd_log (\<lambda>l. l\<lparr>lh_n := lh_n l + 1\<rparr>) s)) else Inr s) (\<lambda>s.
                    krelease c LogLock s))"

end
