(* ===== verification/Console.thy ===== *)
theory Console
  imports Kprintf
begin

text \<open>
  The console, \<open>kernel/console.c\<close>: line editing in the input interrupt, reading a line at a time, and
  writing through the transmit buffer of the UART. \<open>uartintr()\<close> of \<open>kernel/uart.c\<close> is here because it
  calls the console.
\<close>

section \<open>Operations\<close>

definition INPUT_BUF_SIZE :: uint where [simp]: "INPUT_BUF_SIZE = 128"
definition CONSOLE :: nat where [simp]: "CONSOLE = 1"

abbreviation ctrl_d :: uchar where "ctrl_d \<equiv> 4"
abbreviation ctrl_h :: uchar where "ctrl_h \<equiv> 8"
abbreviation newline :: uchar where "newline \<equiv> 10"
abbreviation ctrl_p :: uchar where "ctrl_p \<equiv> 16"
abbreviation ctrl_u :: uchar where "ctrl_u \<equiv> 21"

definition upd_cons :: "(console \<Rightarrow> console) \<Rightarrow> 'a dkstate_scheme \<Rightarrow> 'a dkstate_scheme" where
  "upd_cons f s = s\<lparr>cons := f (cons s)\<rparr>"

fun consolewrite_loop :: "nat \<Rightarrow> bool \<Rightarrow> uint64 \<Rightarrow> nat \<Rightarrow> int \<Rightarrow> 'a dkstate_scheme \<Rightarrow> (int \<times> 'a dkstate_scheme) kres" where
  "consolewrite_loop c user_src src 0 i s = Inr (i, s)"
| "consolewrite_loop c user_src src (Suc n) i s =
     bnd (either_copyin c user_src (src + word_of_int i) 1 s) (\<lambda>(r, bs, s).
       if r = -1 then Inr (i, s)
       else bnd (uartputc c (bs ! 0) s) (consolewrite_loop c user_src src n (i + 1)))"

definition consolewrite :: "nat \<Rightarrow> bool \<Rightarrow> uint64 \<Rightarrow> int \<Rightarrow> 'a dkstate_scheme \<Rightarrow> (int \<times> 'a dkstate_scheme) kres" where
  "consolewrite c user_src src n s = consolewrite_loop c user_src src (nat n) 0 s"

text \<open>The loop of \<open>consoleread\<close>; \<open>k\<close> is \<open>n\<close>, and the result is its value when the loop ends, or None for -1.\<close>

fun consoleread_loop :: "nat \<Rightarrow> bool \<Rightarrow> nat \<Rightarrow> nat \<Rightarrow> uint64 \<Rightarrow> 'a dkstate_scheme \<Rightarrow> (nat option \<times> 'a dkstate_scheme) kres" where
  "consoleread_loop c user_dst target 0 dst s = Inr (Some 0, s)"
| "consoleread_loop c user_dst target (Suc k) dst s =
     (if cons_r (cons s) = cons_w (cons s)
      then bnd (curproc c s) (\<lambda>(p, s). bnd (killed c p s) (\<lambda>(kl, s).
             if kl \<noteq> 0 then Inr (None, s) else sleep c ConsChan ConsLock s))
      else let ch = cons_buf (cons s) ! unat (cons_r (cons s) mod INPUT_BUF_SIZE);
               s = upd_cons (\<lambda>x. x\<lparr>cons_r := cons_r x + 1\<rparr>) s
           in if ch = ctrl_d
              then Inr (Some (Suc k), if Suc k < target then upd_cons (\<lambda>x. x\<lparr>cons_r := cons_r x - 1\<rparr>) s else s)
              else bnd (either_copyout c user_dst dst (\<lambda>_. ch) 1 s) (\<lambda>(r, s).
                if r = -1 then Inr (Some (Suc k), s)
                else if ch = newline then Inr (Some k, s)
                else consoleread_loop c user_dst target k (dst + 1) s))"

definition consoleread :: "nat \<Rightarrow> bool \<Rightarrow> uint64 \<Rightarrow> int \<Rightarrow> 'a dkstate_scheme \<Rightarrow> (int \<times> 'a dkstate_scheme) kres" where
  "consoleread c user_dst dst n s =
     bnd (kacquire c ConsLock s) (\<lambda>s.
     bnd (consoleread_loop c user_dst (nat n) (nat n) dst s) (\<lambda>(res, s).
     bnd (krelease c ConsLock s) (\<lambda>s.
       Inr (case res of None \<Rightarrow> -1 | Some k \<Rightarrow> int (nat n) - int k, s))))"

fun kill_line :: "nat \<Rightarrow> nat \<Rightarrow> 'a dkstate_scheme \<Rightarrow> 'a dkstate_scheme kres" where
  "kill_line c 0 s = Inl (Spin ''kill line'')"
| "kill_line c (Suc n) s =
     (if cons_e (cons s) \<noteq> cons_w (cons s)
         \<and> cons_buf (cons s) ! unat ((cons_e (cons s) - 1) mod INPUT_BUF_SIZE) \<noteq> newline
      then bnd (consputc c BACKSPACE (upd_cons (\<lambda>x. x\<lparr>cons_e := cons_e x - 1\<rparr>) s)) (kill_line c n)
      else Inr s)"

definition consoleintr_char :: "nat \<Rightarrow> uchar \<Rightarrow> 'a dkstate_scheme \<Rightarrow> 'a dkstate_scheme kres" where
  "consoleintr_char c ch s =
     (if ch \<noteq> 0 \<and> cons_e (cons s) - cons_r (cons s) < INPUT_BUF_SIZE
      then let ch = (if ch = 13 then newline else ch)
           in bnd (consputc c (uint ch) s) (\<lambda>s.
              let s = upd_cons (\<lambda>x. x\<lparr>cons_buf := (cons_buf x)[unat (cons_e x mod INPUT_BUF_SIZE) := ch],
                                      cons_e := cons_e x + 1\<rparr>) s
              in if ch = newline \<or> ch = ctrl_d \<or> cons_e (cons s) - cons_r (cons s) = INPUT_BUF_SIZE
                 then wakeup c (Some ConsChan) (upd_cons (\<lambda>x. x\<lparr>cons_w := cons_e x\<rparr>) s)
                 else Inr s)
      else Inr s)"

definition consoleintr_key :: "nat \<Rightarrow> uchar \<Rightarrow> 'a dkstate_scheme \<Rightarrow> 'a dkstate_scheme kres" where
  "consoleintr_key c ch s =
     (if ch = ctrl_p then procdump_print c s
      else if ch = ctrl_u then kill_line c (Suc (unat (cons_e (cons s) - cons_w (cons s)))) s
      else if ch = ctrl_h \<or> ch = 0x7f
      then if cons_e (cons s) \<noteq> cons_w (cons s)
           then consputc c BACKSPACE (upd_cons (\<lambda>x. x\<lparr>cons_e := cons_e x - 1\<rparr>) s)
           else Inr s
      else consoleintr_char c ch s)"

definition consoleintr :: "nat \<Rightarrow> uchar \<Rightarrow> 'a dkstate_scheme \<Rightarrow> 'a dkstate_scheme kres" where
  "consoleintr c ch s =
     bnd (kacquire c ConsLock s) (\<lambda>s. bnd (consoleintr_key c ch s) (krelease c ConsLock))"

definition consoleinit :: "'a dkstate_scheme \<Rightarrow> 'a dkstate_scheme" where
  "consoleinit s =
     (let s = uartinit (s\<lparr>mach := initlock ConsLock ''cons'' (mach s)\<rparr>)
      in s\<lparr>devsw := (devsw s)(CONSOLE := True)\<rparr>)"

fun uartintr_input :: "nat \<Rightarrow> nat \<Rightarrow> 'a dkstate_scheme \<Rightarrow> 'a dkstate_scheme kres" where
  "uartintr_input c 0 s = Inl (Spin ''uartintr'')"
| "uartintr_input c (Suc n) s =
     (case uartgetc s of (ch, s) \<Rightarrow>
        if ch = -1 then Inr s else bnd (consoleintr c (word_of_int ch) s) (uartintr_input c n))"

definition uartintr :: "nat \<Rightarrow> 'a dkstate_scheme \<Rightarrow> 'a dkstate_scheme kres" where
  "uartintr c s =
     bnd (uartintr_input c (Suc (length (rx (dev s)))) s) (\<lambda>s.
     bnd (kacquire c UartTxLock s) (\<lambda>s. bnd (uartstart c s) (krelease c UartTxLock)))"

section \<open>The line discipline\<close>

interpretation cons_ring: ring INPUT_BUF_SIZE
  by unfold_locales simp_all

text \<open>
  The abstract console: the complete lines that \<open>consoleread()\<close> may consume, and the line being edited.
\<close>

definition ready :: "console \<Rightarrow> uchar list" where
  "ready x = ring_q INPUT_BUF_SIZE (cons_buf x) (cons_r x) (cons_w x)"

definition editing :: "console \<Rightarrow> uchar list" where
  "editing x = ring_q INPUT_BUF_SIZE (cons_buf x) (cons_w x) (cons_e x)"

definition cons_ok :: "console \<Rightarrow> bool" where
  "cons_ok x \<longleftrightarrow> length (cons_buf x) = 128 \<and> unat (cons_w x - cons_r x) \<le> unat (cons_e x - cons_r x)
     \<and> unat (cons_e x - cons_r x) \<le> 128 \<and> newline \<notin> set (editing x)"

definition type_char :: "uchar \<Rightarrow> uchar list \<times> uchar list \<Rightarrow> uchar list \<times> uchar list" where
  "type_char ch q = (case q of (rd, ed) \<Rightarrow>
     if ch = ctrl_p then (rd, ed)
     else if ch = ctrl_u then (rd, [])
     else if ch = ctrl_h \<or> ch = 0x7f then (rd, butlast ed)
     else if ch = 0 \<or> length rd + length ed \<ge> 128 then (rd, ed)
     else let ch = (if ch = 13 then newline else ch); ed = ed @ [ch]
          in if ch = newline \<or> ch = ctrl_d \<or> length rd + length ed = 128 then (rd @ ed, []) else (rd, ed))"

definition patient :: "nat \<Rightarrow> 'a dkstate_scheme \<Rightarrow> bool" where
  "patient n s \<longleftrightarrow> n \<le> length (filter id (tx_idle (dev s))) \<and> \<not> panicked s"

definition echoed :: "nat \<Rightarrow> nat \<Rightarrow> 'a dkstate_scheme \<Rightarrow> 'a dkstate_scheme \<Rightarrow> bool" where
  "echoed c n s s' \<longleftrightarrow> patient n s' \<and> (\<exists>d. s' = s\<lparr>mach := crit c (mach s), dev := d\<rparr>)"

lemma echoedI: "patient n (s\<lparr>mach := crit c (mach s), dev := d\<rparr>) \<Longrightarrow> echoed c n s (s\<lparr>dev := d, mach := crit c (mach s)\<rparr>)"
  unfolding echoed_def by (intro conjI exI [of _ d]) (simp_all add: patient_def)

lemma uartputc_sync_ok:
  assumes "cpu_ok c (mach s)" "patient (Suc n) s"
  shows "\<exists>s'. uartputc_sync c ch s = Inr s' \<and> echoed c n s s'"
proof -
  obtain bs where bs: "dropWhile Not (tx_idle (dev s)) = True # bs" "n \<le> length (filter id bs)"
  proof -
    have "Suc n \<le> length (filter id l) \<Longrightarrow> \<exists>bs. dropWhile Not l = True # bs \<and> n \<le> length (filter id bs)" for l
      by (induction l) auto
    then show ?thesis using assms(2) that by (auto simp: patient_def)
  qed
  then show ?thesis using assms pop_push_off [OF assms(1)]
    by (auto simp: uartputc_sync_def WriteReg_def patient_def intro!: echoedI)
qed

lemma echoed_keeps:
  "echoed c n s s' \<Longrightarrow> cpu_ok c (mach s') = cpu_ok c (mach s)"
  "echoed c n s s' \<Longrightarrow> patient n s'"
  by (auto simp: echoed_def)

lemma echoed_trans: "echoed c n s t \<Longrightarrow> echoed c k t u \<Longrightarrow> echoed c k s u"
  by (fastforce simp: echoed_def)

lemma patient_mono: "patient k t \<Longrightarrow> j \<le> k \<Longrightarrow> patient j t"
  by (auto simp: patient_def)

lemma consputc_ok:
  assumes "cpu_ok c (mach s)" "patient (Suc (Suc (Suc n))) s"
  shows "\<exists>s'. consputc c ch s = Inr s' \<and> echoed c n s s'"
proof -
  have s1: "\<exists>s1. uartputc_sync c b s = Inr s1 \<and> echoed c (Suc (Suc n)) s s1" for b
    using assms by (rule uartputc_sync_ok)
  obtain a where a: "uartputc_sync c 8 s = Inr a" "echoed c (Suc (Suc n)) s a" using s1 by blast
  obtain b where b: "uartputc_sync c 32 a = Inr b" "echoed c (Suc n) a b"
    using uartputc_sync_ok [of c a "Suc n" 32] echoed_keeps [OF a(2)] assms(1) by auto
  obtain d where d: "uartputc_sync c 8 b = Inr d" "echoed c n b d"
    using uartputc_sync_ok [of c b n 8] echoed_keeps [OF a(2)] echoed_keeps [OF b(2)] assms(1) by auto
  show ?thesis
  proof (cases "ch = BACKSPACE")
    case True
    then show ?thesis
      using a(1) b(1) d(1) echoed_trans [OF echoed_trans [OF a(2) b(2)] d(2)] by (simp add: consputc_def)
  next
    case False
    obtain e where e: "uartputc_sync c (word_of_int ch) s = Inr e" "echoed c (Suc (Suc n)) s e" using s1 by blast
    then have "echoed c n s e" by (auto simp: echoed_def patient_def)
    then show ?thesis using False e(1) by (auto simp: consputc_def)
  qed
qed

lemma editing_pop:
  assumes "cons_e x \<noteq> cons_w x"
  shows "editing x = editing (x\<lparr>cons_e := cons_e x - 1\<rparr>) @ [cons_buf x ! unat ((cons_e x - 1) mod 128)]"
  using cons_ring.unpush [OF assms, of "cons_buf x"] by (simp add: editing_def)

lemma cons_ok_pop:
  assumes "cons_ok x" "cons_e x \<noteq> cons_w x"
  shows "cons_ok (x\<lparr>cons_e := cons_e x - 1\<rparr>)" "unat (cons_e x - cons_w x) = Suc (unat (cons_e x - 1 - cons_w x))"
proof -
  have eq: "x - 1 - y = x - y - (1 :: uint)" for x y by simp
  show n: "unat (cons_e x - cons_w x) = Suc (unat (cons_e x - 1 - cons_w x))"
    unfolding eq by (rule Suc_unat_pred) (use assms in simp)
  have s: "unat (cons_e x - cons_r x) = unat (cons_w x - cons_r x) + unat (cons_e x - cons_w x)"
    using assms(1) ring_q_split(2) by (auto simp: cons_ok_def)
  then have "cons_e x - cons_r x \<noteq> 0" using n by (metis Zero_not_Suc add_is_0 unat_0)
  then have "unat (cons_e x - cons_r x) = Suc (unat (cons_e x - 1 - cons_r x))"
    unfolding eq by (rule Suc_unat_pred)
  moreover have "newline \<notin> set (editing (x\<lparr>cons_e := cons_e x - 1\<rparr>))"
    using assms editing_pop [OF assms(2)] by (simp add: cons_ok_def)
  ultimately show "cons_ok (x\<lparr>cons_e := cons_e x - 1\<rparr>)"
    using assms(1) n s by (simp add: cons_ok_def)
qed

lemma kill_line_ok:
  assumes "cpu_ok c (mach s)" "crit c (mach s) = mach s" "patient (3 * k) s" "cons_ok (cons s)"
    "unat (cons_e (cons s) - cons_w (cons s)) < k"
  shows "\<exists>d. kill_line c k s = Inr (s\<lparr>dev := d, cons := (cons s)\<lparr>cons_e := cons_w (cons s)\<rparr>\<rparr>)"
  using assms
proof (induction k arbitrary: s)
  case (Suc k)
  let ?x = "cons s"
  let ?y = "?x\<lparr>cons_e := cons_e ?x - 1\<rparr>"
  show ?case
  proof (cases "cons_e ?x = cons_w ?x")
    case True
    then have "s\<lparr>dev := dev s, cons := ?x\<lparr>cons_e := cons_w ?x\<rparr>\<rparr> = s" by simp
    then show ?thesis using True by (metis kill_line.simps(2))
  next
    case False
    have nl: "cons_buf ?x ! unat ((cons_e ?x - 1) mod 128) \<noteq> newline"
      using Suc.prems(4) editing_pop [OF False] by (auto simp: cons_ok_def)
    have "patient (Suc (Suc (Suc (3 * k)))) (s\<lparr>cons := ?y\<rparr>)" using Suc.prems(3) by (simp add: patient_def)
    then obtain t where t: "consputc c BACKSPACE (upd_cons (\<lambda>x. x\<lparr>cons_e := cons_e x - 1\<rparr>) s) = Inr t"
      "echoed c (3 * k) (s\<lparr>cons := ?y\<rparr>) t"
      using consputc_ok [of c "s\<lparr>cons := ?y\<rparr>" "3 * k" BACKSPACE] Suc.prems(1)
      by (auto simp: upd_cons_def)
    then obtain e where t': "t = s\<lparr>cons := ?y, dev := e\<rparr>" "patient (3 * k) t"
      using Suc.prems(2) by (auto simp: echoed_def)
    have f: "mach t = mach s" "cons t = ?y" by (simp_all add: t'(1))
    have "cons_ok (cons t)" "unat (cons_e (cons t) - cons_w (cons t)) < k"
      using cons_ok_pop [OF Suc.prems(4) False] Suc.prems(5) f by simp_all
    then obtain d where "kill_line c k t = Inr (t\<lparr>dev := d, cons := (cons t)\<lparr>cons_e := cons_w (cons t)\<rparr>\<rparr>)"
      using Suc.IH [of t] Suc.prems(1,2) f t'(2) by auto
    moreover have "t\<lparr>dev := d, cons := (cons t)\<lparr>cons_e := cons_w (cons t)\<rparr>\<rparr> = s\<lparr>dev := d, cons := ?x\<lparr>cons_e := cons_w ?x\<rparr>\<rparr>"
      by (subst t'(1)) (simp add: f)
    ultimately show ?thesis using False nl t(1) by auto
  qed
qed simp

lemma cons_lengths:
  assumes "cons_ok x"
  shows "length (ready x) + length (editing x) = unat (cons_e x - cons_r x)"
  using assms ring_q_split(2) [of "cons_w x" "cons_r x" "cons_e x"]
  by (simp add: cons_ok_def ready_def editing_def)

lemma type_push:
  fixes ch :: uchar
  assumes "cons_ok x" "unat (cons_e x - cons_r x) < 128"
  defines "y \<equiv> x\<lparr>cons_buf := (cons_buf x)[unat (cons_e x mod 128) := ch], cons_e := cons_e x + 1\<rparr>"
  shows "ready y = ready x" "editing y = editing x @ [ch]"
    and "unat (cons_e y - cons_r y) = Suc (unat (cons_e x - cons_r x))"
    and "ready (y\<lparr>cons_w := cons_e y\<rparr>) = ready x @ editing x @ [ch]"
proof -
  let ?b = "(cons_buf x)[unat (cons_e x mod 128) := ch]"
  have n: "unat (cons_e x + 1 - cons_r x) = Suc (unat (cons_e x - cons_r x))"
    using unat_diff_Suc [of "cons_e x" "cons_r x" 128] assms(2) by simp
  then show "unat (cons_e y - cons_r y) = Suc (unat (cons_e x - cons_r x))" by (simp add: y_def)
  have w: "unat (cons_w x - cons_r x) \<le> unat (cons_e x - cons_r x)" using assms(1) by (simp add: cons_ok_def)
  have all: "ring_q 128 ?b (cons_r x) (cons_e x + 1) = ready x @ editing x @ [ch]"
    using cons_ring.push [of "cons_buf x" "cons_e x" "cons_r x" ch] assms(1,2)
      ring_q_split(1) [OF w, of 128 "cons_buf x"]
    by (simp add: cons_ok_def ready_def editing_def)
  then show "ready (y\<lparr>cons_w := cons_e y\<rparr>) = ready x @ editing x @ [ch]" by (simp add: ready_def y_def)
  have "ring_q 128 ?b (cons_r x) (cons_e x + 1) = ready y @ editing y"
    using ring_q_split(1) [of "cons_w x" "cons_r x" "cons_e x + 1" 128 ?b] w n
    by (simp add: ready_def editing_def y_def)
  moreover have "length (ready y) = length (ready x)" by (simp add: ready_def y_def)
  ultimately show "ready y = ready x" "editing y = editing x @ [ch]" using all by simp_all
qed

definition cons_view :: "'a dkstate_scheme \<Rightarrow> uchar list \<times> uchar list" where
  "cons_view s = (ready (cons s), editing (cons s))"

definition cons_step_ok :: "nat \<Rightarrow> uchar \<Rightarrow> 'a dkstate_scheme \<Rightarrow> 'a dkstate_scheme \<Rightarrow> bool" where
  "cons_step_ok c ch s s' \<longleftrightarrow> cons_ok (cons s') \<and> cons_view s' = type_char ch (cons_view s) \<and> mach s' = mach s"

lemma kill_line_step:
  assumes "cpu_ok c (mach s)" "crit c (mach s) = mach s" "patient 387 s" "cons_ok (cons s)"
  shows "\<exists>s'. kill_line c (Suc (unat (cons_e (cons s) - cons_w (cons s)))) s = Inr s' \<and> cons_step_ok c ctrl_u s s'"
proof -
  let ?k = "unat (cons_e (cons s) - cons_w (cons s))"
  have k: "?k \<le> 128" using assms(4) cons_lengths [OF assms(4)] by (simp add: cons_ok_def editing_def)
  then have "patient (3 * Suc ?k) s" using assms(3) patient_mono by fastforce
  then obtain d where d: "kill_line c (Suc ?k) s = Inr (s\<lparr>dev := d, cons := (cons s)\<lparr>cons_e := cons_w (cons s)\<rparr>\<rparr>)"
    using kill_line_ok [OF assms(1,2) _ assms(4)] by blast
  show ?thesis unfolding d using assms(4)
    by (auto simp: cons_step_ok_def cons_view_def type_char_def cons_ok_def ready_def editing_def)
qed

lemma erase_step:
  assumes "cpu_ok c (mach s)" "crit c (mach s) = mach s" "patient 387 s" "cons_ok (cons s)"
    "cons_e (cons s) \<noteq> cons_w (cons s)" "ch = ctrl_h \<or> ch = 0x7f"
  shows "\<exists>s'. consputc c BACKSPACE (upd_cons (\<lambda>x. x\<lparr>cons_e := cons_e x - 1\<rparr>) s) = Inr s' \<and> cons_step_ok c ch s s'"
proof -
  let ?y = "(cons s)\<lparr>cons_e := cons_e (cons s) - 1\<rparr>"
  have "patient (Suc (Suc (Suc 384))) (s\<lparr>cons := ?y\<rparr>)" using assms(3) by (simp add: patient_def)
  then obtain t d where t: "consputc c BACKSPACE (upd_cons (\<lambda>x. x\<lparr>cons_e := cons_e x - 1\<rparr>) s) = Inr t"
    "t = s\<lparr>cons := ?y, dev := d\<rparr>"
    using consputc_ok [of c "s\<lparr>cons := ?y\<rparr>" 384 BACKSPACE] assms(1,2)
    by (auto simp: upd_cons_def echoed_def)
  show ?thesis using t cons_ok_pop [OF assms(4,5)] editing_pop [OF assms(5)] assms(6)
    by (auto simp: cons_step_ok_def cons_view_def type_char_def ready_def)
qed

lemma char_step:
  assumes "cpu_ok c (mach s)" "crit c (mach s) = mach s" "patient 387 s" "cons_ok (cons s)"
    "quiet c proc_locks s" "ch \<notin> {ctrl_p, ctrl_u, ctrl_h, 0x7f}"
  shows "\<exists>s'. consoleintr_char c ch s = Inr s' \<and> cons_step_ok c ch s s'"
proof (cases "ch \<noteq> 0 \<and> cons_e (cons s) - cons_r (cons s) < 128")
  case False
  then have "consoleintr_char c ch s = Inr s" by (auto simp: consoleintr_char_def)
  moreover have "type_char ch (cons_view s) = cons_view s"
    using False assms(6) cons_lengths [OF assms(4)] by (auto simp: type_char_def cons_view_def word_less_nat_alt)
  ultimately show ?thesis using assms(4) by (simp add: cons_step_ok_def)
next
  case True
  define k where "k = (if ch = 13 then newline else ch)"
  let ?x = "cons s"
  define y where "y = ?x\<lparr>cons_buf := (cons_buf ?x)[unat (cons_e ?x mod 128) := k], cons_e := cons_e ?x + 1\<rparr>"
  have l: "unat (cons_e ?x - cons_r ?x) < 128" using True by (simp add: word_less_nat_alt)
  note push = type_push [OF assms(4) l, of k, folded y_def]
  have "patient (Suc (Suc (Suc 384))) s" using assms(3) by simp
  then obtain t d where t: "consputc c (uint k) s = Inr t" "t = s\<lparr>dev := d\<rparr>"
    using consputc_ok [of c s 384 "uint k"] assms(1,2) by (auto simp: echoed_def)
  define u where "u = s\<lparr>dev := d, cons := y\<rparr>"
  define full where "full = (k = newline \<or> k = ctrl_d \<or> cons_e y - cons_r y = 128)"
  have run: "consoleintr_char c ch s
    = (if full then wakeup c (Some ConsChan) (u\<lparr>cons := y\<lparr>cons_w := cons_e y\<rparr>\<rparr>) else Inr u)"
    using True t by (simp add: consoleintr_char_def full_def Let_def k_def [symmetric] u_def y_def upd_cons_def)
  have len: "cons_e y - cons_r y = 128 \<longleftrightarrow> length (ready ?x) + length (editing ?x) + 1 = 128"
    using push(3) cons_lengths [OF assms(4)] by (simp add: word_unat_eq_iff)
  have ty: "type_char ch (cons_view s) = (if full then (ready ?x @ editing ?x @ [k], []) else (ready ?x, editing ?x @ [k]))"
    using True assms(6) l len cons_lengths [OF assms(4)]
    by (auto simp: type_char_def cons_view_def full_def Let_def k_def [symmetric])
  show ?thesis
  proof (cases full)
    case True
    let ?z = "y\<lparr>cons_w := cons_e y\<rparr>"
    have "quiet c proc_locks (u\<lparr>cons := ?z\<rparr>)" using assms(5) by (simp add: quiet_def u_def)
    from wakeup_eq [OF this, of "Some ConsChan"] obtain v where v: "consoleintr_char c ch s = Inr v"
      "cons v = ?z" "mach v = mach s" using run True assms(2) by (auto simp: u_def)
    have "cons_ok ?z" using assms(4) push(3) l by (simp add: cons_ok_def editing_def) (simp add: y_def)
    then show ?thesis using v ty True push(4) by (simp add: cons_step_ok_def cons_view_def editing_def)
  next
    case False
    have "cons_ok y"
      using assms(4) push l False by (auto simp: cons_ok_def full_def) (simp_all add: y_def)
    then show ?thesis using run False ty push by (simp add: cons_step_ok_def cons_view_def u_def)
  qed
qed

section \<open>Correctness\<close>

text \<open>
  C14. The console's line editing: on a console whose transmitter keeps becoming idle, handling a typed
  character other than control-P terminates with the lock free, keeps the ring buffer well formed, and changes
  the pair of consumable input and line being edited exactly as the editing rules say. Backspace and
  delete remove one character of the edited line, control-U all of it, a carriage return counts as a
  newline, input beyond 128 pending bytes is dropped, and newline, control-D or a full buffer hand the
  line to the readers.
\<close>

theorem console_line_discipline:
  assumes "quiet c (insert ConsLock proc_locks) s" and "cons_ok (cons s)" and "patient 387 s" and "ch \<noteq> ctrl_p"
  shows "\<exists>s'. consoleintr c ch s = Inr s' \<and> cons_ok (cons s') \<and> cons_view s' = type_char ch (cons_view s)
    \<and> lock_free ConsLock (mach s')"
proof -
  let ?s = "s\<lparr>mach := taken c ConsLock (mach s)\<rparr>"
  have c: "cpu_ok c (mach s)" and f: "lock_free ConsLock (mach s)" using assms(1) by (simp_all add: quiet_def)
  have pre: "cpu_ok c (mach ?s)" "crit c (mach ?s) = mach ?s" "patient 387 ?s" "cons_ok (cons ?s)"
    "quiet c proc_locks ?s"
    using assms c by (auto simp: quiet_def patient_def)
  note steps = kill_line_step [OF pre(1-4)] erase_step [OF pre(1-4), of ch] char_step [OF pre, of ch]
  have "cons_step_ok c ch ?s ?s" if "cons_e (cons s) = cons_w (cons s)" "ch = ctrl_h \<or> ch = 0x7f"
    using that assms(2) by (auto simp: cons_step_ok_def cons_view_def type_char_def editing_def)
  then have "\<exists>t. consoleintr_key c ch ?s = Inr t \<and> cons_step_ok c ch ?s t"
    using steps assms(4)
    by (cases "ch = ctrl_u"; cases "ch = ctrl_h \<or> ch = 0x7f"; cases "cons_e (cons s) = cons_w (cons s)")
      (simp_all add: consoleintr_key_def del: kill_line.simps)
  then obtain t where t: "consoleintr_key c ch ?s = Inr t" "cons_step_ok c ch ?s t" by blast
  have m: "mach t = taken c ConsLock (mach s)" using t(2) by (simp add: cons_step_ok_def)
  have "consoleintr c ch s = Inr (t\<lparr>mach := crit c (mach s)\<rparr>)"
    unfolding consoleintr_def kacquire_free [OF f] bnd_Inr t(1) by (rule krelease_taken [OF m c f])
  then show ?thesis using t(2) f by (simp add: cons_step_ok_def cons_view_def)
qed

theorem console_line_discipline_witness:
  "\<exists>s'. consoleintr 0 13 (demo_dk (replicate 400 True) [] demo_table demo_machine) = Inr s' \<and> cons_view s' = ([newline], [])"
  using console_line_discipline [of 0 "demo_dk (replicate 400 True) [] demo_table demo_machine" 13] demo_machine_ok
  by (auto simp: quiet_def cons_ok_def editing_def ready_def patient_def cons_view_def type_char_def
      demo_machine_def filter_replicate)

end
