(* ===== verification/Fs.thy ===== *)
theory Fs
  imports Log Console
begin

text \<open>
  The file system, \<open>kernel/fs.c\<close>: block allocator, inodes, directories and path names. An inode pointer is
  an index of the inode table; a path is the list of its bytes before the NUL.
\<close>

section \<open>Layout\<close>

definition ROOTINO :: uint where [simp]: "ROOTINO = 1"
definition FSMAGIC :: uint where [simp]: "FSMAGIC = 0x10203040"
definition NDIRECT :: nat where [simp]: "NDIRECT = 12"
definition NINDIRECT :: nat where [simp]: "NINDIRECT = BSIZE div 4"
definition MAXFILE :: nat where [simp]: "MAXFILE = NDIRECT + NINDIRECT"
definition IPB :: uint where [simp]: "IPB = 16"
definition BPB :: nat where [simp]: "BPB = BSIZE * 8"
definition DIRSIZ :: nat where [simp]: "DIRSIZ = 14"
definition T_DIR :: ushort where [simp]: "T_DIR = 1"
definition T_FILE :: ushort where [simp]: "T_FILE = 2"
definition T_DEVICE :: ushort where [simp]: "T_DEVICE = 3"

definition IBLOCK :: "uint \<Rightarrow> superblock \<Rightarrow> uint" where
  "IBLOCK i super = i div IPB + sb_inodestart super"

definition BBLOCK :: "uint \<Rightarrow> superblock \<Rightarrow> uint" where
  "BBLOCK b super = b div of_nat BPB + sb_bmapstart super"

text \<open>Byte offset of inode \<open>i\<close> in its block, and the fields of a \<open>struct dinode\<close> (64 bytes).\<close>

definition dip_off :: "uint \<Rightarrow> nat" where
  "dip_off inum = 64 * unat (inum mod IPB)"

definition dinode_addrs :: "bytes \<Rightarrow> nat \<Rightarrow> uint list" where
  "dinode_addrs d o1 = map (\<lambda>i. get32 d (o1 + 12 + 4 * i)) [0..<NDIRECT + 1]"

definition upd_data :: "nat \<Rightarrow> (bytes \<Rightarrow> bytes) \<Rightarrow> 'a fkstate_scheme \<Rightarrow> 'a fkstate_scheme" where
  "upd_data b f s = upd_buf b (\<lambda>x. x\<lparr>b_data := f (b_data x)\<rparr>) s"

definition upd_inode :: "nat \<Rightarrow> (inode \<Rightarrow> inode) \<Rightarrow> 'a fkstate_scheme \<Rightarrow> 'a fkstate_scheme" where
  "upd_inode i f s = s\<lparr>itable := (itable s)(i := f (itable s i))\<rparr>"

abbreviation data :: "nat \<Rightarrow> 'a fkstate_scheme \<Rightarrow> bytes" where
  "data b s \<equiv> b_data (bufs s b)"

section \<open>Super block and block allocator\<close>

definition readsb :: "nat \<Rightarrow> int \<Rightarrow> 'a fkstate_scheme \<Rightarrow> 'a fkstate_scheme kres" where
  "readsb c dv s =
     bnd (bread c (word_of_int dv) 1 s) (\<lambda>(bp, s).
       let d = data bp s
       in brelse c bp (s\<lparr>sb := \<lparr>sb_magic = get32 d 0, sb_size = get32 d 4, sb_nblocks = get32 d 8,
            sb_ninodes = get32 d 12, sb_nlog = get32 d 16, sb_logstart = get32 d 20, sb_inodestart = get32 d 24,
            sb_bmapstart = get32 d 28\<rparr>\<rparr>))"

definition fsinit :: "nat \<Rightarrow> int \<Rightarrow> 'a fkstate_scheme \<Rightarrow> 'a fkstate_scheme kres" where
  "fsinit c dv s =
     bnd (readsb c dv s) (\<lambda>s.
       if sb_magic (sb s) \<noteq> FSMAGIC then Inl (Panic ''invalid file system'') else initlog c dv (sb s) s)"

definition bzero :: "nat \<Rightarrow> uint \<Rightarrow> uint \<Rightarrow> 'a fkstate_scheme \<Rightarrow> 'a fkstate_scheme kres" where
  "bzero c dv bno s =
     bnd (bread c dv bno s) (\<lambda>(bp, s).
     bnd (log_write c bp (upd_data bp (\<lambda>d i. if i < BSIZE then 0 else d i) s)) (\<lambda>s. brelse c bp s))"

text \<open>The inner loop of \<open>balloc\<close>: the first clear bit of the bitmap block that stands for a block of the disk.\<close>

fun balloc_bits :: "nat \<Rightarrow> bytes \<Rightarrow> uint \<Rightarrow> nat \<Rightarrow> nat \<Rightarrow> nat option" where
  "balloc_bits 0 d sz b bi = None"
| "balloc_bits (Suc n) d sz b bi =
     (if \<not> (of_nat (b + bi) < sz) then None
      else if d (bi div 8) AND push_bit (bi mod 8) 1 = 0 then Some bi
      else balloc_bits n d sz b (bi + 1))"

fun balloc_loop :: "nat \<Rightarrow> uint \<Rightarrow> nat list \<Rightarrow> 'a fkstate_scheme \<Rightarrow> (uint \<times> 'a fkstate_scheme) kres" where
  "balloc_loop c dv [] s = bnd (printf c (''balloc: out of blocks'' @ [CHR 0x0A]) [] s) (\<lambda>s. Inr (0, s))"
| "balloc_loop c dv (b # bs) s =
     bnd (bread c dv (BBLOCK (of_nat b) (sb s)) s) (\<lambda>(bp, s).
       case balloc_bits BPB (data bp s) (sb_size (sb s)) b 0 of
         Some bi \<Rightarrow>
           bnd (log_write c bp (upd_data bp (\<lambda>d. d(bi div 8 := d (bi div 8) OR push_bit (bi mod 8) 1)) s)) (\<lambda>s.
           bnd (brelse c bp s) (\<lambda>s.
           bnd (bzero c dv (of_nat (b + bi)) s) (\<lambda>s. Inr (of_nat (b + bi), s))))
       | None \<Rightarrow> bnd (brelse c bp s) (balloc_loop c dv bs))"

definition balloc :: "nat \<Rightarrow> uint \<Rightarrow> 'a fkstate_scheme \<Rightarrow> (uint \<times> 'a fkstate_scheme) kres" where
  "balloc c dv s = balloc_loop c dv (map (\<lambda>k. k * BPB) [0..<(unat (sb_size (sb s)) + BPB - 1) div BPB]) s"

definition bfree :: "nat \<Rightarrow> uint \<Rightarrow> uint \<Rightarrow> 'a fkstate_scheme \<Rightarrow> 'a fkstate_scheme kres" where
  "bfree c dv b s =
     bnd (bread c dv (BBLOCK b (sb s)) s) (\<lambda>(bp, s).
       let bi = unat b mod BPB; m = push_bit (bi mod 8) 1
       in if data bp s (bi div 8) AND m = 0 then Inl (Panic ''freeing free block'')
          else bnd (log_write c bp (upd_data bp (\<lambda>d. d(bi div 8 := d (bi div 8) AND NOT m)) s)) (\<lambda>s. brelse c bp s))"

section \<open>Inodes\<close>

definition iinit :: "'a fkstate_scheme \<Rightarrow> 'a fkstate_scheme" where
  "iinit s = fold (\<lambda>i s. initsleeplock (InodeLock i) ''inode'' s) [0..<NINODE]
     (s\<lparr>mach := initlock ItableLock ''itable'' (mach s)\<rparr>)"

fun iget_scan :: "(nat \<Rightarrow> inode) \<Rightarrow> uint \<Rightarrow> uint \<Rightarrow> nat list \<Rightarrow> nat option \<Rightarrow> nat option \<times> nat option" where
  "iget_scan it dv inum [] emp = (None, emp)"
| "iget_scan it dv inum (i # is) emp =
     (if i_ref (it i) > 0 \<and> i_dev (it i) = dv \<and> i_inum (it i) = inum then (Some i, emp)
      else iget_scan it dv inum is (if emp = None \<and> i_ref (it i) = 0 then Some i else emp))"

definition iget :: "nat \<Rightarrow> uint \<Rightarrow> uint \<Rightarrow> 'a fkstate_scheme \<Rightarrow> (nat \<times> 'a fkstate_scheme) kres" where
  "iget c dv inum s =
     bnd (kacquire c ItableLock s) (\<lambda>s.
       case iget_scan (itable s) dv inum [0..<NINODE] None of
         (Some ip, _) \<Rightarrow>
           bnd (krelease c ItableLock (upd_inode ip (\<lambda>x. x\<lparr>i_ref := i_ref x + 1\<rparr>) s)) (\<lambda>s. Inr (ip, s))
       | (None, None) \<Rightarrow> Inl (Panic ''iget: no inodes'')
       | (None, Some ip) \<Rightarrow>
           bnd (krelease c ItableLock (upd_inode ip (\<lambda>x. x\<lparr>i_dev := dv, i_inum := inum, i_ref := 1, i_valid := False\<rparr>) s))
             (\<lambda>s. Inr (ip, s)))"

fun ialloc_loop :: "nat \<Rightarrow> uint \<Rightarrow> ushort \<Rightarrow> nat list \<Rightarrow> 'a fkstate_scheme \<Rightarrow> (nat option \<times> 'a fkstate_scheme) kres" where
  "ialloc_loop c dv ty [] s = bnd (printf c (''ialloc: no inodes'' @ [CHR 0x0A]) [] s) (\<lambda>s. Inr (None, s))"
| "ialloc_loop c dv ty (n # ns) s =
     (let inum = of_nat n; o1 = dip_off inum
      in bnd (bread c dv (IBLOCK inum (sb s)) s) (\<lambda>(bp, s).
           if get16 (data bp s) o1 = 0
           then bnd (log_write c bp (upd_data bp (\<lambda>d. put16 o1 ty (\<lambda>i. if o1 \<le> i \<and> i < o1 + 64 then 0 else d i)) s)) (\<lambda>s.
                bnd (brelse c bp s) (\<lambda>s.
                bnd (iget c dv inum s) (\<lambda>(ip, s). Inr (Some ip, s))))
           else bnd (brelse c bp s) (ialloc_loop c dv ty ns)))"

definition ialloc :: "nat \<Rightarrow> uint \<Rightarrow> ushort \<Rightarrow> 'a fkstate_scheme \<Rightarrow> (nat option \<times> 'a fkstate_scheme) kres" where
  "ialloc c dv ty s = ialloc_loop c dv ty [1..<unat (sb_ninodes (sb s))] s"

definition put_inode :: "nat \<Rightarrow> inode \<Rightarrow> bytes \<Rightarrow> bytes" where
  "put_inode o1 ip d =
     (let d = put16 o1 (i_type ip) d; d = put16 (o1 + 2) (i_major ip) d; d = put16 (o1 + 4) (i_minor ip) d;
          d = put16 (o1 + 6) (i_nlink ip) d; d = put32 (o1 + 8) (i_size ip) d
      in fold (\<lambda>i d. put32 (o1 + 12 + 4 * i) (i_addrs ip ! i) d) [0..<NDIRECT + 1] d)"

definition iupdate :: "nat \<Rightarrow> nat \<Rightarrow> 'a fkstate_scheme \<Rightarrow> 'a fkstate_scheme kres" where
  "iupdate c ip s =
     (let x = itable s ip
      in bnd (bread c (i_dev x) (IBLOCK (i_inum x) (sb s)) s) (\<lambda>(bp, s).
         bnd (log_write c bp (upd_data bp (put_inode (dip_off (i_inum x)) x) s)) (\<lambda>s. brelse c bp s)))"

definition idup :: "nat \<Rightarrow> nat \<Rightarrow> 'a fkstate_scheme \<Rightarrow> (nat \<times> 'a fkstate_scheme) kres" where
  "idup c ip s =
     bnd (kacquire c ItableLock s) (\<lambda>s.
     bnd (krelease c ItableLock (upd_inode ip (\<lambda>x. x\<lparr>i_ref := i_ref x + 1\<rparr>) s)) (\<lambda>s. Inr (ip, s)))"

definition get_inode :: "nat \<Rightarrow> bytes \<Rightarrow> inode \<Rightarrow> inode" where
  "get_inode o1 d ip = ip\<lparr>i_type := get16 d o1, i_major := get16 d (o1 + 2), i_minor := get16 d (o1 + 4),
     i_nlink := get16 d (o1 + 6), i_size := get32 d (o1 + 8), i_addrs := dinode_addrs d o1\<rparr>"

definition ilock :: "nat \<Rightarrow> nat \<Rightarrow> 'a fkstate_scheme \<Rightarrow> 'a fkstate_scheme kres" where
  "ilock c ip s =
     (if i_ref (itable s ip) < 1 then Inl (Panic ''ilock'')
      else bnd (acquiresleep c (InodeLock ip) s) (\<lambda>s.
        if i_valid (itable s ip) then Inr s
        else let x = itable s ip
             in bnd (bread c (i_dev x) (IBLOCK (i_inum x) (sb s)) s) (\<lambda>(bp, s).
                bnd (brelse c bp (upd_inode ip (get_inode (dip_off (i_inum x)) (data bp s)) s)) (\<lambda>s.
                  let s = upd_inode ip (\<lambda>x. x\<lparr>i_valid := True\<rparr>) s
                  in if i_type (itable s ip) = 0 then Inl (Panic ''ilock: no type'') else Inr s))))"

definition iunlock :: "nat \<Rightarrow> nat \<Rightarrow> 'a fkstate_scheme \<Rightarrow> 'a fkstate_scheme kres" where
  "iunlock c ip s =
     bnd (holdingsleep c (InodeLock ip) s) (\<lambda>(h, s).
       if \<not> h \<or> i_ref (itable s ip) < 1 then Inl (Panic ''iunlock'') else releasesleep c (InodeLock ip) s)"

section \<open>Inode content\<close>

definition bmap :: "nat \<Rightarrow> nat \<Rightarrow> uint \<Rightarrow> 'a fkstate_scheme \<Rightarrow> (uint \<times> 'a fkstate_scheme) kres" where
  "bmap c ip bn s =
     (let dv = i_dev (itable s ip); k = unat bn
      in if k < NDIRECT
         then let addr = i_addrs (itable s ip) ! k
              in if addr \<noteq> 0 then Inr (addr, s)
                 else bnd (balloc c dv s) (\<lambda>(addr, s).
                        if addr = 0 then Inr (0, s)
                        else Inr (addr, upd_inode ip (\<lambda>x. x\<lparr>i_addrs := (i_addrs x)[k := addr]\<rparr>) s))
         else let k = k - NDIRECT
              in if k < NINDIRECT
                 then bnd (let addr = i_addrs (itable s ip) ! NDIRECT
                           in if addr \<noteq> 0 then Inr (addr, s)
                              else bnd (balloc c dv s) (\<lambda>(addr, s).
                                     if addr = 0 then Inr (0, s)
                                     else Inr (addr, upd_inode ip (\<lambda>x. x\<lparr>i_addrs := (i_addrs x)[NDIRECT := addr]\<rparr>) s)))
                        (\<lambda>(ind, s).
                          if ind = 0 then Inr (0, s)
                          else bnd (bread c dv ind s) (\<lambda>(bp, s).
                               bnd (let addr = get32 (data bp s) (4 * k)
                                    in if addr \<noteq> 0 then Inr (addr, s)
                                       else bnd (balloc c dv s) (\<lambda>(addr, s).
                                              if addr = 0 then Inr (0, s)
                                              else bnd (log_write c bp (upd_data bp (put32 (4 * k) addr) s)) (\<lambda>s. Inr (addr, s))))
                                 (\<lambda>(addr, s). bnd (brelse c bp s) (\<lambda>s. Inr (addr, s)))))
                 else Inl (Panic ''bmap: out of range''))"

definition itrunc_direct :: "nat \<Rightarrow> nat \<Rightarrow> nat \<Rightarrow> 'a fkstate_scheme \<Rightarrow> 'a fkstate_scheme kres" where
  "itrunc_direct c ip i s =
     (let x = itable s ip
      in if i_addrs x ! i = 0 then Inr s
         else bnd (bfree c (i_dev x) (i_addrs x ! i) s) (\<lambda>s.
                Inr (upd_inode ip (\<lambda>x. x\<lparr>i_addrs := (i_addrs x)[i := 0]\<rparr>) s)))"

definition itrunc_entry :: "nat \<Rightarrow> uint \<Rightarrow> nat \<Rightarrow> nat \<Rightarrow> 'a fkstate_scheme \<Rightarrow> 'a fkstate_scheme kres" where
  "itrunc_entry c dv bp j s =
     (let a = get32 (data bp s) (4 * j) in if a = 0 then Inr s else bfree c dv a s)"

definition itrunc :: "nat \<Rightarrow> nat \<Rightarrow> 'a fkstate_scheme \<Rightarrow> 'a fkstate_scheme kres" where
  "itrunc c ip s =
     bnd (foldM (itrunc_direct c ip) [0..<NDIRECT] s) (\<lambda>s.
     bnd (let x = itable s ip; ind = i_addrs x ! NDIRECT
          in if ind = 0 then Inr s
             else bnd (bread c (i_dev x) ind s) (\<lambda>(bp, s).
                  bnd (foldM (itrunc_entry c (i_dev x) bp) [0..<NINDIRECT] s) (\<lambda>s.
                  bnd (brelse c bp s) (\<lambda>s.
                  bnd (bfree c (i_dev x) ind s) (\<lambda>s.
                    Inr (upd_inode ip (\<lambda>x. x\<lparr>i_addrs := (i_addrs x)[NDIRECT := 0]\<rparr>) s)))))) (\<lambda>s.
       iupdate c ip (upd_inode ip (\<lambda>x. x\<lparr>i_size := 0\<rparr>) s)))"

definition iput :: "nat \<Rightarrow> nat \<Rightarrow> 'a fkstate_scheme \<Rightarrow> 'a fkstate_scheme kres" where
  "iput c ip s =
     bnd (kacquire c ItableLock s) (\<lambda>s.
     bnd (let x = itable s ip
          in if i_ref x = 1 \<and> i_valid x \<and> i_nlink x = 0
             then bnd (acquiresleep c (InodeLock ip) s) (\<lambda>s.
                  bnd (krelease c ItableLock s) (\<lambda>s.
                  bnd (itrunc c ip s) (\<lambda>s.
                  bnd (iupdate c ip (upd_inode ip (\<lambda>x. x\<lparr>i_type := 0\<rparr>) s)) (\<lambda>s.
                  bnd (releasesleep c (InodeLock ip) (upd_inode ip (\<lambda>x. x\<lparr>i_valid := False\<rparr>) s)) (\<lambda>s.
                    kacquire c ItableLock s)))))
             else Inr s) (\<lambda>s.
       krelease c ItableLock (upd_inode ip (\<lambda>x. x\<lparr>i_ref := i_ref x - 1\<rparr>) s)))"

definition iunlockput :: "nat \<Rightarrow> nat \<Rightarrow> 'a fkstate_scheme \<Rightarrow> 'a fkstate_scheme kres" where
  "iunlockput c ip s = bnd (iunlock c ip s) (\<lambda>s. iput c ip s)"

record stat =
  st_dev :: int
  st_ino :: uint
  st_type :: ushort
  st_nlink :: ushort
  st_size :: uint64

definition stati :: "nat \<Rightarrow> 'a fkstate_scheme \<Rightarrow> stat" where
  "stati ip s = (let x = itable s ip in \<lparr>st_dev = sint (i_dev x), st_ino = i_inum x, st_type = i_type x,
     st_nlink = i_nlink x, st_size = ucast (i_size x)\<rparr>)"

text \<open>\<open>min(n - tot, BSIZE - off%BSIZE)\<close>.\<close>

definition io_chunk :: "uint \<Rightarrow> uint \<Rightarrow> uint \<Rightarrow> uint" where
  "io_chunk n tot off = (let a = n - tot; b = of_nat BSIZE - off mod of_nat BSIZE in if a < b then a else b)"

fun readi_loop :: "nat \<Rightarrow> nat \<Rightarrow> nat \<Rightarrow> bool \<Rightarrow> uint64 \<Rightarrow> uint \<Rightarrow> uint \<Rightarrow> uint \<Rightarrow> 'a fkstate_scheme \<Rightarrow>
    (uint \<times> 'a fkstate_scheme) kres" where
  "readi_loop c 0 ip user_dst dst off n tot s = Inl (Spin ''readi'')"
| "readi_loop c (Suc fuel) ip user_dst dst off n tot s =
     (if \<not> tot < n then Inr (tot, s)
      else bnd (bmap c ip (off div of_nat BSIZE) s) (\<lambda>(addr, s).
        if addr = 0 then Inr (tot, s)
        else bnd (bread c (i_dev (itable s ip)) addr s) (\<lambda>(bp, s).
          let m = io_chunk n tot off; k = unat (off mod of_nat BSIZE)
          in bnd (either_copyout c user_dst dst (\<lambda>i. data bp s (k + i)) (ucast m) s) (\<lambda>(r, s).
             bnd (brelse c bp s) (\<lambda>s.
               if r = -1 then Inr (-1, s)
               else readi_loop c fuel ip user_dst (dst + ucast m) (off + m) n (tot + m) s)))))"

definition readi :: "nat \<Rightarrow> nat \<Rightarrow> bool \<Rightarrow> uint64 \<Rightarrow> uint \<Rightarrow> uint \<Rightarrow> 'a fkstate_scheme \<Rightarrow> (int \<times> 'a fkstate_scheme) kres" where
  "readi c ip user_dst dst off n s =
     (let sz = i_size (itable s ip)
      in if off > sz \<or> off + n < off then Inr (0, s)
         else let n = (if off + n > sz then sz - off else n)
              in bnd (readi_loop c (Suc (unat n)) ip user_dst dst off n 0 s) (\<lambda>(tot, s). Inr (sint tot, s)))"

definition splice :: "nat \<Rightarrow> uchar list \<Rightarrow> bytes \<Rightarrow> bytes" where
  "splice k bs d i = (if k \<le> i \<and> i < k + length bs then bs ! (i - k) else d i)"

fun writei_loop :: "nat \<Rightarrow> nat \<Rightarrow> nat \<Rightarrow> bool \<Rightarrow> uint64 \<Rightarrow> uint \<Rightarrow> uint \<Rightarrow> uint \<Rightarrow> 'a fkstate_scheme \<Rightarrow>
    (uint \<times> uint \<times> 'a fkstate_scheme) kres" where
  "writei_loop c 0 ip user_src src off n tot s = Inl (Spin ''writei'')"
| "writei_loop c (Suc fuel) ip user_src src off n tot s =
     (if \<not> tot < n then Inr (tot, off, s)
      else bnd (bmap c ip (off div of_nat BSIZE) s) (\<lambda>(addr, s).
        if addr = 0 then Inr (tot, off, s)
        else bnd (bread c (i_dev (itable s ip)) addr s) (\<lambda>(bp, s).
          let m = io_chunk n tot off; k = unat (off mod of_nat BSIZE)
          in bnd (either_copyin c user_src src (ucast m) s) (\<lambda>(r, bs, s).
             let s = upd_data bp (splice k bs) s
             in if r = -1 then bnd (brelse c bp s) (\<lambda>s. Inr (tot, off, s))
                else bnd (log_write c bp s) (\<lambda>s.
                     bnd (brelse c bp s) (\<lambda>s.
                       writei_loop c fuel ip user_src (src + ucast m) (off + m) n (tot + m) s))))))"

definition writei :: "nat \<Rightarrow> nat \<Rightarrow> bool \<Rightarrow> uint64 \<Rightarrow> uint \<Rightarrow> uint \<Rightarrow> 'a fkstate_scheme \<Rightarrow> (int \<times> 'a fkstate_scheme) kres" where
  "writei c ip user_src src off n s =
     (let sz = i_size (itable s ip)
      in if off > sz \<or> off + n < off then Inr (-1, s)
         else if unat (off + n) > MAXFILE * BSIZE then Inr (-1, s)
         else bnd (writei_loop c (Suc (unat n)) ip user_src src off n 0 s) (\<lambda>(tot, off, s).
              let s = (if off > i_size (itable s ip) then upd_inode ip (\<lambda>x. x\<lparr>i_size := off\<rparr>) s else s)
              in bnd (iupdate c ip s) (\<lambda>s. Inr (sint tot, s))))"

section \<open>Directories\<close>

definition namecmp :: "bytes \<Rightarrow> bytes \<Rightarrow> int" where
  "namecmp a b = strncmp a b DIRSIZ"

text \<open>The directory entry in the local variable: a 16-bit inode number and a name of 14 bytes.\<close>

definition de_inum :: "'a fkstate_scheme \<Rightarrow> uint" where
  "de_inum s = ucast (get16 (\<lambda>i. mem s (stk s + of_nat i)) 0)"

definition de_name :: "'a fkstate_scheme \<Rightarrow> bytes" where
  "de_name s i = mem s (stk s + 2 + of_nat i)"

definition dir_offsets :: "uint \<Rightarrow> uint list" where
  "dir_offsets sz = map (\<lambda>k. of_nat (16 * k)) [0..<(unat sz + 15) div 16]"

fun dirlookup_loop :: "nat \<Rightarrow> nat \<Rightarrow> bytes \<Rightarrow> uint list \<Rightarrow> 'a fkstate_scheme \<Rightarrow>
    ((nat \<times> uint) option \<times> 'a fkstate_scheme) kres" where
  "dirlookup_loop c dp name [] s = Inr (None, s)"
| "dirlookup_loop c dp name (off # offs) s =
     bnd (readi c dp False (stk s) off 16 s) (\<lambda>(r, s).
       if r \<noteq> 16 then Inl (Panic ''dirlookup read'')
       else if de_inum s = 0 then dirlookup_loop c dp name offs s
       else if namecmp name (de_name s) = 0
       then bnd (iget c (i_dev (itable s dp)) (de_inum s) s) (\<lambda>(ip, s). Inr (Some (ip, off), s))
       else dirlookup_loop c dp name offs s)"

definition dirlookup :: "nat \<Rightarrow> nat \<Rightarrow> bytes \<Rightarrow> 'a fkstate_scheme \<Rightarrow> ((nat \<times> uint) option \<times> 'a fkstate_scheme) kres" where
  "dirlookup c dp name s =
     (if i_type (itable s dp) \<noteq> T_DIR then Inl (Panic ''dirlookup not DIR'')
      else dirlookup_loop c dp name (dir_offsets (i_size (itable s dp))) s)"

fun dirlink_slot :: "nat \<Rightarrow> nat \<Rightarrow> uint list \<Rightarrow> uint \<Rightarrow> 'a fkstate_scheme \<Rightarrow> (uint \<times> 'a fkstate_scheme) kres" where
  "dirlink_slot c dp [] last_off s = Inr (last_off, s)"
| "dirlink_slot c dp (off # offs) last_off s =
     bnd (readi c dp False (stk s) off 16 s) (\<lambda>(r, s).
       if r \<noteq> 16 then Inl (Panic ''dirlink read'')
       else if de_inum s = 0 then Inr (off, s)
       else dirlink_slot c dp offs (off + 16) s)"

definition dirlink :: "nat \<Rightarrow> nat \<Rightarrow> bytes \<Rightarrow> uint \<Rightarrow> 'a fkstate_scheme \<Rightarrow> (int \<times> 'a fkstate_scheme) kres" where
  "dirlink c dp name inum s =
     bnd (dirlookup c dp name s) (\<lambda>(r, s).
       case r of
         Some (ip, _) \<Rightarrow> bnd (iput c ip s) (\<lambda>s. Inr (-1, s))
       | None \<Rightarrow>
           bnd (dirlink_slot c dp (dir_offsets (i_size (itable s dp))) 0 s) (\<lambda>(off, s).
             let nm = strncpy (map (de_name s) [0..<DIRSIZ]) name (int DIRSIZ);
                 de = put16 0 (ucast inum) (\<lambda>i. if i < 2 then 0 else nm ! (i - 2));
                 s = s\<lparr>mem := poke (mem s) (stk s) de 16\<rparr>
             in bnd (writei c dp False (stk s) off 16 s) (\<lambda>(r, s). Inr (if r \<noteq> 16 then -1 else 0, s))))"

section \<open>Path names\<close>

definition slash :: uchar where [simp]: "slash = 0x2f"

definition skipelem :: "uchar list \<Rightarrow> uchar list \<Rightarrow> (uchar list \<times> uchar list) option" where
  "skipelem path name =
     (let path = dropWhile (\<lambda>ch. ch = slash) path
      in if path = [] then None
         else let el = takeWhile (\<lambda>ch. ch \<noteq> slash) path; path = dropWhile (\<lambda>ch. ch \<noteq> slash) path; len = length el;
                  name = (if len \<ge> DIRSIZ then take DIRSIZ el @ drop DIRSIZ name else el @ [0] @ drop (len + 1) name)
              in Some (dropWhile (\<lambda>ch. ch = slash) path, name))"

lemma skipelem_shorter: "skipelem path name = Some (path', name') \<Longrightarrow> length path' < length path"
proof -
  assume a: "skipelem path name = Some (path', name')"
  let ?p = "dropWhile (\<lambda>ch. ch = slash) path"
  have p: "?p \<noteq> []" "path' = dropWhile (\<lambda>ch. ch = slash) (dropWhile (\<lambda>ch. ch \<noteq> slash) ?p)"
    using a by (auto simp: skipelem_def Let_def split: if_splits)
  obtain x xs where x: "?p = x # xs" using p(1) by (cases ?p) auto
  then have "x \<noteq> slash" using hd_dropWhile [of "\<lambda>ch. ch = slash" path] by simp
  then have "path' = dropWhile (\<lambda>ch. ch = slash) (dropWhile (\<lambda>ch. ch \<noteq> slash) xs)" using p(2) x by simp
  then have "length path' \<le> length xs" by (metis length_dropWhile_le order.trans)
  moreover have "length ?p \<le> length path" by (rule length_dropWhile_le)
  ultimately show ?thesis using x by simp
qed

fun namex_loop :: "nat \<Rightarrow> nat \<Rightarrow> uchar list \<Rightarrow> bool \<Rightarrow> uchar list \<Rightarrow> nat \<Rightarrow> 'a fkstate_scheme \<Rightarrow>
    (nat option \<times> uchar list \<times> 'a fkstate_scheme) kres" where
  "namex_loop c 0 path want_parent name ip s = Inl (Spin ''namex'')"
| "namex_loop c (Suc fuel) path want_parent name ip s =
     (case skipelem path name of
        None \<Rightarrow> if want_parent then bnd (iput c ip s) (\<lambda>s. Inr (None, name, s)) else Inr (Some ip, name, s)
      | Some (path, name) \<Rightarrow>
          bnd (ilock c ip s) (\<lambda>s.
            if i_type (itable s ip) \<noteq> T_DIR then bnd (iunlockput c ip s) (\<lambda>s. Inr (None, name, s))
            else if want_parent \<and> path = [] then bnd (iunlock c ip s) (\<lambda>s. Inr (Some ip, name, s))
            else bnd (dirlookup c ip (bytes_of name) s) (\<lambda>(r, s).
                 bnd (iunlockput c ip s) (\<lambda>s.
                   case r of None \<Rightarrow> Inr (None, name, s)
                   | Some (nxt, _) \<Rightarrow> namex_loop c fuel path want_parent name nxt s))))"

definition namex :: "nat \<Rightarrow> uchar list \<Rightarrow> bool \<Rightarrow> uchar list \<Rightarrow> 'a fkstate_scheme \<Rightarrow>
    (nat option \<times> uchar list \<times> 'a fkstate_scheme) kres" where
  "namex c path want_parent name s =
     bnd (if path \<noteq> [] \<and> hd path = slash then iget c ROOTDEV ROOTINO s
          else bnd (curproc c s) (\<lambda>(p, s). case p_cwd (procs s p) of
                 None \<Rightarrow> Inl (Panic ''kerneltrap'') | Some cwd \<Rightarrow> idup c cwd s)) (\<lambda>(ip, s).
       namex_loop c (Suc (length path)) path want_parent name ip s)"

definition namei :: "nat \<Rightarrow> uchar list \<Rightarrow> 'a fkstate_scheme \<Rightarrow> (nat option \<times> 'a fkstate_scheme) kres" where
  "namei c path s = bnd (namex c path False (replicate DIRSIZ 0) s) (\<lambda>(ip, name, s). Inr (ip, s))"

definition nameiparent :: "nat \<Rightarrow> uchar list \<Rightarrow> uchar list \<Rightarrow> 'a fkstate_scheme \<Rightarrow>
    (nat option \<times> uchar list \<times> 'a fkstate_scheme) kres" where
  "nameiparent c path name s = namex c path True name s"

end
