(* ===== verification/Pipe.thy ===== *)
theory Pipe
  imports Virtio_Ok
begin

text \<open>
  Pipes, \<open>kernel/pipe.c\<close>, apart from \<open>pipealloc\<close>, which is with the file table. A pipe is named by the address
  of its page. A process that has to wait in \<open>pipewrite\<close> sleeps with \<open>i\<close> bytes written and goes on
  at \<open>pipewrite_from\<close> when it is woken up; one that waits in \<open>piperead\<close> goes on at \<open>piperead_body\<close>.
\<close>

section \<open>Operations\<close>

definition PIPESIZE :: uint where [simp]: "PIPESIZE = 512"

definition upd_pipe :: "uint64 \<Rightarrow> (pipe \<Rightarrow> pipe) \<Rightarrow> 'a fkstate_scheme \<Rightarrow> 'a fkstate_scheme" where
  "upd_pipe pi f s = s\<lparr>pipes := (pipes s)(pi := f (pipes s pi))\<rparr>"

definition pipeclose :: "nat \<Rightarrow> uint64 \<Rightarrow> bool \<Rightarrow> 'a fkstate_scheme \<Rightarrow> 'a fkstate_scheme kres" where
  "pipeclose c pi writable s =
     bnd (kacquire c (PipeLock pi) s) (\<lambda>s.
     bnd (if writable then wakeup c (Some (PipeReadChan pi)) (upd_pipe pi (\<lambda>x. x\<lparr>pi_writeopen := False\<rparr>) s)
          else wakeup c (Some (PipeWriteChan pi)) (upd_pipe pi (\<lambda>x. x\<lparr>pi_readopen := False\<rparr>) s)) (\<lambda>s.
       if \<not> pi_readopen (pipes s pi) \<and> \<not> pi_writeopen (pipes s pi)
       then bnd (krelease c (PipeLock pi) s) (\<lambda>s. kfree c pi s)
       else krelease c (PipeLock pi) s))"

text \<open>
  How the loop of \<open>pipewrite\<close> ends: it returns, it stops after \<open>i\<close> bytes, or the pipe is full and the process
  has to sleep.
\<close>

datatype pipe_exit = PReturn int | PStop int | PFull int

fun pipewrite_loop :: "nat \<Rightarrow> nat \<Rightarrow> uint64 \<Rightarrow> uint64 \<Rightarrow> nat \<Rightarrow> int \<Rightarrow> 'a fkstate_scheme \<Rightarrow>
    (pipe_exit \<times> 'a fkstate_scheme) kres" where
  "pipewrite_loop c pr pi addr 0 i s = Inr (PStop i, s)"
| "pipewrite_loop c pr pi addr (Suc n) i s =
     bnd (if \<not> pi_readopen (pipes s pi) then Inr (1, s) else killed c pr s) (\<lambda>(k, s).
       if k \<noteq> 0 then bnd (krelease c (PipeLock pi) s) (\<lambda>s. Inr (PReturn (-1), s))
       else if pi_nwrite (pipes s pi) = pi_nread (pipes s pi) + PIPESIZE
       then bnd (wakeup c (Some (PipeReadChan pi)) s) (\<lambda>s. Inr (PFull i, s))
       else bnd (copyin c (p_pagetable (procs s pr)) (addr + word_of_int i) 1 s) (\<lambda>(r, bs).
         if r = -1 then Inr (PStop i, s)
         else pipewrite_loop c pr pi addr n (i + 1)
           (upd_pipe pi (\<lambda>x. x\<lparr>pi_data := (pi_data x)[unat (pi_nwrite x mod PIPESIZE) := bs ! 0],
                                pi_nwrite := pi_nwrite x + 1\<rparr>) s)))"

definition pipewrite_from :: "nat \<Rightarrow> nat \<Rightarrow> uint64 \<Rightarrow> uint64 \<Rightarrow> int \<Rightarrow> int \<Rightarrow> 'a fkstate_scheme \<Rightarrow>
    (int \<times> 'a fkstate_scheme) kres" where
  "pipewrite_from c pr pi addr n i s =
     bnd (pipewrite_loop c pr pi addr (nat (n - i)) i s) (\<lambda>(e, s).
       case e of
         PReturn r \<Rightarrow> Inr (r, s)
       | PFull i \<Rightarrow> sleep c (PipeWriteChan pi) (PipeLock pi) s
       | PStop i \<Rightarrow> bnd (wakeup c (Some (PipeReadChan pi)) s) (\<lambda>s.
                     bnd (krelease c (PipeLock pi) s) (\<lambda>s. Inr (i, s))))"

definition pipewrite :: "nat \<Rightarrow> uint64 \<Rightarrow> uint64 \<Rightarrow> int \<Rightarrow> 'a fkstate_scheme \<Rightarrow> (int \<times> 'a fkstate_scheme) kres" where
  "pipewrite c pi addr n s =
     bnd (curproc c s) (\<lambda>(pr, s).
     bnd (kacquire c (PipeLock pi) s) (\<lambda>s. pipewrite_from c pr pi addr n 0 s))"

fun piperead_copy :: "nat \<Rightarrow> nat \<Rightarrow> uint64 \<Rightarrow> uint64 \<Rightarrow> nat \<Rightarrow> int \<Rightarrow> 'a fkstate_scheme \<Rightarrow> (int \<times> 'a fkstate_scheme) kres" where
  "piperead_copy c pr pi addr 0 i s = Inr (i, s)"
| "piperead_copy c pr pi addr (Suc n) i s =
     (if pi_nread (pipes s pi) = pi_nwrite (pipes s pi) then Inr (i, s)
      else let ch = pi_data (pipes s pi) ! unat (pi_nread (pipes s pi) mod PIPESIZE);
               s = upd_pipe pi (\<lambda>x. x\<lparr>pi_nread := pi_nread x + 1\<rparr>) s
           in bnd (copyout c (p_pagetable (procs s pr)) (addr + word_of_int i) (\<lambda>_. ch) 1 s) (\<lambda>(r, s).
                if r = -1 then Inr (i, s) else piperead_copy c pr pi addr n (i + 1) s))"

definition piperead_body :: "nat \<Rightarrow> nat \<Rightarrow> uint64 \<Rightarrow> uint64 \<Rightarrow> int \<Rightarrow> 'a fkstate_scheme \<Rightarrow> (int \<times> 'a fkstate_scheme) kres" where
  "piperead_body c pr pi addr n s =
     (if pi_nread (pipes s pi) = pi_nwrite (pipes s pi) \<and> pi_writeopen (pipes s pi)
      then bnd (killed c pr s) (\<lambda>(k, s).
             if k \<noteq> 0 then bnd (krelease c (PipeLock pi) s) (\<lambda>s. Inr (-1, s))
             else sleep c (PipeReadChan pi) (PipeLock pi) s)
      else bnd (piperead_copy c pr pi addr (nat n) 0 s) (\<lambda>(i, s).
           bnd (wakeup c (Some (PipeWriteChan pi)) s) (\<lambda>s.
           bnd (krelease c (PipeLock pi) s) (\<lambda>s. Inr (i, s)))))"

definition piperead :: "nat \<Rightarrow> uint64 \<Rightarrow> uint64 \<Rightarrow> int \<Rightarrow> 'a fkstate_scheme \<Rightarrow> (int \<times> 'a fkstate_scheme) kres" where
  "piperead c pi addr n s =
     bnd (curproc c s) (\<lambda>(pr, s).
     bnd (kacquire c (PipeLock pi) s) (\<lambda>s. piperead_body c pr pi addr n s))"

end
