(* ===== verification/File_Table.thy ===== *)
theory File_Table
  imports Fs Pipe
begin

text \<open>
  The table of open files, \<open>kernel/file.c\<close>, and \<open>pipealloc\<close> of \<open>kernel/pipe.c\<close>. A pointer to a file is an index of
  the table. The only driver in \<open>devsw\<close> is the console's.
\<close>

section \<open>References\<close>

definition upd_file :: "nat \<Rightarrow> (kfile \<Rightarrow> kfile) \<Rightarrow> 'a fkstate_scheme \<Rightarrow> 'a fkstate_scheme" where
  "upd_file f g s = s\<lparr>ftable := (ftable s)(f := g (ftable s f))\<rparr>"

definition fileinit :: "'a fkstate_scheme \<Rightarrow> 'a fkstate_scheme" where
  "fileinit s = s\<lparr>mach := initlock FtableLock ''ftable'' (mach s)\<rparr>"

definition filealloc :: "nat \<Rightarrow> 'a fkstate_scheme \<Rightarrow> (nat option \<times> 'a fkstate_scheme) kres" where
  "filealloc c s =
     bnd (kacquire c FtableLock s) (\<lambda>s.
       case find (\<lambda>f. f_ref (ftable s f) = 0) [0..<NFILE] of
         Some f \<Rightarrow> bnd (krelease c FtableLock (upd_file f (\<lambda>x. x\<lparr>f_ref := 1\<rparr>) s)) (\<lambda>s. Inr (Some f, s))
       | None \<Rightarrow> bnd (krelease c FtableLock s) (\<lambda>s. Inr (None, s)))"

definition filedup :: "nat \<Rightarrow> nat \<Rightarrow> 'a fkstate_scheme \<Rightarrow> (nat \<times> 'a fkstate_scheme) kres" where
  "filedup c f s =
     bnd (kacquire c FtableLock s) (\<lambda>s.
       if f_ref (ftable s f) < 1 then Inl (Panic ''filedup'')
       else bnd (krelease c FtableLock (upd_file f (\<lambda>x. x\<lparr>f_ref := f_ref x + 1\<rparr>) s)) (\<lambda>s. Inr (f, s)))"

definition fileclose :: "nat \<Rightarrow> nat \<Rightarrow> 'a fkstate_scheme \<Rightarrow> 'a fkstate_scheme kres" where
  "fileclose c f s =
     bnd (kacquire c FtableLock s) (\<lambda>s.
       if f_ref (ftable s f) < 1 then Inl (Panic ''fileclose'')
       else let s = upd_file f (\<lambda>x. x\<lparr>f_ref := f_ref x - 1\<rparr>) s
            in if f_ref (ftable s f) > 0 then krelease c FtableLock s
               else let ff = ftable s f; s = upd_file f (\<lambda>x. x\<lparr>f_ref := 0, f_type := FD_NONE\<rparr>) s
                    in bnd (krelease c FtableLock s) (\<lambda>s.
                         case f_type ff of
                           FD_PIPE \<Rightarrow> pipeclose c (f_pipe ff) (f_writable ff) s
                         | FD_NONE \<Rightarrow> Inr s
                         | _ \<Rightarrow> bnd (begin_op c s) (\<lambda>s. bnd (iput c (f_ip ff) s) (\<lambda>s. end_op c s))))"

definition pipealloc_bad :: "nat \<Rightarrow> nat option \<Rightarrow> nat option \<Rightarrow> 'a fkstate_scheme \<Rightarrow>
    ((nat \<times> nat) option \<times> 'a fkstate_scheme) kres" where
  "pipealloc_bad c f0 f1 s =
     bnd (case f0 of Some f \<Rightarrow> fileclose c f s | None \<Rightarrow> Inr s) (\<lambda>s.
     bnd (case f1 of Some f \<Rightarrow> fileclose c f s | None \<Rightarrow> Inr s) (\<lambda>s. Inr (None, s)))"

text \<open>
  The result is the pair of files, or \<open>None\<close> for -1. The data of the pipe is what the page holds where \<open>data\<close>
  lies in the structure, after the lock.
\<close>

definition pipealloc :: "nat \<Rightarrow> 'a fkstate_scheme \<Rightarrow> ((nat \<times> nat) option \<times> 'a fkstate_scheme) kres" where
  "pipealloc c s =
     bnd (filealloc c s) (\<lambda>(f0, s).
       case f0 of None \<Rightarrow> pipealloc_bad c None None s
       | Some f0 \<Rightarrow>
         bnd (filealloc c s) (\<lambda>(f1, s).
           case f1 of None \<Rightarrow> pipealloc_bad c (Some f0) None s
           | Some f1 \<Rightarrow>
             bnd (kalloc c s) (\<lambda>(pi, s).
               if pi = 0 then pipealloc_bad c (Some f0) (Some f1) s
               else let s = upd_pipe pi (\<lambda>x. \<lparr>pi_data = peek (mem s) (pi + 24) 512, pi_nread = 0, pi_nwrite = 0,
                              pi_readopen = True, pi_writeopen = True\<rparr>) s;
                        s = s\<lparr>mach := initlock (PipeLock pi) ''pipe'' (mach s)\<rparr>;
                        s = upd_file f0 (\<lambda>x. x\<lparr>f_type := FD_PIPE, f_readable := True, f_writable := False, f_pipe := pi\<rparr>) s;
                        s = upd_file f1 (\<lambda>x. x\<lparr>f_type := FD_PIPE, f_readable := False, f_writable := True, f_pipe := pi\<rparr>) s
                    in Inr (Some (f0, f1), s))))"

section \<open>Input and output\<close>

text \<open>
  A \<open>struct stat\<close> in memory: 24 bytes, of which the four before \<open>size\<close> are padding and keep what the stack held.
\<close>

definition stat_bytes :: "stat \<Rightarrow> bytes \<Rightarrow> bytes" where
  "stat_bytes st d =
     (let d = put32 0 (word_of_int (st_dev st)) d; d = put32 4 (st_ino st) d; d = put16 8 (st_type st) d;
          d = put16 10 (st_nlink st) d; d = put32 16 (ucast (st_size st)) d
      in put32 20 (ucast (drop_bit 32 (st_size st))) d)"

definition filestat :: "nat \<Rightarrow> nat \<Rightarrow> uint64 \<Rightarrow> 'a fkstate_scheme \<Rightarrow> (int \<times> 'a fkstate_scheme) kres" where
  "filestat c f addr s =
     bnd (curproc c s) (\<lambda>(p, s).
       let x = ftable s f
       in if f_type x = FD_INODE \<or> f_type x = FD_DEVICE
          then bnd (ilock c (f_ip x) s) (\<lambda>s.
               let st = stati (f_ip x) s
               in bnd (iunlock c (f_ip x) s) (\<lambda>s.
                  bnd (copyout c (p_pagetable (procs s p)) addr (stat_bytes st (\<lambda>i. mem s (stk s + of_nat i))) 24 s) (\<lambda>(r, s).
                    Inr (if r < 0 then -1 else 0, s))))
          else Inr (-1, s))"

definition no_driver :: "nat \<Rightarrow> 'a fkstate_scheme \<Rightarrow> bool" where
  "no_driver f s \<longleftrightarrow> (let m = sint (f_major (ftable s f)) in m < 0 \<or> m \<ge> int NDEV \<or> \<not> devsw s (nat m))"

definition fileread :: "nat \<Rightarrow> nat \<Rightarrow> uint64 \<Rightarrow> int \<Rightarrow> 'a fkstate_scheme \<Rightarrow> (int \<times> 'a fkstate_scheme) kres" where
  "fileread c f addr n s =
     (let x = ftable s f
      in if \<not> f_readable x then Inr (-1, s)
         else case f_type x of
           FD_PIPE \<Rightarrow> piperead c (f_pipe x) addr n s
         | FD_DEVICE \<Rightarrow> if no_driver f s then Inr (-1, s) else consoleread c True addr n s
         | FD_INODE \<Rightarrow>
             bnd (ilock c (f_ip x) s) (\<lambda>s.
             bnd (readi c (f_ip x) True addr (f_off (ftable s f)) (word_of_int n) s) (\<lambda>(r, s).
               let s = (if r > 0 then upd_file f (\<lambda>x. x\<lparr>f_off := f_off x + word_of_int r\<rparr>) s else s)
               in bnd (iunlock c (f_ip x) s) (\<lambda>s. Inr (r, s))))
         | FD_NONE \<Rightarrow> Inl (Panic ''fileread''))"

definition write_max :: int where [simp]: "write_max = (int MAXOPBLOCKS - 1 - 1 - 2) div 2 * int BSIZE"

text \<open>The loop of \<open>filewrite\<close> over transactions; the result is the number of bytes written in full ones.\<close>

fun filewrite_loop :: "nat \<Rightarrow> nat \<Rightarrow> nat \<Rightarrow> uint64 \<Rightarrow> int \<Rightarrow> int \<Rightarrow> 'a fkstate_scheme \<Rightarrow> (int \<times> 'a fkstate_scheme) kres" where
  "filewrite_loop c 0 f addr n i s = Inl (Spin ''filewrite'')"
| "filewrite_loop c (Suc fuel) f addr n i s =
     (if \<not> i < n then Inr (i, s)
      else let n1 = (if n - i > write_max then write_max else n - i); ip = f_ip (ftable s f)
           in bnd (begin_op c s) (\<lambda>s.
              bnd (ilock c ip s) (\<lambda>s.
              bnd (writei c ip True (addr + word_of_int i) (f_off (ftable s f)) (word_of_int n1) s) (\<lambda>(r, s).
              let s = (if r > 0 then upd_file f (\<lambda>x. x\<lparr>f_off := f_off x + word_of_int r\<rparr>) s else s)
              in bnd (iunlock c ip s) (\<lambda>s.
                 bnd (end_op c s) (\<lambda>s.
                   if r \<noteq> n1 then Inr (i, s) else filewrite_loop c fuel f addr n (i + r) s))))))"

definition filewrite :: "nat \<Rightarrow> nat \<Rightarrow> uint64 \<Rightarrow> int \<Rightarrow> 'a fkstate_scheme \<Rightarrow> (int \<times> 'a fkstate_scheme) kres" where
  "filewrite c f addr n s =
     (let x = ftable s f
      in if \<not> f_writable x then Inr (-1, s)
         else case f_type x of
           FD_PIPE \<Rightarrow> pipewrite c (f_pipe x) addr n s
         | FD_DEVICE \<Rightarrow> if no_driver f s then Inr (-1, s) else consolewrite c True addr n s
         | FD_INODE \<Rightarrow> bnd (filewrite_loop c (Suc (nat n)) f addr n 0 s) (\<lambda>(i, s). Inr (if i = n then n else -1, s))
         | FD_NONE \<Rightarrow> Inl (Panic ''filewrite''))"

end
