(* ===== verification/Proc_Life.thy ===== *)
theory Proc_Life
  imports File_Table
begin

text \<open>
  The functions of \<open>kernel/proc.c\<close> that create and end processes: \<open>userinit\<close>, \<open>fork\<close> and \<open>exit\<close>, with the system
  calls \<open>sys_fork\<close> and \<open>sys_exit\<close> of \<open>kernel/sysproc.c\<close>.
\<close>

section \<open>The first process\<close>

definition initcode :: "uchar list" where
  "initcode =
    [0x17, 0x05, 0x00, 0x00, 0x13, 0x05, 0x45, 0x02,
     0x97, 0x05, 0x00, 0x00, 0x93, 0x85, 0x35, 0x02,
     0x93, 0x08, 0x70, 0x00, 0x73, 0x00, 0x00, 0x00,
     0x93, 0x08, 0x20, 0x00, 0x73, 0x00, 0x00, 0x00,
     0xef, 0xf0, 0x9f, 0xff, 0x2f, 0x69, 0x6e, 0x69,
     0x74, 0x00, 0x00, 0x24, 0x00, 0x00, 0x00, 0x00,
     0x00, 0x00, 0x00, 0x00]"

definition userinit :: "nat \<Rightarrow> 'a fkstate_scheme \<Rightarrow> 'a fkstate_scheme kres" where
  "userinit c s =
     bnd (allocproc c s) (\<lambda>(p, s).
       let s = s\<lparr>initproc := p\<rparr>
       in case p of
            None \<Rightarrow> Inl (Panic ''kerneltrap'')
          | Some p \<Rightarrow>
              bnd (uvmfirst c (p_pagetable (procs s p)) (bytes_of initcode) (of_nat (length initcode)) s) (\<lambda>s.
              let s = upd_proc p (\<lambda>q. q\<lparr>p_sz := PGSIZE\<rparr>) s;
                  s = tf_set p TF_epc 0 s;
                  s = tf_set p TF_sp PGSIZE s;
                  s = upd_proc p (\<lambda>q. q\<lparr>p_name := safestrcpy (p_name q) (bytes_of (map chr ''initcode'')) 16\<rparr>) s
              in bnd (namei c [slash] s) (\<lambda>(ip, s).
                   krelease c (ProcLock p) (upd_proc p (\<lambda>q. q\<lparr>p_cwd := ip, p_state := RUNNABLE\<rparr>) s))))"

section \<open>Fork\<close>

definition fork_file :: "nat \<Rightarrow> nat \<Rightarrow> nat \<Rightarrow> nat \<Rightarrow> 'a fkstate_scheme \<Rightarrow> 'a fkstate_scheme kres" where
  "fork_file c p np i s =
     (case p_ofile (procs s p) i of
        None \<Rightarrow> Inr s
      | Some f \<Rightarrow> bnd (filedup c f s) (\<lambda>(f, s). Inr (upd_proc np (\<lambda>q. q\<lparr>p_ofile := (p_ofile q)(i := Some f)\<rparr>) s)))"

definition fork_cwd :: "nat \<Rightarrow> nat \<Rightarrow> nat \<Rightarrow> 'a fkstate_scheme \<Rightarrow> 'a fkstate_scheme kres" where
  "fork_cwd c p np s =
     (case p_cwd (procs s p) of
        None \<Rightarrow> Inl (Panic ''kerneltrap'')
      | Some ip \<Rightarrow> bnd (idup c ip s) (\<lambda>(ip, s). Inr (upd_proc np (\<lambda>q. q\<lparr>p_cwd := Some ip\<rparr>) s)))"

definition fork :: "nat \<Rightarrow> 'a fkstate_scheme \<Rightarrow> (int \<times> 'a fkstate_scheme) kres" where
  "fork c s =
     bnd (curproc c s) (\<lambda>(p, s).
     bnd (allocproc c s) (\<lambda>(np, s).
       case np of
         None \<Rightarrow> Inr (-1, s)
       | Some np \<Rightarrow>
           bnd (uvmcopy c (p_pagetable (procs s p)) (p_pagetable (procs s np)) (p_sz (procs s p)) s) (\<lambda>(r, s).
             if r < 0 then bnd (freeproc c np s) (\<lambda>s. bnd (krelease c (ProcLock np) s) (\<lambda>s. Inr (-1, s)))
             else let s = upd_proc np (\<lambda>q. q\<lparr>p_sz := p_sz (procs s p)\<rparr>) s;
                      s = s\<lparr>mem := poke (mem s) (p_trapframe (procs s np))
                              (bytes_of (peek (mem s) (p_trapframe (procs s p)) TF_size)) TF_size\<rparr>;
                      s = tf_set np (TF_a 0) 0 s
                  in bnd (foldM (fork_file c p np) [0..<NOFILE] s) (\<lambda>s.
                     bnd (fork_cwd c p np s) (\<lambda>s.
                     let s = upd_proc np (\<lambda>q. q\<lparr>p_name := safestrcpy (p_name q) (bytes_of (p_name (procs s p))) 16\<rparr>) s;
                         pid = p_pid (procs s np)
                     in bnd (krelease c (ProcLock np) s) (\<lambda>s.
                        bnd (kacquire c WaitLock s) (\<lambda>s.
                        bnd (krelease c WaitLock (upd_proc np (\<lambda>q. q\<lparr>p_parent := Some p\<rparr>) s)) (\<lambda>s.
                        bnd (fork_start c np s) (\<lambda>s. Inr (pid, s))))))))))"

definition sys_fork :: "nat \<Rightarrow> 'a fkstate_scheme \<Rightarrow> (uint64 \<times> 'a fkstate_scheme) kres" where
  "sys_fork c s = bnd (fork c s) (\<lambda>(r, s). Inr (word_of_int r, s))"

section \<open>Exit\<close>

definition exit_file :: "nat \<Rightarrow> nat \<Rightarrow> nat \<Rightarrow> 'a fkstate_scheme \<Rightarrow> 'a fkstate_scheme kres" where
  "exit_file c p fd s =
     (case p_ofile (procs s p) fd of
        None \<Rightarrow> Inr s
      | Some f \<Rightarrow> bnd (fileclose c f s) (\<lambda>s. Inr (upd_proc p (\<lambda>q. q\<lparr>p_ofile := (p_ofile q)(fd := None)\<rparr>) s)))"

text \<open>\<open>exit\<close> up to its \<open>sched()\<close>, which does not come back.\<close>

definition exit_enter :: "nat \<Rightarrow> int \<Rightarrow> 'a fkstate_scheme \<Rightarrow> 'a fkstate_scheme kres" where
  "exit_enter c status s =
     bnd (curproc c s) (\<lambda>(p, s).
       if Some p = initproc s then Inl (Panic ''init exiting'')
       else bnd (foldM (exit_file c p) [0..<NOFILE] s) (\<lambda>s.
            bnd (begin_op c s) (\<lambda>s.
            bnd (case p_cwd (procs s p) of None \<Rightarrow> Inl (Panic ''kerneltrap'') | Some ip \<Rightarrow> iput c ip s) (\<lambda>s.
            bnd (end_op c s) (\<lambda>s.
              exit_tail c p status (upd_proc p (\<lambda>q. q\<lparr>p_cwd := None\<rparr>) s))))))"

definition exit :: "nat \<Rightarrow> int \<Rightarrow> 'a fkstate_scheme \<Rightarrow> 'b kres" where
  "exit c status s = bnd (exit_enter c status s) (\<lambda>_. Inl (Block ''exit''))"

definition sys_exit :: "nat \<Rightarrow> 'a fkstate_scheme \<Rightarrow> (uint64 \<times> 'a fkstate_scheme) kres" where
  "sys_exit c s = bnd (argint c 0 s) (\<lambda>(n, s). exit c n s)"

end
