(* ===== verification/Exec.thy ===== *)
theory Exec
  imports Fs
begin

text \<open>
  Loading a program, \<open>kernel/exec.c\<close> with the ELF formats of \<open>kernel/elf.h\<close>. The local variables \<open>elf\<close> and \<open>ph\<close>
  are at the address \<open>stk\<close> and 64 bytes above. \<open>argv\<close> is the list of the pointers before the null pointer.
\<close>

section \<open>ELF headers\<close>

definition ELF_MAGIC :: uint where [simp]: "ELF_MAGIC = 0x464C457F"
definition ELF_PROG_LOAD :: uint where [simp]: "ELF_PROG_LOAD = 1"
definition MAXARG :: nat where [simp]: "MAXARG = 32"

text \<open>The fields that \<open>exec\<close> uses.\<close>

record elfhdr =
  elf_magic :: uint
  elf_entry :: uint64
  elf_phoff :: uint64
  elf_phnum :: ushort

record proghdr =
  ph_type :: uint
  ph_flags :: uint
  ph_off :: uint64
  ph_vaddr :: uint64
  ph_filesz :: uint64
  ph_memsz :: uint64

definition at :: "memory \<Rightarrow> uint64 \<Rightarrow> bytes" where
  "at m a i = m (a + of_nat i)"

definition get_elfhdr :: "memory \<Rightarrow> uint64 \<Rightarrow> elfhdr" where
  "get_elfhdr m a = \<lparr>elf_magic = get32 (at m a) 0, elf_entry = load64 m (a + 24), elf_phoff = load64 m (a + 32),
     elf_phnum = get16 (at m a) 56\<rparr>"

definition get_proghdr :: "memory \<Rightarrow> uint64 \<Rightarrow> proghdr" where
  "get_proghdr m a = \<lparr>ph_type = get32 (at m a) 0, ph_flags = get32 (at m a) 4, ph_off = load64 m (a + 8),
     ph_vaddr = load64 m (a + 16), ph_filesz = load64 m (a + 32), ph_memsz = load64 m (a + 40)\<rparr>"

definition flags2perm :: "uint \<Rightarrow> uint64" where
  "flags2perm flags =
     (let perm = (if flags AND 1 \<noteq> 0 then PTE_X else 0) in if flags AND 2 \<noteq> 0 then perm OR PTE_W else perm)"

section \<open>Loading\<close>

fun loadseg_loop :: "nat \<Rightarrow> nat \<Rightarrow> uint64 \<Rightarrow> uint64 \<Rightarrow> nat \<Rightarrow> uint \<Rightarrow> uint \<Rightarrow> uint \<Rightarrow> 'a fkstate_scheme \<Rightarrow>
    (int \<times> 'a fkstate_scheme) kres" where
  "loadseg_loop c 0 pagetable va ip offset sz i s = Inl (Spin ''loadseg'')"
| "loadseg_loop c (Suc fuel) pagetable va ip offset sz i s =
     (if \<not> i < sz then Inr (0, s)
      else bnd (walkaddr c pagetable (va + ucast i) s) (\<lambda>pa.
        if pa = 0 then Inl (Panic ''loadseg: address should exist'')
        else let n = (if sz - i < ucast PGSIZE then sz - i else ucast PGSIZE)
             in bnd (readi c ip False pa (offset + i) n s) (\<lambda>(r, s).
                  if word_of_int r \<noteq> n then Inr (-1, s)
                  else loadseg_loop c fuel pagetable va ip offset sz (i + ucast PGSIZE) s)))"

definition loadseg :: "nat \<Rightarrow> uint64 \<Rightarrow> uint64 \<Rightarrow> nat \<Rightarrow> uint \<Rightarrow> uint \<Rightarrow> 'a fkstate_scheme \<Rightarrow>
    (int \<times> 'a fkstate_scheme) kres" where
  "loadseg c pagetable va ip offset sz s = loadseg_loop c (Suc (unat sz)) pagetable va ip offset sz 0 s"

text \<open>The loop over program headers; the result tells whether it was left by \<open>goto bad\<close>, and the size so far.\<close>

fun exec_load :: "nat \<Rightarrow> uint64 \<Rightarrow> nat \<Rightarrow> nat \<Rightarrow> uint \<Rightarrow> uint64 \<Rightarrow> 'a fkstate_scheme \<Rightarrow>
    (bool \<times> uint64 \<times> 'a fkstate_scheme) kres" where
  "exec_load c pagetable ip 0 off sz s = Inr (False, sz, s)"
| "exec_load c pagetable ip (Suc n) off sz s =
     bnd (readi c ip False (stk s + 64) off 56 s) (\<lambda>(r, s).
       let ph = get_proghdr (mem s) (stk s + 64)
       in if r \<noteq> 56 then Inr (True, sz, s)
          else if ph_type ph \<noteq> ELF_PROG_LOAD then exec_load c pagetable ip n (off + 56) sz s
          else if ph_memsz ph < ph_filesz ph then Inr (True, sz, s)
          else if ph_vaddr ph + ph_memsz ph < ph_vaddr ph then Inr (True, sz, s)
          else if ph_vaddr ph mod PGSIZE \<noteq> 0 then Inr (True, sz, s)
          else bnd (uvmalloc c pagetable sz (ph_vaddr ph + ph_memsz ph) (flags2perm (ph_flags ph)) s) (\<lambda>(sz1, s).
            if sz1 = 0 then Inr (True, sz, s)
            else bnd (loadseg c pagetable (ph_vaddr ph) ip (ucast (ph_off ph)) (ucast (ph_filesz ph)) s) (\<lambda>(r, s).
              if r < 0 then Inr (True, sz1, s)
              else exec_load c pagetable ip n (off + 56) sz1 s)))"

text \<open>The loop that pushes the argument strings: the final stack pointer and the pointers to the strings.\<close>

fun exec_args :: "nat \<Rightarrow> uint64 \<Rightarrow> uint64 \<Rightarrow> uint64 list \<Rightarrow> uint64 \<Rightarrow> uint64 list \<Rightarrow> 'a fkstate_scheme \<Rightarrow>
    (bool \<times> uint64 \<times> uint64 list \<times> 'a fkstate_scheme) kres" where
  "exec_args c pagetable stackbase [] sp ustack s = Inr (False, sp, ustack, s)"
| "exec_args c pagetable stackbase (a # argv) sp ustack s =
     (if length ustack \<ge> MAXARG then Inr (True, sp, ustack, s)
      else case strlen (at (mem s) a) of
          None \<Rightarrow> Inl (Spin ''strlen'')
        | Some len \<Rightarrow>
            let sp = sp - (of_nat len + 1); sp = sp - sp mod 16
            in if sp < stackbase then Inr (True, sp, ustack, s)
               else bnd (copyout c pagetable sp (at (mem s) a) (of_nat len + 1) s) (\<lambda>(r, s).
                 if r < 0 then Inr (True, sp, ustack, s)
                 else exec_args c pagetable stackbase argv sp (ustack @ [sp]) s))"

definition words_bytes :: "uint64 list \<Rightarrow> bytes" where
  "words_bytes ws i = (if i div 8 < length ws then ucast (drop_bit (8 * (i mod 8)) (ws ! (i div 8))) else 0)"

definition exec_bad :: "nat \<Rightarrow> uint64 \<Rightarrow> uint64 \<Rightarrow> nat option \<Rightarrow> 'a fkstate_scheme \<Rightarrow> (int \<times> 'a fkstate_scheme) kres" where
  "exec_bad c pagetable sz ip s =
     bnd (if pagetable \<noteq> 0 then proc_freepagetable c pagetable sz s else Inr s) (\<lambda>s.
     bnd (case ip of Some ip \<Rightarrow> bnd (iunlockput c ip s) (\<lambda>s. end_op c s) | None \<Rightarrow> Inr s) (\<lambda>s. Inr (-1, s)))"

text \<open>The part of the path after its last slash.\<close>

definition last_elem :: "uchar list \<Rightarrow> uchar list" where
  "last_elem path = rev (takeWhile (\<lambda>ch. ch \<noteq> slash) (rev path))"

text \<open>\<open>exec\<close> once the program is loaded and its file closed: the stack, and the commit to the new image.\<close>

definition exec_stack :: "nat \<Rightarrow> uint64 \<Rightarrow> uint64 \<Rightarrow> uint64 \<Rightarrow> uchar list \<Rightarrow> uint64 list \<Rightarrow> 'a fkstate_scheme \<Rightarrow>
    (int \<times> 'a fkstate_scheme) kres" where
  "exec_stack c pagetable entry sz path argv s =
     bnd (curproc c s) (\<lambda>(p, s).
     let oldsz = p_sz (procs s p); sz = PGROUNDUP sz
     in bnd (uvmalloc c pagetable sz (sz + 2 * PGSIZE) PTE_W s) (\<lambda>(sz1, s).
        if sz1 = 0 then exec_bad c pagetable sz None s
        else bnd (uvmclear c pagetable (sz1 - 2 * PGSIZE) s) (\<lambda>s.
          let stackbase = sz1 - PGSIZE
          in bnd (exec_args c pagetable stackbase argv sz1 [] s) (\<lambda>(bad, sp, ustack, s).
             if bad then exec_bad c pagetable sz1 None s
             else if length ustack \<ge> MAXARG then Inl (Undefined ''array index'')
             else let argc = length ustack; sp = sp - (of_nat argc + 1) * 8; sp = sp - sp mod 16
                  in if sp < stackbase then exec_bad c pagetable sz1 None s
                     else bnd (copyout c pagetable sp (words_bytes (ustack @ [0])) ((of_nat argc + 1) * 8) s) (\<lambda>(r, s).
                       if r < 0 then exec_bad c pagetable sz1 None s
                       else let s = tf_set p (TF_a 1) sp s;
                                s = upd_proc p (\<lambda>q. q\<lparr>p_name := safestrcpy (p_name q) (bytes_of (last_elem path)) 16\<rparr>) s;
                                oldpagetable = p_pagetable (procs s p);
                                s = upd_proc p (\<lambda>q. q\<lparr>p_pagetable := pagetable, p_sz := sz1\<rparr>) s;
                                s = tf_set p TF_epc entry s;
                                s = tf_set p TF_sp sp s
                            in bnd (proc_freepagetable c oldpagetable oldsz s) (\<lambda>s. Inr (int argc, s)))))))"

definition exec :: "nat \<Rightarrow> uchar list \<Rightarrow> uint64 list \<Rightarrow> 'a fkstate_scheme \<Rightarrow> (int \<times> 'a fkstate_scheme) kres" where
  "exec c path argv s =
     bnd (curproc c s) (\<lambda>(p, s).
     bnd (begin_op c s) (\<lambda>s.
     bnd (namei c path s) (\<lambda>(ip, s).
       case ip of
         None \<Rightarrow> bnd (end_op c s) (\<lambda>s. Inr (-1, s))
       | Some ip \<Rightarrow>
           bnd (ilock c ip s) (\<lambda>s.
           bnd (readi c ip False (stk s) 0 64 s) (\<lambda>(r, s).
             let elf = get_elfhdr (mem s) (stk s)
             in if r \<noteq> 64 then exec_bad c 0 0 (Some ip) s
                else if elf_magic elf \<noteq> ELF_MAGIC then exec_bad c 0 0 (Some ip) s
                else bnd (proc_pagetable c p s) (\<lambda>(pagetable, s).
                  if pagetable = 0 then exec_bad c 0 0 (Some ip) s
                  else bnd (exec_load c pagetable ip (unat (elf_phnum elf)) (ucast (elf_phoff elf)) 0 s) (\<lambda>(bad, sz, s).
                    if bad then exec_bad c pagetable sz (Some ip) s
                    else bnd (iunlockput c ip s) (\<lambda>s.
                         bnd (end_op c s) (\<lambda>s.
                           exec_stack c pagetable (elf_entry elf) sz path argv s)))))))))"

end
