(* ===== verification/Sysfile.thy ===== *)
theory Sysfile
  imports Proc_Life Exec
begin

text \<open>
  The system calls on files, \<open>kernel/sysfile.c\<close>, and the table of system calls of \<open>kernel/syscall.c\<close>. A path that
  was fetched from user memory is the list of its bytes before the NUL.
\<close>

section \<open>File descriptors\<close>

definition MAXPATH :: int where [simp]: "MAXPATH = 128"
definition O_RDONLY :: int where [simp]: "O_RDONLY = 0"
definition O_WRONLY :: int where [simp]: "O_WRONLY = 1"
definition O_RDWR :: int where [simp]: "O_RDWR = 2"
definition O_CREATE :: int where [simp]: "O_CREATE = 0x200"
definition O_TRUNC :: int where [simp]: "O_TRUNC = 0x400"

definition cpath :: "uchar list \<Rightarrow> uchar list" where
  "cpath buf = takeWhile (\<lambda>b. b \<noteq> 0) buf"

text \<open>The descriptor and the file, or \<open>None\<close> for -1.\<close>

definition argfd :: "nat \<Rightarrow> nat \<Rightarrow> 'a fkstate_scheme \<Rightarrow> ((nat \<times> nat) option \<times> 'a fkstate_scheme) kres" where
  "argfd c n s =
     bnd (argint c n s) (\<lambda>(fd, s).
       if fd < 0 \<or> fd \<ge> int NOFILE then Inr (None, s)
       else bnd (curproc c s) (\<lambda>(p, s). Inr (map_option (Pair (nat fd)) (p_ofile (procs s p) (nat fd)), s)))"

definition set_ofile :: "nat \<Rightarrow> nat \<Rightarrow> nat option \<Rightarrow> 'a pkstate_scheme \<Rightarrow> 'a pkstate_scheme" where
  "set_ofile p fd f = upd_proc p (\<lambda>q. q\<lparr>p_ofile := (p_ofile q)(fd := f)\<rparr>)"

definition fdalloc :: "nat \<Rightarrow> nat \<Rightarrow> 'a fkstate_scheme \<Rightarrow> (int \<times> 'a fkstate_scheme) kres" where
  "fdalloc c f s =
     bnd (curproc c s) (\<lambda>(p, s).
       case find (\<lambda>fd. p_ofile (procs s p) fd = None) [0..<NOFILE] of
         Some fd \<Rightarrow> Inr (int fd, set_ofile p fd (Some f) s)
       | None \<Rightarrow> Inr (-1, s))"

definition sys_dup :: "nat \<Rightarrow> 'a fkstate_scheme \<Rightarrow> (uint64 \<times> 'a fkstate_scheme) kres" where
  "sys_dup c s =
     bnd (argfd c 0 s) (\<lambda>(r, s).
       case r of None \<Rightarrow> Inr (-1, s)
       | Some (_, f) \<Rightarrow> bnd (fdalloc c f s) (\<lambda>(fd, s).
           if fd < 0 then Inr (-1, s) else bnd (filedup c f s) (\<lambda>(_, s). Inr (word_of_int fd, s))))"

definition sys_read :: "nat \<Rightarrow> 'a fkstate_scheme \<Rightarrow> (uint64 \<times> 'a fkstate_scheme) kres" where
  "sys_read c s =
     bnd (argaddr c 1 s) (\<lambda>(p, s). bnd (argint c 2 s) (\<lambda>(n, s). bnd (argfd c 0 s) (\<lambda>(r, s).
       case r of None \<Rightarrow> Inr (-1, s) | Some (_, f) \<Rightarrow> bnd (fileread c f p n s) (\<lambda>(v, s). Inr (word_of_int v, s)))))"

definition sys_write :: "nat \<Rightarrow> 'a fkstate_scheme \<Rightarrow> (uint64 \<times> 'a fkstate_scheme) kres" where
  "sys_write c s =
     bnd (argaddr c 1 s) (\<lambda>(p, s). bnd (argint c 2 s) (\<lambda>(n, s). bnd (argfd c 0 s) (\<lambda>(r, s).
       case r of None \<Rightarrow> Inr (-1, s) | Some (_, f) \<Rightarrow> bnd (filewrite c f p n s) (\<lambda>(v, s). Inr (word_of_int v, s)))))"

definition sys_close :: "nat \<Rightarrow> 'a fkstate_scheme \<Rightarrow> (uint64 \<times> 'a fkstate_scheme) kres" where
  "sys_close c s =
     bnd (argfd c 0 s) (\<lambda>(r, s).
       case r of None \<Rightarrow> Inr (-1, s)
       | Some (fd, f) \<Rightarrow> bnd (curproc c s) (\<lambda>(p, s).
           bnd (fileclose c f (set_ofile p fd None s)) (\<lambda>s. Inr (0, s))))"

definition sys_fstat :: "nat \<Rightarrow> 'a fkstate_scheme \<Rightarrow> (uint64 \<times> 'a fkstate_scheme) kres" where
  "sys_fstat c s =
     bnd (argaddr c 1 s) (\<lambda>(st, s). bnd (argfd c 0 s) (\<lambda>(r, s).
       case r of None \<Rightarrow> Inr (-1, s) | Some (_, f) \<Rightarrow> bnd (filestat c f st s) (\<lambda>(v, s). Inr (word_of_int v, s))))"

section \<open>Links\<close>

text \<open>The end of every error path inside a transaction.\<close>

definition fail_op :: "nat \<Rightarrow> 'a fkstate_scheme \<Rightarrow> (uint64 \<times> 'a fkstate_scheme) kres" where
  "fail_op c s = bnd (end_op c s) (\<lambda>s. Inr (-1, s))"

definition put_fail :: "nat \<Rightarrow> nat \<Rightarrow> 'a fkstate_scheme \<Rightarrow> (uint64 \<times> 'a fkstate_scheme) kres" where
  "put_fail c ip s = bnd (iunlockput c ip s) (\<lambda>s. fail_op c s)"

definition no_name :: "uchar list" where
  "no_name = replicate DIRSIZ 0"

definition link_bad :: "nat \<Rightarrow> nat \<Rightarrow> 'a fkstate_scheme \<Rightarrow> (uint64 \<times> 'a fkstate_scheme) kres" where
  "link_bad c ip s =
     bnd (ilock c ip s) (\<lambda>s.
     bnd (iupdate c ip (upd_inode ip (\<lambda>x. x\<lparr>i_nlink := i_nlink x - 1\<rparr>) s)) (\<lambda>s. put_fail c ip s))"

definition link_to :: "nat \<Rightarrow> nat \<Rightarrow> uchar list \<Rightarrow> 'a fkstate_scheme \<Rightarrow> (uint64 \<times> 'a fkstate_scheme) kres" where
  "link_to c ip new s =
     bnd (nameiparent c new no_name s) (\<lambda>(dp, name, s).
       case dp of None \<Rightarrow> link_bad c ip s
       | Some dp \<Rightarrow>
           bnd (ilock c dp s) (\<lambda>s.
           bnd (if i_dev (itable s dp) \<noteq> i_dev (itable s ip) then Inr (-1, s)
                else dirlink c dp (bytes_of name) (i_inum (itable s ip)) s) (\<lambda>(r, s).
           bnd (iunlockput c dp s) (\<lambda>s.
             if r < 0 then link_bad c ip s
             else bnd (iput c ip s) (\<lambda>s. bnd (end_op c s) (\<lambda>s. Inr (0, s)))))))"

definition sys_link :: "nat \<Rightarrow> 'a fkstate_scheme \<Rightarrow> (uint64 \<times> 'a fkstate_scheme) kres" where
  "sys_link c s =
     bnd (argstr c 0 MAXPATH s) (\<lambda>(r, old, s).
       if r < 0 then Inr (-1, s)
       else bnd (argstr c 1 MAXPATH s) (\<lambda>(r, new, s).
         if r < 0 then Inr (-1, s)
         else bnd (begin_op c s) (\<lambda>s.
              bnd (namei c (cpath old) s) (\<lambda>(ip, s).
                case ip of None \<Rightarrow> fail_op c s
                | Some ip \<Rightarrow>
                    bnd (ilock c ip s) (\<lambda>s.
                      if i_type (itable s ip) = T_DIR then put_fail c ip s
                      else bnd (iupdate c ip (upd_inode ip (\<lambda>x. x\<lparr>i_nlink := i_nlink x + 1\<rparr>) s)) (\<lambda>s.
                           bnd (iunlock c ip s) (\<lambda>s. link_to c ip (cpath new) s)))))))"

fun isdirempty_loop :: "nat \<Rightarrow> nat \<Rightarrow> uint list \<Rightarrow> 'a fkstate_scheme \<Rightarrow> (bool \<times> 'a fkstate_scheme) kres" where
  "isdirempty_loop c dp [] s = Inr (True, s)"
| "isdirempty_loop c dp (off # offs) s =
     bnd (readi c dp False (stk s) off 16 s) (\<lambda>(r, s).
       if r \<noteq> 16 then Inl (Panic ''isdirempty: readi'')
       else if de_inum s \<noteq> 0 then Inr (False, s)
       else isdirempty_loop c dp offs s)"

definition isdirempty :: "nat \<Rightarrow> nat \<Rightarrow> 'a fkstate_scheme \<Rightarrow> (bool \<times> 'a fkstate_scheme) kres" where
  "isdirempty c dp s = isdirempty_loop c dp (drop 2 (dir_offsets (i_size (itable s dp)))) s"

definition dot :: "uchar list" where "dot = map chr ''.''"
definition dotdot :: "uchar list" where "dotdot = map chr ''..''"

definition unlink_entry :: "nat \<Rightarrow> nat \<Rightarrow> nat \<Rightarrow> uint \<Rightarrow> 'a fkstate_scheme \<Rightarrow> (uint64 \<times> 'a fkstate_scheme) kres" where
  "unlink_entry c dp ip off s =
     (let s = s\<lparr>mem := memset (mem s) (stk s) 0 16\<rparr>
      in bnd (writei c dp False (stk s) off 16 s) (\<lambda>(r, s).
           if r \<noteq> 16 then Inl (Panic ''unlink: writei'')
           else bnd (if i_type (itable s ip) = T_DIR
                     then iupdate c dp (upd_inode dp (\<lambda>x. x\<lparr>i_nlink := i_nlink x - 1\<rparr>) s) else Inr s) (\<lambda>s.
                bnd (iunlockput c dp s) (\<lambda>s.
                bnd (iupdate c ip (upd_inode ip (\<lambda>x. x\<lparr>i_nlink := i_nlink x - 1\<rparr>) s)) (\<lambda>s.
                bnd (iunlockput c ip s) (\<lambda>s.
                bnd (end_op c s) (\<lambda>s. Inr (0, s))))))))"

definition sys_unlink :: "nat \<Rightarrow> 'a fkstate_scheme \<Rightarrow> (uint64 \<times> 'a fkstate_scheme) kres" where
  "sys_unlink c s =
     bnd (argstr c 0 MAXPATH s) (\<lambda>(r, path, s).
       if r < 0 then Inr (-1, s)
       else bnd (begin_op c s) (\<lambda>s.
            bnd (nameiparent c (cpath path) no_name s) (\<lambda>(dp, name, s).
              case dp of None \<Rightarrow> fail_op c s
              | Some dp \<Rightarrow>
                  bnd (ilock c dp s) (\<lambda>s.
                    if namecmp (bytes_of name) (bytes_of dot) = 0 \<or> namecmp (bytes_of name) (bytes_of dotdot) = 0
                    then put_fail c dp s
                    else bnd (dirlookup c dp (bytes_of name) s) (\<lambda>(r, s).
                      case r of None \<Rightarrow> put_fail c dp s
                      | Some (ip, off) \<Rightarrow>
                          bnd (ilock c ip s) (\<lambda>s.
                            if sint (i_nlink (itable s ip)) < 1 then Inl (Panic ''unlink: nlink < 1'')
                            else bnd (if i_type (itable s ip) = T_DIR then isdirempty c ip s else Inr (True, s)) (\<lambda>(emp, s).
                              if \<not> emp then bnd (iunlockput c ip s) (\<lambda>s. put_fail c dp s)
                              else unlink_entry c dp ip off s)))))))"

section \<open>Creating and opening\<close>

definition create_fail :: "nat \<Rightarrow> nat \<Rightarrow> nat \<Rightarrow> 'a fkstate_scheme \<Rightarrow> (nat option \<times> 'a fkstate_scheme) kres" where
  "create_fail c ip dp s =
     bnd (iupdate c ip (upd_inode ip (\<lambda>x. x\<lparr>i_nlink := 0\<rparr>) s)) (\<lambda>s.
     bnd (iunlockput c ip s) (\<lambda>s.
     bnd (iunlockput c dp s) (\<lambda>s. Inr (None, s))))"

text \<open>\<open>create\<close> once the new inode \<open>ip\<close> is allocated.\<close>

definition create_entry :: "nat \<Rightarrow> nat \<Rightarrow> nat \<Rightarrow> uchar list \<Rightarrow> ushort \<Rightarrow> ushort \<Rightarrow> ushort \<Rightarrow> 'a fkstate_scheme \<Rightarrow>
    (nat option \<times> 'a fkstate_scheme) kres" where
  "create_entry c dp ip name ty major minor s =
     bnd (ilock c ip s) (\<lambda>s.
     bnd (iupdate c ip (upd_inode ip (\<lambda>x. x\<lparr>i_major := major, i_minor := minor, i_nlink := 1\<rparr>) s)) (\<lambda>s.
     bnd (if ty = T_DIR
          then bnd (dirlink c ip (bytes_of dot) (i_inum (itable s ip)) s) (\<lambda>(r, s).
                 if r < 0 then Inr (r, s) else dirlink c ip (bytes_of dotdot) (i_inum (itable s dp)) s)
          else Inr (0, s)) (\<lambda>(r, s).
       if r < 0 then create_fail c ip dp s
       else bnd (dirlink c dp (bytes_of name) (i_inum (itable s ip)) s) (\<lambda>(r, s).
         if r < 0 then create_fail c ip dp s
         else bnd (if ty = T_DIR then iupdate c dp (upd_inode dp (\<lambda>x. x\<lparr>i_nlink := i_nlink x + 1\<rparr>) s) else Inr s) (\<lambda>s.
              bnd (iunlockput c dp s) (\<lambda>s. Inr (Some ip, s)))))))"

definition create :: "nat \<Rightarrow> uchar list \<Rightarrow> ushort \<Rightarrow> ushort \<Rightarrow> ushort \<Rightarrow> 'a fkstate_scheme \<Rightarrow>
    (nat option \<times> 'a fkstate_scheme) kres" where
  "create c path ty major minor s =
     bnd (nameiparent c path no_name s) (\<lambda>(dp, name, s).
       case dp of None \<Rightarrow> Inr (None, s)
       | Some dp \<Rightarrow>
           bnd (ilock c dp s) (\<lambda>s.
           bnd (dirlookup c dp (bytes_of name) s) (\<lambda>(r, s).
             case r of
               Some (ip, _) \<Rightarrow>
                 bnd (iunlockput c dp s) (\<lambda>s.
                 bnd (ilock c ip s) (\<lambda>s.
                   if ty = T_FILE \<and> (i_type (itable s ip) = T_FILE \<or> i_type (itable s ip) = T_DEVICE) then Inr (Some ip, s)
                   else bnd (iunlockput c ip s) (\<lambda>s. Inr (None, s))))
             | None \<Rightarrow>
                 bnd (ialloc c (i_dev (itable s dp)) ty s) (\<lambda>(ip, s).
                   case ip of None \<Rightarrow> bnd (iunlockput c dp s) (\<lambda>s. Inr (None, s))
                   | Some ip \<Rightarrow> create_entry c dp ip name ty major minor s))))"

text \<open>\<open>sys_open\<close> once the inode is found or created, and locked.\<close>

definition open_inode :: "nat \<Rightarrow> int \<Rightarrow> nat \<Rightarrow> 'a fkstate_scheme \<Rightarrow> (uint64 \<times> 'a fkstate_scheme) kres" where
  "open_inode c omode ip s =
     (let x = itable s ip
      in if i_type x = T_DEVICE \<and> (sint (i_major x) < 0 \<or> sint (i_major x) \<ge> int NDEV) then put_fail c ip s
         else bnd (filealloc c s) (\<lambda>(f, s).
           case f of None \<Rightarrow> put_fail c ip s
           | Some f \<Rightarrow>
               bnd (fdalloc c f s) (\<lambda>(fd, s).
                 if fd < 0 then bnd (fileclose c f s) (\<lambda>s. put_fail c ip s)
                 else let s = (if i_type (itable s ip) = T_DEVICE
                               then upd_file f (\<lambda>y. y\<lparr>f_type := FD_DEVICE, f_major := i_major (itable s ip)\<rparr>) s
                               else upd_file f (\<lambda>y. y\<lparr>f_type := FD_INODE, f_off := 0\<rparr>) s);
                          s = upd_file f (\<lambda>y. y\<lparr>f_ip := ip, f_readable := (omode AND O_WRONLY = 0),
                                f_writable := (omode AND O_WRONLY \<noteq> 0 \<or> omode AND O_RDWR \<noteq> 0)\<rparr>) s
                      in bnd (if omode AND O_TRUNC \<noteq> 0 \<and> i_type (itable s ip) = T_FILE then itrunc c ip s else Inr s) (\<lambda>s.
                         bnd (iunlock c ip s) (\<lambda>s.
                         bnd (end_op c s) (\<lambda>s. Inr (word_of_int fd, s)))))))"

definition sys_open :: "nat \<Rightarrow> 'a fkstate_scheme \<Rightarrow> (uint64 \<times> 'a fkstate_scheme) kres" where
  "sys_open c s =
     bnd (argint c 1 s) (\<lambda>(omode, s).
     bnd (argstr c 0 MAXPATH s) (\<lambda>(r, path, s).
       if r < 0 then Inr (-1, s)
       else bnd (begin_op c s) (\<lambda>s.
         if omode AND O_CREATE \<noteq> 0
         then bnd (create c (cpath path) T_FILE 0 0 s) (\<lambda>(ip, s).
                case ip of None \<Rightarrow> fail_op c s | Some ip \<Rightarrow> open_inode c omode ip s)
         else bnd (namei c (cpath path) s) (\<lambda>(ip, s).
                case ip of None \<Rightarrow> fail_op c s
                | Some ip \<Rightarrow> bnd (ilock c ip s) (\<lambda>s.
                    if i_type (itable s ip) = T_DIR \<and> omode \<noteq> O_RDONLY then put_fail c ip s
                    else open_inode c omode ip s)))))"

definition sys_mkdir :: "nat \<Rightarrow> 'a fkstate_scheme \<Rightarrow> (uint64 \<times> 'a fkstate_scheme) kres" where
  "sys_mkdir c s =
     bnd (begin_op c s) (\<lambda>s.
     bnd (argstr c 0 MAXPATH s) (\<lambda>(r, path, s).
       if r < 0 then fail_op c s
       else bnd (create c (cpath path) T_DIR 0 0 s) (\<lambda>(ip, s).
         case ip of None \<Rightarrow> fail_op c s
         | Some ip \<Rightarrow> bnd (iunlockput c ip s) (\<lambda>s. bnd (end_op c s) (\<lambda>s. Inr (0, s))))))"

definition sys_mknod :: "nat \<Rightarrow> 'a fkstate_scheme \<Rightarrow> (uint64 \<times> 'a fkstate_scheme) kres" where
  "sys_mknod c s =
     bnd (begin_op c s) (\<lambda>s.
     bnd (argint c 1 s) (\<lambda>(major, s).
     bnd (argint c 2 s) (\<lambda>(minor, s).
     bnd (argstr c 0 MAXPATH s) (\<lambda>(r, path, s).
       if r < 0 then fail_op c s
       else bnd (create c (cpath path) T_DEVICE (word_of_int major) (word_of_int minor) s) (\<lambda>(ip, s).
         case ip of None \<Rightarrow> fail_op c s
         | Some ip \<Rightarrow> bnd (iunlockput c ip s) (\<lambda>s. bnd (end_op c s) (\<lambda>s. Inr (0, s))))))))"

definition sys_chdir :: "nat \<Rightarrow> 'a fkstate_scheme \<Rightarrow> (uint64 \<times> 'a fkstate_scheme) kres" where
  "sys_chdir c s =
     bnd (curproc c s) (\<lambda>(p, s).
     bnd (begin_op c s) (\<lambda>s.
     bnd (argstr c 0 MAXPATH s) (\<lambda>(r, path, s).
       if r < 0 then fail_op c s
       else bnd (namei c (cpath path) s) (\<lambda>(ip, s).
         case ip of None \<Rightarrow> fail_op c s
         | Some ip \<Rightarrow>
             bnd (ilock c ip s) (\<lambda>s.
               if i_type (itable s ip) \<noteq> T_DIR then put_fail c ip s
               else bnd (iunlock c ip s) (\<lambda>s.
                    bnd (case p_cwd (procs s p) of None \<Rightarrow> Inl (Panic ''kerneltrap'') | Some d \<Rightarrow> iput c d s) (\<lambda>s.
                    bnd (end_op c s) (\<lambda>s. Inr (0, upd_proc p (\<lambda>q. q\<lparr>p_cwd := Some ip\<rparr>) s)))))))))"

section \<open>Exec and pipe\<close>

text \<open>
  The loop of \<open>sys_exec\<close> that fetches the arguments: the pages allocated so far, and whether it was left by
  \<open>goto bad\<close>. \<open>n\<close> is \<open>NELEM(argv) - i\<close>.
\<close>

fun exec_argv :: "nat \<Rightarrow> uint64 \<Rightarrow> nat \<Rightarrow> uint64 list \<Rightarrow> 'a fkstate_scheme \<Rightarrow> (bool \<times> uint64 list \<times> 'a fkstate_scheme) kres" where
  "exec_argv c uargv 0 argv s = Inr (True, argv, s)"
| "exec_argv c uargv (Suc n) argv s =
     bnd (fetchaddr c (uargv + 8 * of_nat (length argv)) s) (\<lambda>(r, uarg, s).
       if r < 0 then Inr (True, argv, s)
       else if uarg = 0 then Inr (False, argv, s)
       else bnd (kalloc c s) (\<lambda>(pg, s).
         if pg = 0 then Inr (True, argv, s)
         else bnd (fetchstr c uarg 4096 s) (\<lambda>(r, buf, s).
           let s = s\<lparr>mem := poke (mem s) pg (bytes_of buf) (length buf)\<rparr>
           in if r < 0 then Inr (True, argv @ [pg], s) else exec_argv c uargv n (argv @ [pg]) s)))"

definition sys_exec :: "nat \<Rightarrow> 'a fkstate_scheme \<Rightarrow> (uint64 \<times> 'a fkstate_scheme) kres" where
  "sys_exec c s =
     bnd (argaddr c 1 s) (\<lambda>(uargv, s).
     bnd (argstr c 0 MAXPATH s) (\<lambda>(r, path, s).
       if r < 0 then Inr (-1, s)
       else bnd (exec_argv c uargv MAXARG [] s) (\<lambda>(bad, argv, s).
         bnd (if bad then Inr (-1, s) else exec c (cpath path) argv s) (\<lambda>(ret, s).
         bnd (foldM (kfree c) argv s) (\<lambda>s. Inr (word_of_int ret, s))))))"

definition pipe_bad :: "nat \<Rightarrow> nat \<Rightarrow> nat \<Rightarrow> 'a fkstate_scheme \<Rightarrow> (uint64 \<times> 'a fkstate_scheme) kres" where
  "pipe_bad c rf wfile s = bnd (fileclose c rf s) (\<lambda>s. bnd (fileclose c wfile s) (\<lambda>s. Inr (-1, s)))"

definition sys_pipe :: "nat \<Rightarrow> 'a fkstate_scheme \<Rightarrow> (uint64 \<times> 'a fkstate_scheme) kres" where
  "sys_pipe c s =
     bnd (curproc c s) (\<lambda>(p, s).
     bnd (argaddr c 0 s) (\<lambda>(fdarray, s).
     bnd (pipealloc c s) (\<lambda>(r, s).
       case r of None \<Rightarrow> Inr (-1, s)
       | Some (rf, wfile) \<Rightarrow>
           bnd (fdalloc c rf s) (\<lambda>(fd0, s).
             if fd0 < 0 then pipe_bad c rf wfile s
             else bnd (fdalloc c wfile s) (\<lambda>(fd1, s).
               if fd1 < 0 then pipe_bad c rf wfile (set_ofile p (nat fd0) None s)
               else bnd (copyout c (p_pagetable (procs s p)) fdarray (int_bytes fd0) 4 s) (\<lambda>(r, s).
                    bnd (if r < 0 then Inr (r, s)
                         else copyout c (p_pagetable (procs s p)) (fdarray + 4) (int_bytes fd1) 4 s) (\<lambda>(r, s).
                      if r < 0 then pipe_bad c rf wfile (set_ofile p (nat fd1) None (set_ofile p (nat fd0) None s))
                      else Inr (0, s))))))))"

section \<open>The table of system calls\<close>

definition syscalls :: "nat \<Rightarrow> nat \<Rightarrow> ('a fkstate_scheme \<Rightarrow> (uint64 \<times> 'a fkstate_scheme) kres) option" where
  "syscalls c num =
     map_of [(1, sys_fork c), (2, sys_exit c), (3, sys_wait c), (4, sys_pipe c), (5, sys_read c), (6, sys_kill c),
       (7, sys_exec c), (8, sys_fstat c), (9, sys_chdir c), (10, sys_dup c), (11, sys_getpid c), (12, sys_sbrk c),
       (13, sys_sleep c), (14, sys_uptime c), (15, sys_open c), (16, sys_write c), (17, sys_mknod c),
       (18, sys_unlink c), (19, sys_link c), (20, sys_mkdir c), (21, sys_close c)] num"

end
