(* ===== verification/Trap.thy ===== *)
theory Trap
  imports Sysfile
begin

text \<open>
  Traps, \<open>kernel/trap.c\<close>, the interrupt controller, \<open>kernel/plic.c\<close>, and \<open>forkret\<close> of \<open>kernel/proc.c\<close>. A handler that
  gives up the processor is split at its call of \<open>yield()\<close>: the part after it is \<open>usertrap_resume\<close> and
  \<open>kerneltrap_resume\<close>, which runs when the scheduler has chosen the process again.
\<close>

section \<open>State\<close>

text \<open>The supervisor registers of a hart, besides \<open>sstatus\<close>; \<open>cpuid()\<close> is the number of the hart.\<close>

record csrs =
  scause :: uint64
  sepc :: uint64
  stval :: uint64
  stvec :: uint64
  satp :: uint64
  sip :: uint64

text \<open>
  \<open>plic_claims\<close> are the values that the claim register of each hart will return, \<open>plic_log\<close> the writes to the
  controller; \<open>forkret_first\<close> is the static variable of \<open>forkret\<close>. The addresses of code are those the linker
  gives to the symbols.
\<close>

record tkstate = fkstate +
  csr :: "nat \<Rightarrow> csrs"
  plic_claims :: "nat \<Rightarrow> uint list"
  plic_log :: "(uint64 \<times> uint) list"
  forkret_first :: bool
  kernel_pagetable :: uint64
  started :: bool
  kernelvec_addr :: uint64
  uservec_addr :: uint64
  userret_addr :: uint64
  usertrap_addr :: uint64

definition upd_csr :: "nat \<Rightarrow> (csrs \<Rightarrow> csrs) \<Rightarrow> 'a tkstate_scheme \<Rightarrow> 'a tkstate_scheme" where
  "upd_csr c f s = s\<lparr>csr := (csr s)(c := f (csr s c))\<rparr>"

abbreviation r_sstatus :: "nat \<Rightarrow> 'a tkstate_scheme \<Rightarrow> uint64" where
  "r_sstatus c s \<equiv> sstatus (mach s) c"

definition w_sstatus :: "nat \<Rightarrow> uint64 \<Rightarrow> 'a tkstate_scheme \<Rightarrow> 'a tkstate_scheme" where
  "w_sstatus c x s = s\<lparr>mach := set_sstatus c x (mach s)\<rparr>"

section \<open>The interrupt controller\<close>

definition UART0_IRQ :: uint where [simp]: "UART0_IRQ = 10"
definition VIRTIO0_IRQ :: uint where [simp]: "VIRTIO0_IRQ = 1"

definition PLIC_SENABLE :: "nat \<Rightarrow> uint64" where
  "PLIC_SENABLE hart = PLIC + 0x2080 + of_nat hart * 0x100"

definition PLIC_SPRIORITY :: "nat \<Rightarrow> uint64" where
  "PLIC_SPRIORITY hart = PLIC + 0x201000 + of_nat hart * 0x2000"

definition PLIC_SCLAIM :: "nat \<Rightarrow> uint64" where
  "PLIC_SCLAIM hart = PLIC + 0x201004 + of_nat hart * 0x2000"

definition plic_write :: "uint64 \<Rightarrow> uint \<Rightarrow> 'a tkstate_scheme \<Rightarrow> 'a tkstate_scheme" where
  "plic_write a v s = s\<lparr>plic_log := plic_log s @ [(a, v)]\<rparr>"

definition plicinit :: "'a tkstate_scheme \<Rightarrow> 'a tkstate_scheme" where
  "plicinit s = plic_write (PLIC + ucast VIRTIO0_IRQ * 4) 1 (plic_write (PLIC + ucast UART0_IRQ * 4) 1 s)"

definition plicinithart :: "nat \<Rightarrow> 'a tkstate_scheme \<Rightarrow> 'a tkstate_scheme" where
  "plicinithart c s =
     plic_write (PLIC_SPRIORITY c) 0
       (plic_write (PLIC_SENABLE c) (push_bit (unat UART0_IRQ) 1 OR push_bit (unat VIRTIO0_IRQ) 1) s)"

definition plic_claim :: "nat \<Rightarrow> 'a tkstate_scheme \<Rightarrow> uint \<times> 'a tkstate_scheme" where
  "plic_claim c s = (case plic_claims s c of [] \<Rightarrow> (0, s) | q # qs \<Rightarrow> (q, s\<lparr>plic_claims := (plic_claims s)(c := qs)\<rparr>))"

definition plic_complete :: "nat \<Rightarrow> uint \<Rightarrow> 'a tkstate_scheme \<Rightarrow> 'a tkstate_scheme" where
  "plic_complete c irq s = plic_write (PLIC_SCLAIM c) irq s"

section \<open>Device interrupts\<close>

definition trapinit :: "'a tkstate_scheme \<Rightarrow> 'a tkstate_scheme" where
  "trapinit s = s\<lparr>mach := initlock TicksLock ''time'' (mach s)\<rparr>"

definition trapinithart :: "nat \<Rightarrow> 'a tkstate_scheme \<Rightarrow> 'a tkstate_scheme" where
  "trapinithart c s = upd_csr c (\<lambda>x. x\<lparr>stvec := kernelvec_addr s\<rparr>) s"

definition clockintr :: "nat \<Rightarrow> 'a dkstate_scheme \<Rightarrow> 'a dkstate_scheme kres" where
  "clockintr c s =
     bnd (kacquire c TicksLock s) (\<lambda>s.
     bnd (wakeup c (Some TicksChan) (s\<lparr>ticks := ticks s + 1\<rparr>)) (krelease c TicksLock))"

definition devintr :: "nat \<Rightarrow> 'a tkstate_scheme \<Rightarrow> (int \<times> 'a tkstate_scheme) kres" where
  "devintr c s =
     (let sc = scause (csr s c)
      in if sc AND 0x8000000000000000 \<noteq> 0 \<and> sc AND 0xff = 9
         then case plic_claim c s of (irq, s) \<Rightarrow>
                bnd (if irq = UART0_IRQ then uartintr c s
                     else if irq = VIRTIO0_IRQ then virtio_disk_intr c s
                     else if irq \<noteq> 0 then printf c (''unexpected interrupt irq=%d'' @ [CHR 0x0A]) [AInt irq] s
                     else Inr s) (\<lambda>s.
                  Inr (1, if irq \<noteq> 0 then plic_complete c irq s else s))
         else if sc = 0x8000000000000001
         then bnd (if c = 0 then clockintr c s else Inr s) (\<lambda>s.
                Inr (2, upd_csr c (\<lambda>x. x\<lparr>sip := sip x AND NOT 2\<rparr>) s))
         else Inr (0, s))"

section \<open>Traps from user space\<close>

text \<open>The state with which \<open>userret\<close> is entered, and its argument.\<close>

definition usertrapret :: "nat \<Rightarrow> 'a tkstate_scheme \<Rightarrow> (uint64 \<times> 'a tkstate_scheme) kres" where
  "usertrapret c s =
     bnd (curproc c s) (\<lambda>(p, s).
     let s = w_sstatus c (intr_off (r_sstatus c s)) s;
         s = upd_csr c (\<lambda>x. x\<lparr>stvec := TRAMPOLINE + (uservec_addr s - trampoline s)\<rparr>) s;
         s = tf_set p TF_kernel_satp (satp (csr s c)) s;
         s = tf_set p TF_kernel_sp (p_kstack (procs s p) + PGSIZE) s;
         s = tf_set p TF_kernel_trap (usertrap_addr s) s;
         s = tf_set p TF_kernel_hartid (of_nat c) s;
         x = r_sstatus c s AND NOT SSTATUS_SPP;
         x = x OR SSTATUS_SPIE;
         s = w_sstatus c x s;
         s = upd_csr c (\<lambda>y. y\<lparr>sepc := tf_get p TF_epc s\<rparr>) s
     in Inr (MAKE_SATP (p_pagetable (procs s p)), s))"

text \<open>\<open>usertrap\<close> up to \<open>yield()\<close>; the result tells whether it is called.\<close>

definition usertrap_handle :: "nat \<Rightarrow> 'a tkstate_scheme \<Rightarrow> (bool \<times> 'a tkstate_scheme) kres" where
  "usertrap_handle c s =
     (if r_sstatus c s AND SSTATUS_SPP \<noteq> 0 then Inl (Panic ''usertrap: not from user mode'')
      else let s = upd_csr c (\<lambda>x. x\<lparr>stvec := kernelvec_addr s\<rparr>) s
           in bnd (curproc c s) (\<lambda>(p, s).
              let s = tf_set p TF_epc (sepc (csr s c)) s
              in bnd (if scause (csr s c) = 8
                      then bnd (killed c p s) (\<lambda>(k, s).
                             if k \<noteq> 0 then exit c (-1) s
                             else let s = tf_set p TF_epc (tf_get p TF_epc s + 4) s;
                                      s = w_sstatus c (intr_on (r_sstatus c s)) s
                                  in bnd (syscall c (syscalls c) s) (\<lambda>s. Inr (0, s)))
                      else bnd (devintr c s) (\<lambda>(which_dev, s).
                        if which_dev \<noteq> 0 then Inr (which_dev, s)
                        else bnd (printf c (''usertrap(): unexpected scause %p pid=%d'' @ [CHR 0x0A])
                                    [APtr (scause (csr s c)), AInt (word_of_int (p_pid (procs s p)))] s) (\<lambda>s.
                             bnd (printf c (''            sepc=%p stval=%p'' @ [CHR 0x0A])
                                    [APtr (sepc (csr s c)), APtr (stval (csr s c))] s) (\<lambda>s.
                             bnd (setkilled c p s) (\<lambda>s. Inr (0, s)))))) (\<lambda>(which_dev, s).
                 bnd (killed c p s) (\<lambda>(k, s).
                   if k \<noteq> 0 then exit c (-1) s else Inr (which_dev = 2, s)))))"

definition usertrap :: "nat \<Rightarrow> 'a tkstate_scheme \<Rightarrow> (uint64 \<times> 'a tkstate_scheme) kres" where
  "usertrap c s =
     bnd (usertrap_handle c s) (\<lambda>(yields, s).
       if yields then bnd (yield_enter c s) (\<lambda>_. Inl (Block ''yield'')) else usertrapret c s)"

definition usertrap_resume :: "nat \<Rightarrow> nat \<Rightarrow> 'a tkstate_scheme \<Rightarrow> (uint64 \<times> 'a tkstate_scheme) kres" where
  "usertrap_resume c p s = bnd (yield_resume c p s) (usertrapret c)"

section \<open>Traps from the kernel\<close>

definition kerneltrap_handle :: "nat \<Rightarrow> 'a tkstate_scheme \<Rightarrow> (bool \<times> 'a tkstate_scheme) kres" where
  "kerneltrap_handle c s =
     (let sst = r_sstatus c s; sc = scause (csr s c)
      in if sst AND SSTATUS_SPP = 0 then Inl (Panic ''kerneltrap: not from supervisor mode'')
         else if intr_get (r_sstatus c s) then Inl (Panic ''kerneltrap: interrupts enabled'')
         else bnd (devintr c s) (\<lambda>(which_dev, s).
           if which_dev = 0
           then bnd (printf c (''scause %p'' @ [CHR 0x0A]) [APtr sc] s) (\<lambda>s.
                bnd (printf c (''sepc=%p stval=%p'' @ [CHR 0x0A]) [APtr (sepc (csr s c)), APtr (stval (csr s c))] s) (\<lambda>s.
                  Inl (Panic ''kerneltrap'')))
           else if which_dev = 2
           then bnd (myproc c s) (\<lambda>(p, s).
                  case p of None \<Rightarrow> Inr (False, s)
                  | Some _ \<Rightarrow> bnd (curproc c s) (\<lambda>(p, s). Inr (p_state (procs s p) = RUNNING, s)))
           else Inr (False, s)))"

definition kerneltrap_restore :: "nat \<Rightarrow> uint64 \<Rightarrow> uint64 \<Rightarrow> 'a tkstate_scheme \<Rightarrow> 'a tkstate_scheme" where
  "kerneltrap_restore c epc sst s = w_sstatus c sst (upd_csr c (\<lambda>x. x\<lparr>sepc := epc\<rparr>) s)"

definition kerneltrap :: "nat \<Rightarrow> 'a tkstate_scheme \<Rightarrow> 'a tkstate_scheme kres" where
  "kerneltrap c s =
     bnd (kerneltrap_handle c s) (\<lambda>(yields, s').
       if yields then bnd (yield_enter c s') (\<lambda>_. Inl (Block ''yield''))
       else Inr (kerneltrap_restore c (sepc (csr s c)) (r_sstatus c s) s'))"

text \<open>The rest of \<open>kerneltrap\<close> after \<open>yield()\<close>, with the two local variables saved at its start.\<close>

definition kerneltrap_resume :: "nat \<Rightarrow> nat \<Rightarrow> uint64 \<Rightarrow> uint64 \<Rightarrow> 'a tkstate_scheme \<Rightarrow> 'a tkstate_scheme kres" where
  "kerneltrap_resume c p epc sst s = bnd (yield_resume c p s) (\<lambda>s. Inr (kerneltrap_restore c epc sst s))"

section \<open>The first return to user space\<close>

definition forkret :: "nat \<Rightarrow> 'a tkstate_scheme \<Rightarrow> (uint64 \<times> 'a tkstate_scheme) kres" where
  "forkret c s =
     bnd (curproc c s) (\<lambda>(p, s).
     bnd (krelease c (ProcLock p) s) (\<lambda>s.
     bnd (if forkret_first s then fsinit c (uint ROOTDEV) (s\<lparr>forkret_first := False\<rparr>) else Inr s) (\<lambda>s.
       usertrapret c s)))"

end
