(* ===== verification/Boot.thy ===== *)
theory Boot
  imports Trap
begin

text \<open>
  Starting the machine: the kernel's page table (the first part of \<open>kernel/vm.c\<close>), \<open>kernel/start.c\<close> and
  \<open>kernel/main.c\<close>.
\<close>

section \<open>The kernel's page table\<close>


text \<open>The regions of \<open>kvmmake\<close>: virtual address, physical address, size and permissions.\<close>

definition kernel_regions :: "'a kstate_scheme \<Rightarrow> (uint64 \<times> uint64 \<times> uint64 \<times> uint64) list" where
  "kernel_regions s =
     [(UART0, UART0, PGSIZE, PTE_R OR PTE_W),
      (VIRTIO0, VIRTIO0, PGSIZE, PTE_R OR PTE_W),
      (PLIC, PLIC, 0x400000, PTE_R OR PTE_W),
      (KERNBASE, KERNBASE, etext s - KERNBASE, PTE_R OR PTE_X),
      (etext s, etext s, PHYSTOP - etext s, PTE_R OR PTE_W),
      (TRAMPOLINE, trampoline s, PGSIZE, PTE_R OR PTE_X)]"

definition kvmmake :: "nat \<Rightarrow> 'a kstate_scheme \<Rightarrow> (uint64 \<times> 'a kstate_scheme) kres" where
  "kvmmake c s =
     bnd (kalloc c s) (\<lambda>(kpgtbl, s).
     let s = s\<lparr>mem := memset (mem s) kpgtbl 0 (ucast PGSIZE)\<rparr>
     in bnd (foldM (\<lambda>(va, pa, sz, perm) s. kvmmap c kpgtbl va pa sz perm s) (kernel_regions s) s) (\<lambda>s.
        bnd (proc_mapstacks c kpgtbl s) (\<lambda>s. Inr (kpgtbl, s))))"

definition kvminit :: "nat \<Rightarrow> 'a tkstate_scheme \<Rightarrow> 'a tkstate_scheme kres" where
  "kvminit c s = bnd (kvmmake c s) (\<lambda>(pt, s). Inr (s\<lparr>kernel_pagetable := pt\<rparr>))"

definition kvminithart :: "nat \<Rightarrow> 'a tkstate_scheme \<Rightarrow> 'a tkstate_scheme" where
  "kvminithart c s = upd_csr c (\<lambda>x. x\<lparr>satp := MAKE_SATP (kernel_pagetable s)\<rparr>) s"

section \<open>Machine mode\<close>

definition MSTATUS_MPP_MASK :: uint64 where [simp]: "MSTATUS_MPP_MASK = push_bit 11 3"
definition MSTATUS_MPP_S :: uint64 where [simp]: "MSTATUS_MPP_S = push_bit 11 1"
definition MSTATUS_MIE :: uint64 where [simp]: "MSTATUS_MIE = push_bit 3 1"
definition SIE_SEIE :: uint64 where [simp]: "SIE_SEIE = push_bit 9 1"
definition SIE_STIE :: uint64 where [simp]: "SIE_STIE = push_bit 5 1"
definition SIE_SSIE :: uint64 where [simp]: "SIE_SSIE = push_bit 1 1"
definition MIE_MTIE :: uint64 where [simp]: "MIE_MTIE = push_bit 7 1"

definition CLINT_MTIMECMP :: "nat \<Rightarrow> uint64" where
  "CLINT_MTIMECMP hartid = 0x2000000 + 0x4000 + 8 * of_nat hartid"

text \<open>The registers that \<open>start()\<close> uses; \<open>timer_scratch\<close> is the hart's row of the array, at \<open>scratch_addr\<close>.\<close>

record mregs =
  mstatus :: uint64
  mepc :: uint64
  msatp :: uint64
  medeleg :: uint64
  mideleg :: uint64
  msie :: uint64
  pmpaddr0 :: uint64
  pmpcfg0 :: uint64
  mscratch :: uint64
  mtvec :: uint64
  mie :: uint64
  tp :: uint64
  mtimecmp :: uint64
  timer_scratch :: "uint64 list"

definition timerinit :: "nat \<Rightarrow> uint64 \<Rightarrow> uint64 \<Rightarrow> uint64 \<Rightarrow> mregs \<Rightarrow> mregs" where
  "timerinit hart mtime scratch_addr timervec m =
     (let m = m\<lparr>mtimecmp := mtime + 1000000\<rparr>;
          m = m\<lparr>timer_scratch := (timer_scratch m)[3 := CLINT_MTIMECMP hart, 4 := 1000000]\<rparr>;
          m = m\<lparr>mscratch := scratch_addr\<rparr>;
          m = m\<lparr>mtvec := timervec\<rparr>;
          m = m\<lparr>mstatus := mstatus m OR MSTATUS_MIE\<rparr>
      in m\<lparr>mie := mie m OR MIE_MTIE\<rparr>)"

definition start :: "nat \<Rightarrow> uint64 \<Rightarrow> uint64 \<Rightarrow> uint64 \<Rightarrow> uint64 \<Rightarrow> mregs \<Rightarrow> mregs" where
  "start hart main_addr mtime scratch_addr timervec m =
     (let x = mstatus m AND NOT MSTATUS_MPP_MASK;
          x = x OR MSTATUS_MPP_S;
          m = m\<lparr>mstatus := x\<rparr>;
          m = m\<lparr>mepc := main_addr\<rparr>;
          m = m\<lparr>msatp := 0\<rparr>;
          m = m\<lparr>medeleg := 0xffff, mideleg := 0xffff\<rparr>;
          m = m\<lparr>msie := msie m OR SIE_SEIE OR SIE_STIE OR SIE_SSIE\<rparr>;
          m = m\<lparr>pmpaddr0 := 0x3fffffffffffff, pmpcfg0 := 0xf\<rparr>;
          m = timerinit hart mtime scratch_addr timervec m
      in m\<lparr>tp := of_nat hart\<rparr>)"

section \<open>Main\<close>

text \<open>\<open>main()\<close> up to its call of \<open>scheduler()\<close>; \<open>rd\<close> are the registers of the disk that its initialisation reads.\<close>

definition main_boot :: "nat \<Rightarrow> (nat \<Rightarrow> uint) \<Rightarrow> 'a tkstate_scheme \<Rightarrow> 'a tkstate_scheme kres" where
  "main_boot c rd s =
     bnd (printf c [CHR 0x0A] [] (printfinit (consoleinit s))) (\<lambda>s.
     bnd (printf c (''xv6 kernel is booting'' @ [CHR 0x0A]) [] s) (\<lambda>s.
     bnd (printf c [CHR 0x0A] [] s) (\<lambda>s.
     bnd (kinit c s) (\<lambda>s.
     bnd (kvminit c s) (\<lambda>s.
     bnd (virtio_disk_init c rd (fileinit (iinit (binit (plicinithart c (plicinit (trapinithart c
            (trapinit (procinit (kvminithart c s)))))))))) (\<lambda>s.
     bnd (userinit c s) (\<lambda>s. Inr (s\<lparr>started := True\<rparr>))))))))"

definition main_hart :: "nat \<Rightarrow> 'a tkstate_scheme \<Rightarrow> 'a tkstate_scheme kres" where
  "main_hart c s =
     (if \<not> started s then Inl (Spin ''main'')
      else bnd (printf c (''hart %d starting'' @ [CHR 0x0A]) [AInt (of_nat c)] s) (\<lambda>s.
        Inr (plicinithart c (trapinithart c (kvminithart c s)))))"

definition main :: "nat \<Rightarrow> (nat \<Rightarrow> uint) \<Rightarrow> 'a tkstate_scheme \<Rightarrow> 'a tkstate_scheme kres" where
  "main c rd s = (if c = 0 then main_boot c rd s else main_hart c s)"

end
