(* ===== verification/Getfilenum.thy ===== *)
theory Getfilenum
  imports Syscall
begin

text \<open>
  The system call of \<open>projects/project_2\<close>: \<open>sys_getfilenum()\<close> counts the open files of the process with
  a given pid.
\<close>

section \<open>The system call\<close>

fun find_pid :: "nat \<Rightarrow> int \<Rightarrow> nat list \<Rightarrow> 'a pkstate_scheme \<Rightarrow> (nat option \<times> 'a pkstate_scheme) kres" where
  "find_pid c target_pid [] s = Inr (None, s)"
| "find_pid c target_pid (i # is) s =
     bnd (kacquire c (ProcLock i) s) (\<lambda>s.
       if p_pid (procs s i) = target_pid then bnd (krelease c (ProcLock i) s) (\<lambda>s. Inr (Some i, s))
       else bnd (krelease c (ProcLock i) s) (find_pid c target_pid is))"

fun count_files :: "(nat \<Rightarrow> nat option) \<Rightarrow> nat list \<Rightarrow> int \<Rightarrow> int" where
  "count_files ofile [] count = count"
| "count_files ofile (fd # fds) count = count_files ofile fds (if ofile fd \<noteq> None then count + 1 else count)"

definition sys_getfilenum :: "nat \<Rightarrow> 'a pkstate_scheme \<Rightarrow> (uint64 \<times> 'a pkstate_scheme) kres" where
  "sys_getfilenum c s =
     bnd (argint c 0 s) (\<lambda>(target_pid, s).
     bnd (find_pid c target_pid [0..<NPROC] s) (\<lambda>(p, s).
       case p of None \<Rightarrow> Inr (0, s)
       | Some p \<Rightarrow> Inr (word_of_int (count_files (p_ofile (procs s p)) [0..<NOFILE] 0), s)))"

section \<open>Correctness\<close>

lemma find_pid_eq:
  assumes "cpu_ok c (mach s)" "\<forall>i\<in>set is. lock_free (ProcLock i) (mach s)"
  shows "find_pid c n is s = Inr (find (\<lambda>i. p_pid (procs s i) = n) is, if is = [] then s else calm c s)"
  using assms
proof (induction "is" arbitrary: s)
  case (Cons i xs)
  have r: "krelease c (ProcLock i) (s\<lparr>mach := taken c (ProcLock i) (mach s)\<rparr>) = Inr (calm c s)"
    using Cons.prems by (simp add: krelease_taken)
  show ?case using Cons.prems r Cons.IH [of "calm c s"] by (auto split: if_splits)
qed simp

lemma count_files_eq: "count_files f fds n = n + int (length (filter (\<lambda>fd. f fd \<noteq> None) fds))"
  by (induction f fds n rule: count_files.induct) auto

lemma find_upt_Some:
  "find P [0..<n] = Some i \<longleftrightarrow> i < n \<and> P i \<and> (\<forall>j<i. \<not> P j)"
  by (auto simp: find_Some_iff)

text \<open>
  C36. \<open>sys_getfilenum()\<close> returns the number of open descriptors of the first slot of the process table whose
  pid is the argument, a number between 0 and 16. When no slot has the pid the result is 0, which a caller cannot
  tell from a process without open files.
\<close>

theorem getfilenum_counts:
  assumes "cpu_ok c (mach s)" and "\<forall>i<NPROC. lock_free (ProcLock i) (mach s)" and "cur c s = Some me"
  defines "n \<equiv> sint (ucast (tf_get me (TF_a 0) s) :: uint)"
  shows "\<exists>s'. sys_getfilenum c s = Inr (case find (\<lambda>i. p_pid (procs s i) = n) [0..<NPROC] of
        None \<Rightarrow> 0
      | Some i \<Rightarrow> of_nat (card {fd. fd < NOFILE \<and> p_ofile (procs s i) fd \<noteq> None}), s')
    \<and> procs s' = procs s \<and> mem s' = mem s"
proof -
  have a: "argint c 0 s = Inr (n, calm c s)"
    using assms(1,3) by (simp add: argint_def argraw_def curproc_eq n_def tf_get_def)
  have f: "find_pid c n [0..<NPROC] (calm c s) = Inr (find (\<lambda>i. p_pid (procs s i) = n) [0..<NPROC], calm c s)"
    using find_pid_eq [of c "calm c s" "[0..<NPROC]" n] assms(1,2) by (simp del: upt_Suc)
  have card: "int (card {fd. fd < NOFILE \<and> g fd \<noteq> None}) = count_files g [0..<NOFILE] 0" for g :: "nat \<Rightarrow> nat option"
  proof -
    let ?l = "filter (\<lambda>fd. g fd \<noteq> None) [0..<NOFILE]"
    have "card (set ?l) = length ?l" by (rule distinct_card) simp
    moreover have "{fd. fd < NOFILE \<and> g fd \<noteq> None} = set ?l" by auto
    ultimately show ?thesis unfolding count_files_eq by (simp only: add_0)
  qed
  have w: "word_of_int (count_files g [0..<NOFILE] 0) = (of_nat (card {fd. fd < NOFILE \<and> g fd \<noteq> None}) :: uint64)"
    for g :: "nat \<Rightarrow> nat option" unfolding card [symmetric] by simp
  show ?thesis using a f unfolding sys_getfilenum_def w by (simp split: option.splits del: upt_Suc)
qed

theorem getfilenum_counts_witness: "\<exists>s'. sys_getfilenum 0 demo_user = Inr (0, s')"
proof -
  have "\<forall>i<NPROC. lock_free (ProcLock i) (mach demo_user)"
    using demo_machine_ok by (simp add: demo_user_def lock_free_def set_cpu_def)
  from getfilenum_counts [OF demo_user_fields(3) this demo_user_fields(2)] show ?thesis
    by (auto simp: demo_user_def demo_proc_def split: option.splits)
qed

end
