(* ===== verification/User_Io.thy ===== *)
theory User_Io
  imports Kernel_Prelude
begin

text \<open>
  What the user programs use of their environment. A C string is the list of its bytes without the terminating NUL. The
  system call \<open>read\<close> is modelled by what the kernel promises: the number \<open>k\<close> stands for the state of the device at the
  call; \<open>read\<close> fails if it is negative, and otherwise delivers the next bytes, at most \<open>n\<close> and at most \<open>k\<close> of them, but at least
  one unless the input is at its end or \<open>n\<close> is 0.
\<close>

abbreviation nl :: uchar where "nl \<equiv> 10"

definition uread :: "int \<Rightarrow> nat \<Rightarrow> uchar list \<Rightarrow> int \<times> uchar list \<times> uchar list" where
  "uread k n inp =
     (if k < 0 then (-1, [], inp)
      else let m = min n (max 1 (nat k)) in (int (length (take m inp)), take m inp, drop m inp))"

lemma uread_cases:
  assumes "uread k n inp = (r, d, inp')"
  obtains "k < 0" "r = -1" "d = []" "inp' = inp"
  | m where "0 \<le> k" "r = int (length d)" "d = take m inp" "inp' = drop m inp" "m \<le> n" "m = 0 \<longrightarrow> n = 0"
proof (cases "k < 0")
  case False
  define m where "m = min n (max 1 (nat k))"
  have "m \<le> n" "m = 0 \<longrightarrow> n = 0" by (auto simp: m_def)
  moreover have "uread k n inp = (int (length (take m inp)), take m inp, drop m inp)" using False by (simp add: uread_def m_def Let_def)
  ultimately show ?thesis using that(2) [of m] assms False by simp
qed (use assms that(1) in \<open>simp add: uread_def\<close>)

lemma uread_shorter: "uread k n inp = (r, d, inp') \<Longrightarrow> r > 0 \<Longrightarrow> length inp' < length inp"
  by (elim uread_cases) auto

lemma uread_split: "uread k n inp = (r, d, inp') \<Longrightarrow> inp = d @ inp' \<and> length d \<le> n \<and> (r > 0 \<longrightarrow> r = int (length d))"
  by (elim uread_cases) auto

lemma uread_ok: "0 \<le> k \<Longrightarrow> uread k n inp = (r, d, inp') \<Longrightarrow> r = int (length d) \<and> (d = [] \<longrightarrow> n = 0 \<or> inp = [])"
  by (elim uread_cases) auto

text \<open>\<open>strchr\<close> of \<open>user/ulib.c\<close>: the position of the first \<open>c\<close> before the end of the string.\<close>

fun strchr :: "uchar list \<Rightarrow> uchar \<Rightarrow> nat option" where
  "strchr [] c = None"
| "strchr (x # s) c = (if x = 0 then None else if x = c then Some 0 else map_option Suc (strchr s c))"

lemma strchr_Some: "strchr s c = Some k \<Longrightarrow> k < length s \<and> s ! k = c \<and> c \<notin> set (take k s)"
  by (induction s c arbitrary: k rule: strchr.induct) (auto split: if_splits)

lemma strchr_None: "c \<notin> set s \<Longrightarrow> strchr s c = None"
  by (induction s c rule: strchr.induct) auto

lemma strchr_first: "c \<notin> set l \<Longrightarrow> 0 \<notin> set l \<Longrightarrow> c \<noteq> 0 \<Longrightarrow> strchr (l @ c # s) c = Some (length l)"
  by (induction l) auto

end
