(* ===== verification/Grep.thy ===== *)
theory Grep
  imports User_Io
begin

text \<open>
  \<open>user/grep.c\<close>. A C string is the list of its bytes without the terminating NUL, so a pointer into a string is the
  rest of the list and \<open>'\0'\<close> at the pointer is the empty list. The plain \<open>char\<close> of this machine is unsigned.
\<close>

section \<open>The matcher\<close>

abbreviation caret :: uchar where "caret \<equiv> 94"
abbreviation star :: uchar where "star \<equiv> 42"
abbreviation dollar :: uchar where "dollar \<equiv> 36"
abbreviation dot :: uchar where "dot \<equiv> 46"

fun matchhere :: "uchar list \<Rightarrow> uchar list \<Rightarrow> bool" and matchstar :: "uchar \<Rightarrow> uchar list \<Rightarrow> uchar list \<Rightarrow> bool" where
  "matchhere [] tx = True"
| "matchhere (c # re) tx =
     (if re \<noteq> [] \<and> hd re = star then matchstar c (tl re) tx
      else if c = dollar \<and> re = [] then tx = []
      else case tx of [] \<Rightarrow> False | t # ts \<Rightarrow> (if c = dot \<or> c = t then matchhere re ts else False))"
| "matchstar c re tx =
     (if matchhere re tx then True
      else case tx of [] \<Rightarrow> False | t # ts \<Rightarrow> (if t = c \<or> c = dot then matchstar c re ts else False))"

fun match_from :: "uchar list \<Rightarrow> uchar list \<Rightarrow> bool" where
  "match_from re tx = (if matchhere re tx then True else case tx of [] \<Rightarrow> False | t # ts \<Rightarrow> match_from re ts)"

definition match :: "uchar list \<Rightarrow> uchar list \<Rightarrow> bool" where
  "match re tx = (case re of [] \<Rightarrow> match_from re tx | c # cs \<Rightarrow> if c = caret then matchhere cs tx else match_from re tx)"

declare matchstar.simps [simp del] match_from.simps [simp del]

section \<open>The language of a pattern\<close>

datatype item = One uchar | Many uchar

text \<open>The items of a pattern and whether it ends with an anchor.\<close>

fun items :: "uchar list \<Rightarrow> item list \<times> bool" where
  "items [] = ([], False)"
| "items [c] = (if c = dollar then ([], True) else ([One c], False))"
| "items (c # d # re) =
     (if d = star then (case items re of (is, e) \<Rightarrow> (Many c # is, e))
      else (case items (d # re) of (is, e) \<Rightarrow> (One c # is, e)))"

definition chars :: "uchar \<Rightarrow> uchar set" where
  "chars c = (if c = dot then UNIV else {c})"

definition conc :: "uchar list set \<Rightarrow> uchar list set \<Rightarrow> uchar list set" where
  "conc A B = {u @ v | u v. u \<in> A \<and> v \<in> B}"

fun item_lang :: "item \<Rightarrow> uchar list set" where
  "item_lang (One c) = {[x] | x. x \<in> chars c}"
| "item_lang (Many c) = lists (chars c)"

definition items_lang :: "item list \<Rightarrow> uchar list set" where
  "items_lang is = foldr (\<lambda>i L. conc (item_lang i) L) is {[]}"

text \<open>The texts that a pattern matches: its items somewhere in the text, at the start or at the end of it if anchored.\<close>

definition pattern_here :: "uchar list \<Rightarrow> uchar list set" where
  "pattern_here re = (case items re of (is, e) \<Rightarrow> conc (items_lang is) (if e then {[]} else UNIV))"

definition pattern_lang :: "uchar list \<Rightarrow> uchar list set" where
  "pattern_lang re =
     (if re \<noteq> [] \<and> hd re = caret then pattern_here (tl re) else conc UNIV (pattern_here re))"

lemma conc_one: "conc {[x] | x. x \<in> A} B = {x # v | x v. x \<in> A \<and> v \<in> B}"
proof -
  have "\<exists>u va. x # v = u @ va \<and> (\<exists>y. u = [y] \<and> y \<in> A) \<and> va \<in> B" if "x \<in> A" "v \<in> B" for x v
    using that by (intro exI [of _ "[x]"] exI [of _ v]) simp
  then show ?thesis by (auto simp: conc_def)
qed

lemma conc_many: "t \<in> conc (lists A) B \<longleftrightarrow> t \<in> B \<or> (\<exists>x v. t = x # v \<and> x \<in> A \<and> v \<in> conc (lists A) B)"
proof
  assume "t \<in> conc (lists A) B"
  then obtain u v where t: "t = u @ v" "u \<in> lists A" "v \<in> B" by (auto simp: conc_def)
  show "t \<in> B \<or> (\<exists>x v. t = x # v \<and> x \<in> A \<and> v \<in> conc (lists A) B)"
  proof (cases u)
    case (Cons x xs)
    then show ?thesis using t by (auto simp: conc_def)
  qed (use t in simp)
next
  assume "t \<in> B \<or> (\<exists>x v. t = x # v \<and> x \<in> A \<and> v \<in> conc (lists A) B)"
  then show "t \<in> conc (lists A) B"
  proof
    assume "\<exists>x v. t = x # v \<and> x \<in> A \<and> v \<in> conc (lists A) B"
    then obtain x u v where "t = x # u @ v" "x \<in> A" "u \<in> lists A" "v \<in> B" by (auto simp: conc_def)
    then have "t = (x # u) @ v" "x # u \<in> lists A" "v \<in> B" by auto
    then show ?thesis unfolding conc_def by blast
  qed (auto simp: conc_def)
qed

lemma conc_assoc: "conc (conc A B) C = conc A (conc B C)"
  unfolding conc_def by (auto, metis append.assoc, metis append.assoc)

lemma pattern_here_simps:
  "pattern_here [] = UNIV"
  "pattern_here [c] = (if c = dollar then {[]} else {x # v | x v. x \<in> chars c})"
  "pattern_here (c # star # re) = conc (lists (chars c)) (pattern_here re)"
  "d \<noteq> star \<Longrightarrow> pattern_here (c # d # re) = {x # v | x v. x \<in> chars c \<and> v \<in> pattern_here (d # re)}"
proof -
  show "pattern_here [] = UNIV" by (auto simp: pattern_here_def items_lang_def conc_def)
  show "pattern_here [c] = (if c = dollar then {[]} else {x # v | x v. x \<in> chars c})"
    by (simp add: pattern_here_def items_lang_def conc_assoc, simp add: conc_one, simp add: conc_def)
  show "pattern_here (c # star # re) = conc (lists (chars c)) (pattern_here re)"
    by (cases "items re") (simp add: pattern_here_def items_lang_def conc_assoc)
  show "d \<noteq> star \<Longrightarrow> pattern_here (c # d # re) = {x # v | x v. x \<in> chars c \<and> v \<in> pattern_here (d # re)}"
    by (cases "items (d # re)") (simp add: pattern_here_def items_lang_def conc_assoc, simp add: conc_one)
qed

lemma matchhere_lang:
  "matchhere re tx \<longleftrightarrow> tx \<in> pattern_here re"
  "matchstar c re tx \<longleftrightarrow> tx \<in> conc (lists (chars c)) (pattern_here re)"
proof (induction re tx and c re tx rule: matchhere_matchstar.induct)
  case (2 c re tx)
  show ?case
  proof (cases re)
    case Nil
    then show ?thesis using 2 by (auto simp: pattern_here_simps chars_def split: list.split)
  next
    case (Cons d ds)
    show ?thesis
    proof (cases "d = star")
      case True
      then show ?thesis using 2(1) Cons by (simp add: pattern_here_simps)
    next
      case False
      then have "matchhere (c # re) tx = (case tx of [] \<Rightarrow> False | t # ts \<Rightarrow> (c = dot \<or> c = t) \<and> ts \<in> pattern_here re)"
        using 2(2) Cons by (auto split: list.split)
      then show ?thesis using False Cons by (auto simp: pattern_here_simps chars_def split: list.splits)
    qed
  qed
next
  case (3 c re tx)
  have "matchstar c re tx \<longleftrightarrow> tx \<in> pattern_here re \<or> (\<exists>x v. tx = x # v \<and> x \<in> chars c \<and> v \<in> conc (lists (chars c)) (pattern_here re))"
    using 3 by (subst matchstar.simps) (auto simp: chars_def split: list.split)
  then show ?case by (subst conc_many)
qed (simp add: pattern_here_simps)

lemma match_from_lang: "match_from re tx \<longleftrightarrow> tx \<in> conc UNIV (pattern_here re)"
proof (induction re tx rule: match_from.induct)
  case (1 re tx)
  have "match_from re tx \<longleftrightarrow> tx \<in> pattern_here re \<or> (\<exists>x v. tx = x # v \<and> v \<in> conc UNIV (pattern_here re))"
    using 1 by (subst match_from.simps) (auto simp: matchhere_lang split: list.split)
  then show ?case using conc_many [of tx UNIV "pattern_here re"] by simp
qed

lemma match_pattern: "match re tx \<longleftrightarrow> tx \<in> pattern_lang re"
  by (cases re) (auto simp: match_def pattern_lang_def match_from_lang matchhere_lang)

text \<open>
  C7. The backtracking matcher decides the language of the pattern: \<open>match(re, text)\<close> is true exactly when the text belongs to the
  regular language that the operators \<open>^\<close>, \<open>.\<close>, \<open>*\<close> and \<open>$\<close> of the pattern describe, whatever the pattern. It always returns.
\<close>

theorem match_language: "match re tx \<longleftrightarrow> tx \<in> pattern_lang re"
  by (rule match_pattern)

section \<open>Searching a file\<close>

text \<open>
  The lines of the buffer, which holds the bytes \<open>p\<close> and a NUL: what is written, line by line, and the bytes that stay.
\<close>

function grep_lines :: "uchar list \<Rightarrow> uchar list \<Rightarrow> uchar list list \<times> uchar list" where
  "grep_lines re p =
     (case strchr p nl of None \<Rightarrow> ([], p)
      | Some k \<Rightarrow> (case grep_lines re (drop (k + 1) p) of (out, r) \<Rightarrow>
          ((if match re (take k p) then take (k + 1) p # out else out), r)))"
  by pat_completeness auto
termination
  by (relation "measure (\<lambda>(re, p). length p)") (auto dest: strchr_Some)

function grep :: "uchar list \<Rightarrow> (nat \<Rightarrow> int) \<Rightarrow> nat \<Rightarrow> uchar list \<Rightarrow> uchar list \<Rightarrow> uchar list list" where
  "grep re ks i buf inp =
     (case uread (ks i) (1024 - length buf - 1) inp of (n, d, inp') \<Rightarrow>
        if n > 0 then (case grep_lines re (buf @ d) of (out, r) \<Rightarrow> out @ grep re ks (i + 1) r inp') else [])"
  by pat_completeness auto
termination
  by (relation "measure (\<lambda>(re, ks, i, buf, inp). length inp)") (auto dest: uread_shorter [OF sym] simp del: grep_lines.simps)

declare grep_lines.simps [simp del] grep.simps [simp del]

text \<open>\<open>main\<close>: the exit status, what is written to standard output by \<open>grep\<close>, and the name that could not be opened.\<close>

fun grep_files :: "uchar list \<Rightarrow> (uchar list \<Rightarrow> ((nat \<Rightarrow> int) \<times> uchar list) option) \<Rightarrow> uchar list list \<Rightarrow>
    int \<times> uchar list list \<times> uchar list option" where
  "grep_files re fs [] = (0, [], None)"
| "grep_files re fs (f # args) =
     (case fs f of None \<Rightarrow> (1, [], Some f)
      | Some (ks, inp) \<Rightarrow> (case grep_files re fs args of (st, out, e) \<Rightarrow> (st, grep re ks 0 [] inp @ out, e)))"

definition grep_main :: "(uchar list \<Rightarrow> ((nat \<Rightarrow> int) \<times> uchar list) option) \<Rightarrow> (nat \<Rightarrow> int) \<times> uchar list \<Rightarrow> uchar list list \<Rightarrow>
    int \<times> uchar list list \<times> uchar list option" where
  "grep_main fs std argv =
     (if length argv \<le> 1 then (1, [], None)
      else if length argv \<le> 2 then (0, grep (argv ! 1) (fst std) 0 [] (snd std), None)
      else grep_files (argv ! 1) fs (drop 2 argv))"

section \<open>The lines that are printed\<close>

text \<open>The lines of a text that end with a newline, without it, and the rest.\<close>

fun lines_of :: "uchar list \<Rightarrow> uchar list list \<times> uchar list" where
  "lines_of [] = ([], [])"
| "lines_of (x # xs) = (case lines_of xs of (ls, r) \<Rightarrow>
     if x = nl then ([] # ls, r) else case ls of [] \<Rightarrow> ([], x # r) | l # ls \<Rightarrow> ((x # l) # ls, r))"

lemma lines_of_line: "nl \<notin> set l \<Longrightarrow> lines_of (l @ nl # xs) = (l # fst (lines_of xs), snd (lines_of xs))"
  by (induction l) (auto split: prod.split)

lemma lines_of_none: "nl \<notin> set l \<Longrightarrow> lines_of l = ([], l)"
  by (induction l) auto

lemma lines_of_append:
  "lines_of (xs @ ys) = (fst (lines_of xs) @ fst (lines_of (snd (lines_of xs) @ ys)), snd (lines_of (snd (lines_of xs) @ ys)))"
proof (induction "length xs" arbitrary: xs rule: less_induct)
  case less
  show ?case
  proof (cases "nl \<in> set xs")
    case True
    then obtain l zs where xs: "xs = l @ nl # zs" "nl \<notin> set l" by (meson split_list_first)
    have "lines_of (zs @ ys) = (fst (lines_of zs) @ fst (lines_of (snd (lines_of zs) @ ys)), snd (lines_of (snd (lines_of zs) @ ys)))"
      using less xs(1) by simp
    then show ?thesis using xs lines_of_line [OF xs(2)] by simp
  qed (simp add: lines_of_none)
qed

lemma lines_of_rest: "nl \<notin> set (snd (lines_of xs))" "set (snd (lines_of xs)) \<subseteq> set xs"
  by (induction xs) (auto split: prod.split list.split)

lemma grep_lines_eq: "0 \<notin> set p \<Longrightarrow> grep_lines re p =
    (map (\<lambda>l. l @ [nl]) (filter (match re) (fst (lines_of p))), snd (lines_of p))"
proof (induction re p rule: grep_lines.induct)
  case (1 re p)
  show ?case
  proof (cases "nl \<in> set p")
    case False
    then show ?thesis using 1(2) by (simp add: grep_lines.simps [of re p] strchr_None lines_of_none)
  next
    case True
    then obtain l zs where p: "p = l @ nl # zs" "nl \<notin> set l" by (meson split_list_first)
    have k: "strchr p nl = Some (length l)" using p 1(2) by (simp add: strchr_first)
    have "grep_lines re zs = (map (\<lambda>l. l @ [nl]) (filter (match re) (fst (lines_of zs))), snd (lines_of zs))"
      using 1(1) [OF k] p(1) 1(2) by simp
    then show ?thesis using k lines_of_line [OF p(2), of zs] unfolding p(1) by (subst grep_lines.simps) simp
  qed
qed

lemma grep_eq:
  "\<forall>i. 0 \<le> ks i \<Longrightarrow> 0 \<notin> set buf \<Longrightarrow> 0 \<notin> set inp \<Longrightarrow> nl \<notin> set buf \<Longrightarrow>
    \<forall>l\<in>set (fst (lines_of (buf @ inp))). length l < 1023 \<Longrightarrow> length (snd (lines_of (buf @ inp))) < 1023 \<Longrightarrow>
    grep re ks i buf inp = map (\<lambda>l. l @ [nl]) (filter (match re) (fst (lines_of (buf @ inp))))"
proof (induction re ks i buf inp rule: grep.induct)
  case (1 re ks i buf inp)
  have bl: "length buf < 1023"
  proof (cases "nl \<in> set inp")
    case True
    then obtain l zs where z: "inp = l @ nl # zs" "nl \<notin> set l" by (meson split_list_first)
    then have "lines_of (buf @ inp) = ((buf @ l) # fst (lines_of zs), snd (lines_of zs))"
      using lines_of_line [of "buf @ l" zs] 1(5) by simp
    then show ?thesis using 1(6) by simp
  next
    case False
    then show ?thesis using lines_of_none [of "buf @ inp"] 1(5,7) by simp
  qed
  obtain n d inp' where u: "uread (ks i) (1024 - length buf - 1) inp = (n, d, inp')" by (metis prod_cases3)
  have sp: "inp = d @ inp'" "n = int (length d)" "d = [] \<longrightarrow> inp = []"
    using uread_split [OF u] uread_ok [OF _ u] 1(2) bl by auto
  show ?case
  proof (cases "d = []")
    case True
    then show ?thesis using u sp lines_of_none [OF 1(5)] by (subst grep.simps) simp
  next
    case False
    let ?r = "snd (lines_of (buf @ d))"
    have z: "0 \<notin> set (buf @ d)" "0 \<notin> set inp'" using 1(3,4) sp(1) by auto
    have g: "grep_lines re (buf @ d) = (map (\<lambda>l. l @ [nl]) (filter (match re) (fst (lines_of (buf @ d)))), ?r)"
      by (rule grep_lines_eq [OF z(1)])
    have ap: "lines_of (buf @ inp) = (fst (lines_of (buf @ d)) @ fst (lines_of (?r @ inp')), snd (lines_of (?r @ inp')))"
      using lines_of_append [of "buf @ d" inp'] sp(1) by simp
    have n: "n > 0" using sp(2) False by simp
    have "0 \<notin> set ?r" using lines_of_rest(2) [of "buf @ d"] z(1) by auto
    then have "grep re ks (i + 1) ?r inp' = map (\<lambda>l. l @ [nl]) (filter (match re) (fst (lines_of (?r @ inp'))))"
      using 1(1) [OF u [symmetric] refl n g [symmetric]] 1(2,6,7) z(2) lines_of_rest(1) ap by auto
    then show ?thesis using u n g ap by (subst grep.simps) simp
  qed
qed

text \<open>
  C28. \<open>grep\<close> prints exactly the matching lines, in order, however the kernel splits the input over the calls of \<open>read\<close>: for an input without
  NUL bytes whose lines fit the buffer, and without read errors, it writes every line that ends with a newline and
  belongs to the language of the pattern, and nothing of a last line without newline.
\<close>

theorem grep_prints_matches:
  assumes "\<forall>i. 0 \<le> ks i" and "0 \<notin> set inp" and "\<forall>l\<in>set (fst (lines_of inp)). length l < 1023" and "length (snd (lines_of inp)) < 1023"
  shows "grep re ks 0 [] inp = map (\<lambda>l. l @ [nl]) (filter (\<lambda>l. l \<in> pattern_lang re) (fst (lines_of inp)))"
proof -
  have "match re = (\<lambda>l. l \<in> pattern_lang re)" by (rule ext) (rule match_pattern)
  then show ?thesis using grep_eq [of ks "[]" inp re 0] assms by simp
qed

theorem grep_prints_matches_witness:
  "grep [97, 42, 98, 36] (\<lambda>_. 2) 0 [] [97, 97, 98, 10, 98, 99, 10, 97, 98] = [[97, 97, 98, 10]]"
proof -
  have e: "fst (lines_of [97, 97, 98, 10, 98, 99, 10, 97, 98]) = [[97, 97, 98], [98, 99]]"
    "snd (lines_of [97, 97, 98, 10, 98, 99, 10, 97, 98]) = [97, 98]" by simp_all
  have "[97, 97, 98] \<in> pattern_lang [97, 42, 98, 36]" "[98, 99] \<notin> pattern_lang [97, 42, 98, 36]"
    unfolding match_pattern [symmetric] by (simp_all add: match_def match_from.simps matchstar.simps)
  then show ?thesis using grep_prints_matches [of "\<lambda>_. 2" "[97, 97, 98, 10, 98, 99, 10, 97, 98]" "[97, 42, 98, 36]"]
    by (simp only: e) simp
qed

end
