(* ===== verification/Bio_Cache.thy ===== *)
theory Bio_Cache
  imports Bio
begin

text \<open>
  The invariant of the buffer cache and what its operations do to the blocks that the file system sees.
\<close>

section \<open>The list of buffers\<close>

fun links :: "(nat \<Rightarrow> nat) \<Rightarrow> (nat \<Rightarrow> nat) \<Rightarrow> nat list \<Rightarrow> bool" where
  "links nx pv (x # y # zs) \<longleftrightarrow> nx x = y \<and> pv y = x \<and> links nx pv (y # zs)"
| "links nx pv _ \<longleftrightarrow> True"

lemma links_append: "links nx pv (xs @ y # ys) \<longleftrightarrow> links nx pv (xs @ [y]) \<and> links nx pv (y # ys)"
  by (induction nx pv xs rule: links.induct) auto

lemma links_cong:
  "(\<And>x. x \<in> set (butlast xs) \<Longrightarrow> nx' x = nx x) \<Longrightarrow> (\<And>x. x \<in> set (tl xs) \<Longrightarrow> pv' x = pv x) \<Longrightarrow>
    links nx' pv' xs = links nx pv xs"
  by (induction nx pv xs rule: links.induct) (auto split: if_splits)

lemma links_two: "links nx pv (us @ x # y # vs) \<longleftrightarrow> links nx pv (us @ [x]) \<and> nx x = y \<and> pv y = x \<and> links nx pv (y # vs)"
  by (subst links_append) simp

text \<open>The buffers \<open>L\<close>, most recently used first, are linked in a circle through the head \<open>h\<close>.\<close>

definition ring_list :: "nat \<Rightarrow> (nat \<Rightarrow> nat) \<Rightarrow> (nat \<Rightarrow> nat) \<Rightarrow> nat list \<Rightarrow> bool" where
  "ring_list h nx pv L \<longleftrightarrow> links nx pv (h # L @ [h]) \<and> distinct (h # L)"

lemma ring_list_unlink:
  assumes "ring_list h nx pv (ys @ b # zs)"
  shows "ring_list h (nx(pv b := nx b)) (pv(nx b := pv b)) (ys @ zs)"
proof -
  obtain us x where u: "h # ys = us @ [x]" by (metis list.distinct(1) rev_exhaust)
  obtain y vs where v: "zs @ [h] = y # vs" by (metis append_is_Nil_conv list.exhaust list.distinct(1))
  have eq: "h # (ys @ b # zs) @ [h] = us @ x # b # y # vs" using u v by (metis append.assoc append_Cons append_Nil)
  have d: "distinct (h # ys @ b # zs)" using assms by (simp add: ring_list_def)
  have l: "links nx pv (us @ x # b # y # vs)" using assms eq by (simp add: ring_list_def)
  then have parts: "links nx pv (us @ [x])" "nx x = b" "pv b = x" "nx b = y" "pv y = b" "links nx pv (y # vs)"
    by (auto simp: links_two)
  have "h # ys @ b # zs = (us @ [x]) @ b # zs" using u by (metis append_Cons)
  then have "distinct ((us @ [x]) @ b # zs)" using d by metis
  then have "x \<notin> set us" "x \<notin> set zs" by auto
  moreover have "set (tl (us @ [x])) = set ys" "h \<notin> set ys" "h \<notin> set zs" "distinct zs"
    "set ys \<inter> set zs = {}"
    using d u by (auto simp del: append_Cons dest: arg_cong [of _ _ tl])
  ultimately have du: "x \<notin> set us" "x \<notin> set zs" "set (tl (us @ [x])) = set ys" "h \<notin> set ys" "h \<notin> set zs"
    "distinct zs" "set ys \<inter> set zs = {}" by blast+
  have yv: "y \<notin> set vs" "y \<notin> set ys" "set (butlast (y # vs)) = set zs"
  proof -
    show "set (butlast (y # vs)) = set zs" unfolding v [symmetric] by simp
    show "y \<notin> set vs" using v du by (cases zs) auto
    show "y \<notin> set ys" using v du by (cases zs) auto
  qed
  let ?nx = "nx(x := y)" and ?pv = "pv(y := x)"
  have "links ?nx ?pv (us @ [x]) = links nx pv (us @ [x])" using du yv by (intro links_cong) auto
  moreover have "links ?nx ?pv (y # vs) = links nx pv (y # vs)" using du yv by (intro links_cong) auto
  ultimately have "links ?nx ?pv (us @ x # y # vs)" using parts by (simp add: links_two)
  moreover have "h # (ys @ zs) @ [h] = us @ x # y # vs" using u v by (metis append.assoc append_Cons append_Nil)
  ultimately show ?thesis using d parts by (simp add: ring_list_def)
qed

lemma ring_list_front:
  assumes "ring_list h nx pv L" "b \<notin> set L" "b \<noteq> h"
  shows "ring_list h (nx(b := nx h, h := b)) (pv(b := h, nx h := b)) (b # L)"
proof -
  obtain f M where f: "L @ [h] = f # M" by (metis append_is_Nil_conv list.exhaust list.distinct(1))
  have l: "links nx pv (h # f # M)" "distinct (h # L)" using assms(1) f by (simp_all add: ring_list_def)
  then have nf: "nx h = f" "links nx pv (f # M)" by auto
  have "set (butlast (f # M)) = set L" unfolding f [symmetric] by simp
  moreover have "f \<notin> set M" using l(2) f by (cases L) auto
  moreover have bM: "b \<notin> set M" "f \<noteq> b" using f assms(2,3) by (cases L; auto)+
  ultimately have s: "set (butlast (f # M)) = set L" "f \<notin> set M" by simp_all
  let ?nx = "nx(b := f, h := b)" and ?pv = "pv(b := h, f := b)"
  have "links ?nx ?pv (f # M) = links nx pv (f # M)" using s bM l(2) assms(2) by (intro links_cong) auto
  then have "links ?nx ?pv (h # b # f # M)" using nf assms(3) bM by simp
  then show ?thesis using f assms l(2) nf by (simp add: ring_list_def)
qed

lemma links_step: "links nx pv (x # L @ [h]) \<Longrightarrow> links nx pv (L @ [h]) \<and> nx x = hd (L @ [h])"
  by (cases L) auto

lemma bget_find_eq:
  "links (\<lambda>i. b_next (bs i)) pv (L @ [head]) \<Longrightarrow> head \<notin> set L \<Longrightarrow>
    bget_find (Suc (length L)) bs dv bno (hd (L @ [head])) = Inr (find (\<lambda>i. b_dev (bs i) = dv \<and> b_blockno (bs i) = bno) L)"
proof (induction L)
  case (Cons x L)
  have l: "links (\<lambda>i. b_next (bs i)) pv (L @ [head])" "b_next (bs x) = hd (L @ [head])"
    using links_step Cons.prems(1) by (fastforce simp del: NBUF_def)+
  have "x \<noteq> head" "head \<notin> set L" using Cons.prems(2) by auto
  then have "bget_find (Suc (Suc (length L))) bs dv bno x = (if b_dev (bs x) = dv \<and> b_blockno (bs x) = bno then Inr (Some x)
      else Inr (find (\<lambda>i. b_dev (bs i) = dv \<and> b_blockno (bs i) = bno) L))"
    unfolding bget_find.simps(2) [of "Suc (length L)"] l(2) Cons.IH [OF l(1) \<open>head \<notin> set L\<close>] by (simp only: if_False)
  then show ?case by (simp del: bget_find.simps NBUF_def)
qed simp

lemma links_rev: "links nx pv xs = links pv nx (rev xs)"
proof (induction nx pv xs rule: links.induct)
  case (1 nx pv x y zs)
  have "links pv nx (rev zs @ y # [x]) \<longleftrightarrow> links pv nx (rev zs @ [y]) \<and> pv y = x \<and> nx x = y"
    by (subst links_append) auto
  then show ?case using 1 by auto
qed simp_all

lemma bget_lru_eq:
  "links (\<lambda>i. b_prev (bs i)) nx (L @ [head]) \<Longrightarrow> head \<notin> set L \<Longrightarrow>
    bget_lru (Suc (length L)) bs (hd (L @ [head])) = Inr (find (\<lambda>i. b_refcnt (bs i) = 0) L)"
proof (induction L)
  case (Cons x L)
  have l: "links (\<lambda>i. b_prev (bs i)) nx (L @ [head])" "b_prev (bs x) = hd (L @ [head])"
    using links_step Cons.prems(1) by (fastforce simp del: NBUF_def)+
  have "x \<noteq> head" "head \<notin> set L" using Cons.prems(2) by auto
  then have "bget_lru (Suc (Suc (length L))) bs x = (if b_refcnt (bs x) = 0 then Inr (Some x)
      else Inr (find (\<lambda>i. b_refcnt (bs i) = 0) L))"
    unfolding bget_lru.simps(2) [of "Suc (length L)"] l(2) Cons.IH [OF l(1) \<open>head \<notin> set L\<close>] by (simp only: if_False)
  then show ?case by (simp del: bget_lru.simps NBUF_def)
qed simp

text \<open>The buffers from the most to the least recently used.\<close>

definition lru_list :: "(nat \<Rightarrow> buf) \<Rightarrow> nat list \<Rightarrow> bool" where
  "lru_list bs L \<longleftrightarrow> ring_list head (\<lambda>i. b_next (bs i)) (\<lambda>i. b_prev (bs i)) L \<and> set L = {..<NBUF}"

lemma lru_list_length: "lru_list bs L \<Longrightarrow> length L = NBUF"
proof -
  assume "lru_list bs L"
  then have "distinct L" "set L = {..<NBUF}" by (simp_all add: lru_list_def ring_list_def)
  then show ?thesis by (metis card_lessThan distinct_card)
qed

lemma lru_list_scans:
  assumes "lru_list bs L"
  shows "bget_find (Suc NBUF) bs dv bno (b_next (bs head)) = Inr (find (\<lambda>i. b_dev (bs i) = dv \<and> b_blockno (bs i) = bno) L)"
    and "bget_lru (Suc NBUF) bs (b_prev (bs head)) = Inr (find (\<lambda>i. b_refcnt (bs i) = 0) (rev L))"
proof -
  have r: "links (\<lambda>i. b_next (bs i)) (\<lambda>i. b_prev (bs i)) (head # L @ [head])" "head \<notin> set L"
    using assms by (simp_all add: lru_list_def ring_list_def)
  have "links (\<lambda>i. b_prev (bs i)) (\<lambda>i. b_next (bs i)) (rev (head # L @ [head]))" using r(1) links_rev by blast
  then have b: "links (\<lambda>i. b_prev (bs i)) (\<lambda>i. b_next (bs i)) (head # rev L @ [head])" by simp
  have f: "links (\<lambda>i. b_next (bs i)) (\<lambda>i. b_prev (bs i)) (L @ [head])" "b_next (bs head) = hd (L @ [head])"
    using links_step [OF r(1)] by simp_all
  have g: "links (\<lambda>i. b_prev (bs i)) (\<lambda>i. b_next (bs i)) (rev L @ [head])" "b_prev (bs head) = hd (rev L @ [head])"
    using links_step [OF b] by simp_all
  show "bget_find (Suc NBUF) bs dv bno (b_next (bs head)) = Inr (find (\<lambda>i. b_dev (bs i) = dv \<and> b_blockno (bs i) = bno) L)"
    using bget_find_eq [OF f(1) r(2), of dv bno] lru_list_length [OF assms] f(2) by simp
  have "head \<notin> set (rev L)" using r(2) by simp
  from bget_lru_eq [OF g(1) this]
  show "bget_lru (Suc NBUF) bs (b_prev (bs head)) = Inr (find (\<lambda>i. b_refcnt (bs i) = 0) (rev L))"
    using lru_list_length [OF assms] g(2) by simp
qed

section \<open>Sleep locks held by one process\<close>

lemma acquiresleep_ok:
  assumes "quiet c {l} s" "cur c s = Some p" "sl_locked (sleeplocks s l) = 0"
  shows "acquiresleep c l s = Inr (s\<lparr>mach := crit c (mach s),
    sleeplocks := (sleeplocks s)(l := (sleeplocks s l)\<lparr>sl_locked := 1, sl_pid := p_pid (procs s p)\<rparr>)\<rparr>)"
proof -
  have q: "cpu_ok c (mach s)" "lock_free l (mach s)" using assms(1) by (simp_all add: quiet_def)
  let ?k = "(sleeplocks s)(l := (sleeplocks s l)\<lparr>sl_locked := 1, sl_pid := p_pid (procs s p)\<rparr>)"
  let ?t = "s\<lparr>mach := taken c l (mach s), sleeplocks := ?k\<rparr>"
  have "krelease c l ?t = Inr (?t\<lparr>mach := crit c (mach s)\<rparr>)" using q by (intro krelease_taken) simp_all
  then show ?thesis using q assms(2,3) by (simp add: acquiresleep_def curproc_eq)
qed

lemma holdingsleep_ok:
  assumes "quiet c {l} s" "cur c s = Some p" "sl_locked (sleeplocks s l) \<noteq> 0" "sl_pid (sleeplocks s l) = p_pid (procs s p)"
  shows "holdingsleep c l s = Inr (True, calm c s)"
proof -
  have q: "cpu_ok c (mach s)" "lock_free l (mach s)" using assms(1) by (simp_all add: quiet_def)
  let ?t = "s\<lparr>mach := taken c l (mach s)\<rparr>"
  have "krelease c l ?t = Inr (?t\<lparr>mach := crit c (mach s)\<rparr>)" using q by (intro krelease_taken) simp_all
  then show ?thesis using q assms(2-4) by (simp add: holdingsleep_def curproc_eq)
qed

lemma releasesleep_ok:
  assumes "quiet c (insert l proc_locks) s" "l \<notin> proc_locks"
  shows "\<exists>ps. releasesleep c l s = Inr (s\<lparr>mach := crit c (mach s), procs := ps,
    sleeplocks := (sleeplocks s)(l := (sleeplocks s l)\<lparr>sl_locked := 0, sl_pid := 0\<rparr>)\<rparr>) \<and> woken (cur c s) (procs s) ps"
proof -
  have q: "cpu_ok c (mach s)" "lock_free l (mach s)" using assms(1) by (simp_all add: quiet_def)
  let ?k = "(sleeplocks s)(l := (sleeplocks s l)\<lparr>sl_locked := 0, sl_pid := 0\<rparr>)"
  let ?t = "s\<lparr>mach := taken c l (mach s), sleeplocks := ?k\<rparr>"
  have "held c ?t" using assms by (auto simp: held_def quiet_def)
  from wakeup_held [OF this, of "Some (SleepChan l)"] obtain ps where
    ps: "wakeup c (Some (SleepChan l)) ?t = Inr (?t\<lparr>procs := ps\<rparr>)" "woken (cur c s) (procs s) ps" by auto
  have "krelease c l (?t\<lparr>procs := ps\<rparr>) = Inr (?t\<lparr>procs := ps, mach := crit c (mach s)\<rparr>)"
    using q by (intro krelease_taken) simp_all
  then have "releasesleep c l s = Inr (?t\<lparr>procs := ps, mach := crit c (mach s)\<rparr>)"
    using q ps(1) by (simp add: releasesleep_def)
  also have "?t\<lparr>procs := ps, mach := crit c (mach s)\<rparr> = s\<lparr>mach := crit c (mach s), procs := ps, sleeplocks := ?k\<rparr>" by simp
  finally show ?thesis using ps(2) by blast
qed

section \<open>What the operations may change\<close>

text \<open>\<open>bio_undo t s\<close> is \<open>t\<close> with the fields that the buffer cache may change taken from \<open>s\<close>.\<close>

definition bio_undo :: "'a fkstate_scheme \<Rightarrow> 'a fkstate_scheme \<Rightarrow> 'a fkstate_scheme" where
  "bio_undo t s = t\<lparr>mach := mach s, procs := procs s, sleeplocks := sleeplocks s, vdisk := vdisk s, media := media s,
     media_log := media_log s, bufs := bufs s\<rparr>"

definition bio_frame :: "nat \<Rightarrow> 'a fkstate_scheme \<Rightarrow> 'a fkstate_scheme \<Rightarrow> bool" where
  "bio_frame c s t \<longleftrightarrow> bio_undo t s = s \<and> (mach t = mach s \<or> mach t = crit c (mach s)) \<and> woken (cur c s) (procs s) (procs t)"

lemma bio_undo_upd [simp]:
  "bio_undo (t\<lparr>mach := m\<rparr>) s = bio_undo t s" "bio_undo (t\<lparr>procs := ps\<rparr>) s = bio_undo t s"
  "bio_undo (t\<lparr>sleeplocks := k\<rparr>) s = bio_undo t s" "bio_undo (t\<lparr>vdisk := d\<rparr>) s = bio_undo t s"
  "bio_undo (t\<lparr>media := me\<rparr>) s = bio_undo t s" "bio_undo (t\<lparr>media_log := ml\<rparr>) s = bio_undo t s"
  "bio_undo (t\<lparr>bufs := bs\<rparr>) s = bio_undo t s" "bio_undo s s = s" "bio_undo (bio_undo u t) s = bio_undo u s"
  by (simp_all add: bio_undo_def)

lemma bio_frame_refl [simp]: "bio_frame c s s"
  by (simp add: bio_frame_def)

lemma bio_frame_trans:
  assumes "bio_frame c s t" "bio_frame c t u"
  shows "bio_frame c s u"
proof -
  have t: "bio_undo t s = s" and u: "bio_undo u t = t" using assms by (simp_all add: bio_frame_def)
  have "bio_undo u s = bio_undo (bio_undo u t) s" by (simp only: bio_undo_upd)
  then have undo: "bio_undo u s = s" by (simp only: t u)
  have m: "mach t = mach s \<or> mach t = crit c (mach s)" "mach u = mach t \<or> mach u = crit c (mach t)"
    using assms by (simp_all add: bio_frame_def)
  then have "cur c t = cur c s" by auto
  moreover have "woken (cur c s) (procs s) (procs t)" "woken (cur c t) (procs t) (procs u)"
    using assms by (simp_all add: bio_frame_def)
  ultimately have "woken (cur c s) (procs s) (procs u)" using woken_trans by metis
  moreover have "mach u = mach s \<or> mach u = crit c (mach s)" using m by (elim disjE) simp_all
  ultimately show ?thesis using undo by (simp only: bio_frame_def simp_thms)
qed

lemma bio_frame_upd [simp]:
  "bio_frame c s (t\<lparr>sleeplocks := k\<rparr>) = bio_frame c s t"
  "bio_frame c s (t\<lparr>vdisk := d\<rparr>) = bio_frame c s t"
  "bio_frame c s (t\<lparr>media := me\<rparr>) = bio_frame c s t"
  "bio_frame c s (t\<lparr>media_log := ml\<rparr>) = bio_frame c s t"
  "bio_frame c s (t\<lparr>bufs := bs\<rparr>) = bio_frame c s t"
  by (simp_all add: bio_frame_def)

lemma bio_frame_calm [simp]: "bio_frame c s (s\<lparr>mach := crit c (mach s)\<rparr>)"
  by (simp add: bio_frame_def)

lemma bio_frame_procs: "woken (cur c s) (procs s) ps \<Longrightarrow> bio_frame c s (s\<lparr>mach := crit c (mach s), procs := ps\<rparr>)"
  by (simp add: bio_frame_def)

lemma bio_frame_keeps:
  assumes "bio_frame c s t"
  shows "quiet c L t = quiet c L s" "cur c t = cur c s" "p_pid (procs t i) = p_pid (procs s i)"
    "log t = log s" "sb t = sb s" "mem t = mem s" "itable t = itable s"
proof -
  have t: "bio_undo t s = s" and m: "mach t = mach s \<or> mach t = crit c (mach s)" and w: "woken (cur c s) (procs s) (procs t)"
    using assms by (simp_all add: bio_frame_def)
  show "quiet c L t = quiet c L s" "cur c t = cur c s" using m by (auto simp: quiet_def)
  show "p_pid (procs t i) = p_pid (procs s i)" using woken_fields(1) [OF w] .
  have "log (bio_undo t s) = log t" "sb (bio_undo t s) = sb t" "mem (bio_undo t s) = mem t" "itable (bio_undo t s) = itable t"
    by (simp_all add: bio_undo_def)
  then show "log t = log s" "sb t = sb s" "mem t = mem s" "itable t = itable s" unfolding t by simp_all
qed

section \<open>The blocks of a device\<close>

text \<open>The buffer of block \<open>bno\<close> of device \<open>dv\<close>, if it is in the cache; its content as the file system sees it, the
  number of its users, and whether it is locked.\<close>

definition hit :: "uint \<Rightarrow> (nat \<Rightarrow> buf) \<Rightarrow> uint \<Rightarrow> nat option" where
  "hit dv bs bno = find (\<lambda>i. b_dev (bs i) = dv \<and> b_blockno (bs i) = bno) [0..<NBUF]"

definition blk :: "uint \<Rightarrow> 'a fkstate_scheme \<Rightarrow> uint \<Rightarrow> bytes" where
  "blk dv s bno = (case hit dv (bufs s) bno of None \<Rightarrow> media s bno
     | Some i \<Rightarrow> if b_valid (bufs s i) then b_data (bufs s i) else media s bno)"

definition refs :: "uint \<Rightarrow> 'a fkstate_scheme \<Rightarrow> uint \<Rightarrow> uint" where
  "refs dv s bno = (case hit dv (bufs s) bno of None \<Rightarrow> 0 | Some i \<Rightarrow> b_refcnt (bufs s i))"

definition busy :: "uint \<Rightarrow> 'a fkstate_scheme \<Rightarrow> uint set" where
  "busy dv s = {bno. \<exists>i. hit dv (bufs s) bno = Some i \<and> sl_locked (sleeplocks s (BufLock i)) \<noteq> 0}"

definition uniq :: "uint \<Rightarrow> (nat \<Rightarrow> buf) \<Rightarrow> bool" where
  "uniq dv bs \<longleftrightarrow> (\<forall>i<NBUF. b_dev (bs i) = dv \<longrightarrow> hit dv bs (b_blockno (bs i)) = Some i)"

lemma hit_Some: "hit dv bs bno = Some i \<Longrightarrow> i < NBUF \<and> b_dev (bs i) = dv \<and> b_blockno (bs i) = bno"
  by (auto simp: hit_def find_Some_iff simp del: NBUF_def)

lemma hit_None: "hit dv bs bno = None \<longleftrightarrow> (\<forall>i<NBUF. \<not> (b_dev (bs i) = dv \<and> b_blockno (bs i) = bno))"
  by (auto simp: hit_def find_None_iff simp del: NBUF_def)

lemma find_uniq:
  assumes "P i" "i \<in> set xs" "\<And>j. j \<in> set xs \<Longrightarrow> P j \<Longrightarrow> j = i"
  shows "find P xs = Some i"
proof -
  have "find P xs \<noteq> None" using assms(1,2) by (auto simp: find_None_iff)
  then obtain k where k: "find P xs = Some k" by blast
  then have "P k" "k \<in> set xs" by (auto simp: find_Some_iff)
  then show ?thesis using k assms(3) by blast
qed

lemma uniq_eq: "uniq dv bs \<Longrightarrow> i < NBUF \<Longrightarrow> j < NBUF \<Longrightarrow> b_dev (bs i) = dv \<Longrightarrow> b_dev (bs j) = dv \<Longrightarrow>
    b_blockno (bs i) = b_blockno (bs j) \<Longrightarrow> i = j"
  unfolding uniq_def by (metis option.inject)

lemma uniqI:
  assumes "\<And>i j. i < NBUF \<Longrightarrow> j < NBUF \<Longrightarrow> b_dev (bs i) = dv \<Longrightarrow> b_dev (bs j) = dv \<Longrightarrow> b_blockno (bs i) = b_blockno (bs j) \<Longrightarrow> i = j"
  shows "uniq dv bs"
  unfolding uniq_def hit_def
proof (intro allI impI)
  fix i assume i: "i < NBUF" "b_dev (bs i) = dv"
  show "find (\<lambda>k. b_dev (bs k) = dv \<and> b_blockno (bs k) = b_blockno (bs i)) [0..<NBUF] = Some i"
    by (rule find_uniq) (use i assms in \<open>auto simp del: NBUF_def\<close>)
qed

lemma find_hit:
  assumes "uniq dv bs" "set L = {..<NBUF}"
  shows "find (\<lambda>i. b_dev (bs i) = dv \<and> b_blockno (bs i) = bno) L = hit dv bs bno"
proof (cases "hit dv bs bno")
  case None
  then have "find (\<lambda>i. b_dev (bs i) = dv \<and> b_blockno (bs i) = bno) L = None"
    using assms(2) by (auto simp: hit_None find_None_iff simp del: NBUF_def)
  then show ?thesis using None by simp
next
  case (Some i)
  then have "find (\<lambda>i. b_dev (bs i) = dv \<and> b_blockno (bs i) = bno) L = Some i"
    using hit_Some [OF Some] assms uniq_eq [OF assms(1)] by (intro find_uniq) auto
  then show ?thesis using Some by simp
qed

text \<open>Changing a buffer but not its block, and giving an unused buffer to a block.\<close>

lemma hit_cong: "(\<And>i. i < NBUF \<Longrightarrow> b_dev (bs' i) = b_dev (bs i) \<and> b_blockno (bs' i) = b_blockno (bs i)) \<Longrightarrow> hit dv bs' = hit dv bs"
  unfolding hit_def by (intro ext find_cong) auto

lemma uniq_cong:
  assumes "\<And>i. i < NBUF \<Longrightarrow> b_dev (bs' i) = b_dev (bs i) \<and> b_blockno (bs' i) = b_blockno (bs i)"
  shows "uniq dv bs' = uniq dv bs"
proof -
  have "hit dv bs' = hit dv bs" by (rule hit_cong) (fact assms)
  then show ?thesis using assms by (simp add: uniq_def)
qed

lemma evict:
  assumes u: "uniq dv bs" and n: "hit dv bs bno = None" and i: "i < NBUF" and B: "b_dev B = dv" "b_blockno B = bno"
  shows "uniq dv (bs(i := B))"
    and "hit dv (bs(i := B)) b = (if b = bno then Some i else if hit dv bs b = Some i then None else hit dv bs b)"
proof -
  note eq = uniq_eq [OF u] and no = n [unfolded hit_None, rule_format]
  show un: "uniq dv (bs(i := B))"
  proof (rule uniqI)
    fix j k assume h: "j < NBUF" "k < NBUF" "b_dev ((bs(i := B)) j) = dv" "b_dev ((bs(i := B)) k) = dv"
      "b_blockno ((bs(i := B)) j) = b_blockno ((bs(i := B)) k)"
    then show "j = k" using eq [of j k] no [of j] no [of k] B by (cases "j = i"; cases "k = i") (auto simp del: NBUF_def)
  qed
  let ?b = "bs(i := B)"
  consider "b = bno" | "b \<noteq> bno" "hit dv bs b = Some i" | k where "b \<noteq> bno" "hit dv bs b = Some k" "k \<noteq> i"
    | "b \<noteq> bno" "hit dv bs b = None" by (cases "hit dv bs b") auto
  then show "hit dv ?b b = (if b = bno then Some i else if hit dv bs b = Some i then None else hit dv bs b)"
  proof cases
    case 1
    then show ?thesis using un i B unfolding uniq_def by (metis fun_upd_same)
  next
    case 2
    have "hit dv ?b b = None" unfolding hit_None
      using 2 hit_Some [OF 2(2)] eq B by (metis fun_upd_apply)
    then show ?thesis using 2 by simp
  next
    case 3
    have k: "k < NBUF" "b_dev (?b k) = dv" "b_blockno (?b k) = b" using hit_Some [OF 3(2)] 3(3) by simp_all
    then have "hit dv ?b b = Some k" using un unfolding uniq_def by blast
    then show ?thesis using 3 by simp
  next
    case 4
    have "hit dv ?b b = None" using 4 B unfolding hit_None by auto
    then show ?thesis using 4 by simp
  qed
qed

section \<open>The invariant\<close>

declare NBUF_def [simp del]

abbreviation buf_locks :: "lockid set" where
  "buf_locks \<equiv> insert BcacheLock (insert VdiskLock (BufLock ` {..<NBUF} \<union> proc_locks))"

text \<open>
  A buffer without users is not locked and agrees with the disk; a buffer in use belongs to the device; process \<open>pid\<close>
  holds all the locks.
\<close>

definition buf_ok :: "uint \<Rightarrow> (uint \<Rightarrow> bytes) \<Rightarrow> int \<Rightarrow> sleeplock \<Rightarrow> buf \<Rightarrow> bool" where
  "buf_ok dv me pid k b \<longleftrightarrow>
     (if b_refcnt b = 0 then sl_locked k = 0 \<and> (b_valid b \<longrightarrow> b_dev b = dv \<longrightarrow> b_data b = me (b_blockno b))
      else b_valid b \<and> b_dev b = dv \<and> b_blockno b < 0x80000000)
     \<and> (sl_locked k \<noteq> 0 \<longrightarrow> sl_pid k = pid)"

definition bcache :: "nat \<Rightarrow> nat \<Rightarrow> uint \<Rightarrow> 'a fkstate_scheme \<Rightarrow> bool" where
  "bcache c p dv s \<longleftrightarrow> quiet c buf_locks s \<and> cur c s = Some p \<and> disk_idle (vdisk s) \<and> (\<exists>L. lru_list (bufs s) L)
     \<and> uniq dv (bufs s) \<and> (\<forall>i<NBUF. buf_ok dv (media s) (p_pid (procs s p)) (sleeplocks s (BufLock i)) (bufs s i))"

lemma bcacheD:
  assumes "bcache c p dv s"
  shows "quiet c buf_locks s" "cur c s = Some p" "disk_idle (vdisk s)" "\<exists>L. lru_list (bufs s) L" "uniq dv (bufs s)"
    "\<And>i. i < NBUF \<Longrightarrow> buf_ok dv (media s) (p_pid (procs s p)) (sleeplocks s (BufLock i)) (bufs s i)"
  using assms by (auto simp: bcache_def)

lemma bcacheI:
  assumes "bcache c p dv s" "bio_frame c s t" "disk_idle (vdisk t)" "\<exists>L. lru_list (bufs t) L" "uniq dv (bufs t)"
    "\<And>i. i < NBUF \<Longrightarrow> buf_ok dv (media t) (p_pid (procs s p)) (sleeplocks t (BufLock i)) (bufs t i)"
  shows "bcache c p dv t"
  using assms(3-6) bcacheD(1,2) [OF assms(1)] by (simp add: bcache_def bio_frame_keeps [OF assms(2)])

lemma lru_list_cong:
  assumes "\<And>i. i \<le> NBUF \<Longrightarrow> b_next (bs' i) = b_next (bs i) \<and> b_prev (bs' i) = b_prev (bs i)" "lru_list bs L"
  shows "lru_list bs' L"
proof -
  have L: "set L = {..<NBUF}" using assms(2) by (simp add: lru_list_def)
  have "links (\<lambda>i. b_next (bs' i)) (\<lambda>i. b_prev (bs' i)) (head # L @ [head]) =
      links (\<lambda>i. b_next (bs i)) (\<lambda>i. b_prev (bs i)) (head # L @ [head])"
    using L assms(1) by (intro links_cong) (auto simp: butlast_append split: if_splits)
  then show ?thesis using assms(2) by (simp add: lru_list_def ring_list_def)
qed

text \<open>How the view of the device follows from a change of one buffer.\<close>

lemma refs_upd:
  assumes "hit dv (bufs s) bno = Some i" "hit dv (bufs t) = hit dv (bufs s)"
    "\<And>j. j < NBUF \<Longrightarrow> j \<noteq> i \<Longrightarrow> b_refcnt (bufs t j) = b_refcnt (bufs s j)"
  shows "refs dv t = (refs dv s)(bno := b_refcnt (bufs t i))"
proof
  fix b show "refs dv t b = ((refs dv s)(bno := b_refcnt (bufs t i))) b"
    using assms hit_Some [OF assms(1)] by (auto simp: refs_def split: option.split dest: hit_Some)
qed

lemma blk_upd:
  assumes "hit dv (bufs s) bno = Some i" "hit dv (bufs t) = hit dv (bufs s)" "b_valid (bufs t i)"
    "\<And>b. b \<noteq> bno \<Longrightarrow> media t b = media s b"
    "\<And>j. j < NBUF \<Longrightarrow> j \<noteq> i \<Longrightarrow> b_valid (bufs t j) = b_valid (bufs s j) \<and> b_data (bufs t j) = b_data (bufs s j)"
  shows "blk dv t = (blk dv s)(bno := b_data (bufs t i))"
proof
  fix b show "blk dv t b = ((blk dv s)(bno := b_data (bufs t i))) b"
    using assms hit_Some [OF assms(1)] by (auto simp: blk_def split: option.split dest: hit_Some)
qed

lemma busy_upd:
  assumes "hit dv (bufs s) bno = Some i" "hit dv (bufs t) = hit dv (bufs s)"
    "\<And>j. j < NBUF \<Longrightarrow> j \<noteq> i \<Longrightarrow> sleeplocks t (BufLock j) = sleeplocks s (BufLock j)"
  shows "busy dv t = (if sl_locked (sleeplocks t (BufLock i)) \<noteq> 0 then insert bno (busy dv s) else busy dv s - {bno})"
  using assms hit_Some [OF assms(1)] by (auto simp: busy_def dest: hit_Some) (metis hit_Some)+

lemma blk_refs0:
  assumes "bcache c p dv s" "refs dv s b = 0"
  shows "blk dv s b = media s b"
proof (cases "hit dv (bufs s) b")
  case (Some i)
  then show ?thesis using assms(2) bcacheD(6) [OF assms(1), of i] hit_Some [OF Some]
    by (auto simp: blk_def refs_def buf_ok_def split: if_splits)
qed (simp add: blk_def)

lemma busy_refs: "bcache c p dv s \<Longrightarrow> b \<in> busy dv s \<Longrightarrow> refs dv s b \<noteq> 0"
  using hit_Some [of dv "bufs s" b] bcacheD(6) [of c p dv s] by (fastforce simp: busy_def refs_def buf_ok_def split: if_splits)

lemma refs_Some: "refs dv s b \<noteq> 0 \<Longrightarrow> \<exists>i. hit dv (bufs s) b = Some i \<and> b_refcnt (bufs s i) = refs dv s b"
  by (auto simp: refs_def split: option.splits)

lemma handle:
  assumes "bcache c p dv s" "hit dv (bufs s) b = Some i" "refs dv s b \<noteq> 0"
  shows "i < NBUF" "b_dev (bufs s i) = dv" "b_blockno (bufs s i) = b" "b_valid (bufs s i)" "b_data (bufs s i) = blk dv s b"
    "b < 0x80000000" "b_refcnt (bufs s i) = refs dv s b"
  using assms(3) hit_Some [OF assms(2)] bcacheD(6) [OF assms(1), of i] assms(2)
  by (auto simp: blk_def refs_def buf_ok_def split: if_splits)

section \<open>Getting a buffer\<close>

definition grab :: "nat \<Rightarrow> nat \<Rightarrow> nat \<Rightarrow> buf \<Rightarrow> 'a fkstate_scheme \<Rightarrow> 'a fkstate_scheme" where
  "grab c p i B s = s\<lparr>mach := crit c (mach s), bufs := (bufs s)(i := B),
     sleeplocks := (sleeplocks s)(BufLock i := (sleeplocks s (BufLock i))\<lparr>sl_locked := 1, sl_pid := p_pid (procs s p)\<rparr>)\<rparr>"

lemma grab_frame [simp]: "bio_frame c s (grab c p i B s)"
  by (simp add: grab_def)

lemma bget_tail:
  assumes "bcache c p dv s" "i < NBUF" "sl_locked (sleeplocks s (BufLock i)) = 0"
  shows "bnd (krelease c BcacheLock (upd_buf i f (s\<lparr>mach := taken c BcacheLock (mach s)\<rparr>)))
      (\<lambda>s. bnd (acquiresleep c (BufLock i) s) (\<lambda>s. Inr (i, s))) = Inr (i, grab c p i (f (bufs s i)) s)"
proof -
  have q: "cpu_ok c (mach s)" "lock_free BcacheLock (mach s)" "lock_free (BufLock i) (mach s)"
    using bcacheD(1) [OF assms(1)] assms(2) by (simp_all add: quiet_def)
  let ?u = "s\<lparr>mach := taken c BcacheLock (mach s), bufs := (bufs s)(i := f (bufs s i))\<rparr>"
  have "krelease c BcacheLock ?u = Inr (?u\<lparr>mach := crit c (mach s)\<rparr>)" using q by (intro krelease_taken) simp_all
  moreover have "acquiresleep c (BufLock i) (?u\<lparr>mach := crit c (mach s)\<rparr>) = Inr (grab c p i (f (bufs s i)) s)"
    using acquiresleep_ok [of c "BufLock i" "?u\<lparr>mach := crit c (mach s)\<rparr>" p] q bcacheD(2) [OF assms(1)] assms(3)
    by (simp add: quiet_def grab_def)
  ultimately show ?thesis by (simp add: upd_buf_def)
qed

lemma bget_eq:
  assumes "bcache c p dv s" "lru_list (bufs s) L"
  shows "bget c dv bno s = (case hit dv (bufs s) bno of
      Some i \<Rightarrow> bnd (krelease c BcacheLock (upd_buf i (\<lambda>x. x\<lparr>b_refcnt := b_refcnt x + 1\<rparr>) (s\<lparr>mach := taken c BcacheLock (mach s)\<rparr>)))
        (\<lambda>s. bnd (acquiresleep c (BufLock i) s) (\<lambda>s. Inr (i, s)))
    | None \<Rightarrow> (case find (\<lambda>i. b_refcnt (bufs s i) = 0) (rev L) of
        Some i \<Rightarrow> Inr (i, grab c p i ((bufs s i)\<lparr>b_dev := dv, b_blockno := bno, b_valid := False, b_refcnt := 1\<rparr>) s)
      | None \<Rightarrow> Inl (Panic ''bget: no buffers'')))"
proof -
  have q: "cpu_ok c (mach s)" "lock_free BcacheLock (mach s)" using bcacheD(1) [OF assms(1)] by (simp_all add: quiet_def)
  have L: "set L = {..<NBUF}" using assms(2) by (simp add: lru_list_def)
  note f = lru_list_scans [OF assms(2)] find_hit [OF bcacheD(5) [OF assms(1)] L]
  have g: "sl_locked (sleeplocks s (BufLock i)) = 0 \<and> i < NBUF" if "find (\<lambda>i. b_refcnt (bufs s i) = 0) (rev L) = Some i" for i
  proof -
    have "b_refcnt (bufs s i) = 0" "i \<in> set (rev L)" using that by (auto simp: find_Some_iff simp del: set_rev)
    then show ?thesis using L bcacheD(6) [OF assms(1), of i] by (auto simp: buf_ok_def)
  qed
  show ?thesis
  proof (cases "hit dv (bufs s) bno")
    case None
    show ?thesis
    proof (cases "find (\<lambda>i. b_refcnt (bufs s i) = 0) (rev L)")
      case N2: None
      then show ?thesis using None q f by (simp add: bget_def del: bget_find.simps bget_lru.simps)
    next
      case (Some i)
      then show ?thesis using None q f g [OF Some]
          bget_tail [OF assms(1), of i "\<lambda>x. x\<lparr>b_dev := dv, b_blockno := bno, b_valid := False, b_refcnt := 1\<rparr>"]
        by (simp add: bget_def del: bget_find.simps bget_lru.simps)
    qed
  next
    case (Some i)
    then show ?thesis using q f by (simp add: bget_def del: bget_find.simps bget_lru.simps)
  qed
qed

lemma bread_form:
  assumes bc: "bcache c p dv s" and g: "bget c dv bno s = Inr (i, grab c p i B s)" "i < NBUF"
    and B: "b_dev B = dv" "b_blockno B = bno" "bno < 0x80000000"
  shows "\<exists>t B'. bread c dv bno s = Inr (i, t) \<and> bio_frame c s t \<and> disk_idle (vdisk t) \<and> media t = media s
    \<and> media_log t = media_log s \<and> sleeplocks t = sleeplocks (grab c p i B s) \<and> bufs t = (bufs s)(i := B')
    \<and> b_valid B' \<and> b_data B' = (if b_valid B then b_data B else media s bno) \<and> b_refcnt B' = b_refcnt B
    \<and> b_dev B' = dv \<and> b_blockno B' = bno \<and> b_next B' = b_next B \<and> b_prev B' = b_prev B"
proof (cases "b_valid B")
  case True
  have "bread c dv bno s = Inr (i, grab c p i B s)" using g True by (simp add: bread_def grab_def)
  then show ?thesis using True B bcacheD(3) [OF bc]
    by (intro exI [of _ "grab c p i B s"] exI [of _ B]) (simp add: grab_def)
next
  case False
  let ?u = "grab c p i B s"
  have u: "bufs ?u i = B" "media ?u = media s" "media_log ?u = media_log s" "vdisk ?u = vdisk s" by (simp_all add: grab_def)
  have fu: "bio_frame c s ?u" by simp
  have "quiet c buf_locks ?u" using bio_frame_keeps(1) [OF fu] bcacheD(1) [OF bc] by simp
  then have "quiet c (insert VdiskLock proc_locks) ?u" by (simp add: quiet_def)
  from virtio_disk_rw_ok [OF this, of i False] obtain ps d where
    r: "virtio_disk_rw c i False ?u = Inr (?u\<lparr>mach := crit c (mach ?u), procs := ps, vdisk := d,
      media := media_after i False ?u, media_log := media_log_after i False ?u, bufs := bufs_after i False ?u\<rparr>)"
    "woken (cur c ?u) (procs ?u) ps" "disk_idle d" using B u bcacheD(3) [OF bc] by auto
  let ?v = "?u\<lparr>mach := crit c (mach ?u), procs := ps, vdisk := d,
      media := media_after i False ?u, media_log := media_log_after i False ?u, bufs := bufs_after i False ?u\<rparr>"
  let ?t = "upd_buf i (\<lambda>x. x\<lparr>b_valid := True\<rparr>) ?v"
  have "bio_frame c ?u (?u\<lparr>mach := crit c (mach ?u), procs := ps\<rparr>)" using r(2) by (rule bio_frame_procs)
  then have "bio_frame c s (?u\<lparr>mach := crit c (mach ?u), procs := ps\<rparr>)" by (rule bio_frame_trans [OF grab_frame])
  then have "bio_frame c s ?t" by (simp add: upd_buf_def)
  moreover have "bread c dv bno s = Inr (i, ?t)" using g(1) r(1) False u(1) by (simp add: bread_def)
  ultimately show ?thesis using r(3) False B
    by (intro exI [of _ ?t] exI [of _ "bufs ?t i"])
      (simp add: upd_buf_def media_after_def media_log_after_def bufs_after_def u, simp add: grab_def)
qed

text \<open>
  An operation has led from \<open>s\<close> to \<open>t\<close>, where the device has the given view: contents, users, locks, disk and the
  sequence of writes. Buffers that stay in use stay in place.
\<close>

definition bio_to :: "nat \<Rightarrow> nat \<Rightarrow> uint \<Rightarrow> 'a fkstate_scheme \<Rightarrow> 'a fkstate_scheme \<Rightarrow> (uint \<Rightarrow> bytes) \<Rightarrow> (uint \<Rightarrow> uint) \<Rightarrow>
    uint set \<Rightarrow> (uint \<Rightarrow> bytes) \<Rightarrow> (uint \<times> bytes) list \<Rightarrow> bool" where
  "bio_to c p dv s t V R K M W \<longleftrightarrow> bio_frame c s t \<and> bcache c p dv t \<and> blk dv t = V \<and> refs dv t = R \<and> busy dv t = K
     \<and> media t = M \<and> media_log t = W \<and> (\<forall>b. refs dv s b \<noteq> 0 \<longrightarrow> R b \<noteq> 0 \<longrightarrow> hit dv (bufs t) b = hit dv (bufs s) b)"

lemma bio_toD:
  assumes "bio_to c p dv s t V R K M W"
  shows "bio_frame c s t" "bcache c p dv t" "blk dv t = V" "refs dv t = R" "busy dv t = K" "media t = M" "media_log t = W"
    "\<And>b i. refs dv s b \<noteq> 0 \<Longrightarrow> R b \<noteq> 0 \<Longrightarrow> hit dv (bufs s) b = Some i \<Longrightarrow> hit dv (bufs t) b = Some i"
  using assms by (simp_all add: bio_to_def)

lemma free_buf:
  assumes "bcache c p dv s" "card {b. refs dv s b \<noteq> 0} < NBUF"
  shows "\<exists>i<NBUF. b_refcnt (bufs s i) = 0"
proof (rule ccontr)
  assume "\<not> ?thesis"
  then have n: "b_refcnt (bufs s i) \<noteq> 0" if "i < NBUF" for i using that by blast
  have d: "b_dev (bufs s i) = dv" if "i < NBUF" for i using bcacheD(6) [OF assms(1) that] n [OF that] by (simp add: buf_ok_def)
  have h: "hit dv (bufs s) (b_blockno (bufs s i)) = Some i" if "i < NBUF" for i
    using bcacheD(5) [OF assms(1)] d that by (simp add: uniq_def)
  have "inj_on (\<lambda>i. b_blockno (bufs s i)) {..<NBUF}" using h by (metis (mono_tags, lifting) inj_onI lessThan_iff option.inject)
  moreover have "(\<lambda>i. b_blockno (bufs s i)) ` {..<NBUF} \<subseteq> {b. refs dv s b \<noteq> 0}" using h n by (auto simp: refs_def)
  moreover have "finite {b. refs dv s b \<noteq> 0}" by (rule finite_subset [OF subset_UNIV]) simp
  ultimately have "card {..<NBUF} \<le> card {b. refs dv s b \<noteq> 0}" by (rule card_inj_on_le)
  then show False using assms(2) by simp
qed

lemma buf_ok_grabbed: "b_refcnt B \<noteq> 0 \<Longrightarrow> b_valid B \<Longrightarrow> b_dev B = dv \<Longrightarrow> b_blockno B < 0x80000000 \<Longrightarrow>
    buf_ok dv me pid (k\<lparr>sl_locked := 1, sl_pid := pid\<rparr>) B"
  by (simp add: buf_ok_def)

lemma bread_hit:
  assumes bc: "bcache c p dv s" and h: "hit dv (bufs s) bno = Some i"
    and b: "bno < 0x80000000" "bno \<notin> busy dv s" "refs dv s bno + 1 \<noteq> 0"
  shows "\<exists>t. bread c dv bno s = Inr (i, t) \<and> hit dv (bufs t) bno = Some i \<and>
    bio_to c p dv s t (blk dv s) ((refs dv s)(bno := refs dv s bno + 1)) (insert bno (busy dv s)) (media s) (media_log s)"
proof -
  obtain L where L: "lru_list (bufs s) L" using bcacheD(4) [OF bc] by blast
  note i = hit_Some [OF h]
  have l: "sl_locked (sleeplocks s (BufLock i)) = 0" using b(2) h by (simp add: busy_def)
  let ?B = "(bufs s i)\<lparr>b_refcnt := b_refcnt (bufs s i) + 1\<rparr>"
  have "bget c dv bno s = Inr (i, grab c p i ?B s)"
    unfolding bget_eq [OF bc L] using h bget_tail [OF bc _ l, of "\<lambda>x. x\<lparr>b_refcnt := b_refcnt x + 1\<rparr>"] i by simp
  from bread_form [OF bc this _ _ _ b(1)] i obtain t B' where t: "bread c dv bno s = Inr (i, t)" "bio_frame c s t"
    "disk_idle (vdisk t)" "media t = media s" "media_log t = media_log s" "sleeplocks t = sleeplocks (grab c p i ?B s)"
    "bufs t = (bufs s)(i := B')" "b_valid B'" "b_data B' = (if b_valid ?B then b_data ?B else media s bno)"
    "b_refcnt B' = b_refcnt ?B" "b_dev B' = dv" "b_blockno B' = bno" "b_next B' = b_next ?B" "b_prev B' = b_prev ?B"
    by auto
  have r: "refs dv s bno = b_refcnt (bufs s i)" using h by (simp add: refs_def)
  have hit: "hit dv (bufs t) = hit dv (bufs s)" using t(7,11,12) i by (intro hit_cong) auto
  have "uniq dv (bufs t) = uniq dv (bufs s)" using t(7,11,12) i by (intro uniq_cong) auto
  moreover have "lru_list (bufs t) L" using L by (rule lru_list_cong [rotated]) (use t(7,13,14) in auto)
  moreover have "buf_ok dv (media t) (p_pid (procs s p)) (sleeplocks t (BufLock j)) (bufs t j)" if "j < NBUF" for j
    using bcacheD(6) [OF bc that] t(4,6-8,10-12) b(1,3) r by (cases "j = i") (auto simp: grab_def intro: buf_ok_grabbed)
  ultimately have bt: "bcache c p dv t" using bcacheI [OF bc t(2,3)] bcacheD(5) [OF bc] by blast
  have "refs dv t = (refs dv s)(bno := b_refcnt (bufs t i))" using t(7) by (intro refs_upd [OF h hit]) auto
  moreover have "blk dv t = (blk dv s)(bno := b_data (bufs t i))" using t(4,7,8) by (intro blk_upd [OF h hit]) auto
  moreover have "blk dv s bno = b_data B'" using t(9) h by (simp add: blk_def)
  moreover have "busy dv t = insert bno (busy dv s)" using busy_upd [OF h hit] t(6) by (simp add: grab_def)
  ultimately show ?thesis using t h hit r bt unfolding bio_to_def by (intro exI [of _ t]) auto
qed

lemma bread_miss:
  assumes bc: "bcache c p dv s" and h: "hit dv (bufs s) bno = None" and b: "bno < 0x80000000"
    and L: "lru_list (bufs s) L" "find (\<lambda>i. b_refcnt (bufs s i) = 0) (rev L) = Some i"
  shows "\<exists>t. bread c dv bno s = Inr (i, t) \<and> hit dv (bufs t) bno = Some i \<and>
    bio_to c p dv s t (blk dv s) ((refs dv s)(bno := refs dv s bno + 1)) (insert bno (busy dv s)) (media s) (media_log s)"
proof -
  have "i \<in> set (rev L)" "b_refcnt (bufs s i) = 0" using L(2) by (auto simp: find_Some_iff simp del: set_rev)
  then have i: "i < NBUF" "b_refcnt (bufs s i) = 0" using L(1) by (auto simp: lru_list_def)
  let ?B = "(bufs s i)\<lparr>b_dev := dv, b_blockno := bno, b_valid := False, b_refcnt := 1\<rparr>"
  have "bget c dv bno s = Inr (i, grab c p i ?B s)" unfolding bget_eq [OF bc L(1)] using h L(2) by simp
  from bread_form [OF bc this i(1) _ _ b] obtain t B' where t: "bread c dv bno s = Inr (i, t)" "bio_frame c s t"
    "disk_idle (vdisk t)" "media t = media s" "media_log t = media_log s" "sleeplocks t = sleeplocks (grab c p i ?B s)"
    "bufs t = (bufs s)(i := B')" "b_valid B'" "b_data B' = media s bno"
    "b_refcnt B' = 1" "b_dev B' = dv" "b_blockno B' = bno" "b_next B' = b_next (bufs s i)" "b_prev B' = b_prev (bufs s i)"
    by auto
  note ev = evict [OF bcacheD(5) [OF bc] h i(1) t(11,12), folded t(7)]
  have ok: "buf_ok dv (media s) (p_pid (procs s p)) (sleeplocks s (BufLock i)) (bufs s i)" by (rule bcacheD(6) [OF bc i(1)])
  have "lru_list (bufs t) L" using L(1) by (rule lru_list_cong [rotated]) (use t(7,13,14) in auto)
  moreover have "buf_ok dv (media t) (p_pid (procs s p)) (sleeplocks t (BufLock j)) (bufs t j)" if "j < NBUF" for j
    using bcacheD(6) [OF bc that] t(4,6-8,10-12) b by (cases "j = i") (auto simp: grab_def intro: buf_ok_grabbed)
  ultimately have bt: "bcache c p dv t" using bcacheI [OF bc t(2,3)] ev(1) by blast
  have r: "refs dv t = (refs dv s)(bno := refs dv s bno + 1)"
    using t(7,10) i(2) h by (auto simp: refs_def ev(2) fun_eq_iff split: option.split)
  have v: "blk dv t = blk dv s"
  proof
    fix d
    consider "d = bno" | "d \<noteq> bno" "hit dv (bufs s) d = Some i" | "d \<noteq> bno" "hit dv (bufs s) d \<noteq> Some i" by blast
    then show "blk dv t d = blk dv s d" unfolding blk_def ev(2)
    proof cases
      case 2
      then show "(case if d = bno then Some i else if hit dv (bufs s) d = Some i then None else hit dv (bufs s) d of
          None \<Rightarrow> media t d | Some j \<Rightarrow> if b_valid (bufs t j) then b_data (bufs t j) else media t d) =
        (case hit dv (bufs s) d of None \<Rightarrow> media s d | Some j \<Rightarrow> if b_valid (bufs s j) then b_data (bufs s j) else media s d)"
        using hit_Some [OF 2(2)] ok i(2) t(4) by (simp add: buf_ok_def)
    qed (use t(4,7-9) h in \<open>auto split: option.split\<close>)
  qed
  have k: "busy dv t = insert bno (busy dv s)"
    using t(6) ok i(2) by (auto simp: busy_def ev(2) grab_def buf_ok_def)
  have "hit dv (bufs t) d = hit dv (bufs s) d" if "refs dv s d \<noteq> 0" for d
    using that i(2) h by (auto simp: refs_def ev(2) split: option.splits)
  then show ?thesis using t bt r v k ev(2) [of bno] by (intro exI [of _ t] conjI) (simp_all add: bio_to_def)
qed

lemma bread_ok:
  assumes bc: "bcache c p dv s" and b: "bno < 0x80000000" "bno \<notin> busy dv s" "refs dv s bno + 1 \<noteq> 0"
    and n: "refs dv s bno \<noteq> 0 \<or> card {b. refs dv s b \<noteq> 0} < NBUF"
  shows "\<exists>i t. bread c dv bno s = Inr (i, t) \<and> hit dv (bufs t) bno = Some i \<and>
    bio_to c p dv s t (blk dv s) ((refs dv s)(bno := refs dv s bno + 1)) (insert bno (busy dv s)) (media s) (media_log s)"
proof (cases "hit dv (bufs s) bno")
  case (Some i)
  then show ?thesis using bread_hit [OF bc Some b] by blast
next
  case None
  then have "card {b. refs dv s b \<noteq> 0} < NBUF" using n by (simp add: refs_def)
  from free_buf [OF bc this] obtain j where j: "j < NBUF" "b_refcnt (bufs s j) = 0" by blast
  obtain L where L: "lru_list (bufs s) L" using bcacheD(4) [OF bc] by blast
  then have "j \<in> set (rev L)" using j by (simp add: lru_list_def)
  then have "find (\<lambda>i. b_refcnt (bufs s i) = 0) (rev L) \<noteq> None" using j(2) by (auto simp: find_None_iff)
  then obtain i where "find (\<lambda>i. b_refcnt (bufs s i) = 0) (rev L) = Some i" by blast
  from bread_miss [OF bc None b(1) L this] show ?thesis by blast
qed

section \<open>Writing, releasing and pinning a buffer\<close>

lemma set_data_ok:
  assumes bc: "bcache c p dv s" and h: "hit dv (bufs s) bno = Some i" "refs dv s bno \<noteq> 0"
  shows "bio_to c p dv s (upd_buf i (\<lambda>x. x\<lparr>b_data := d\<rparr>) s) ((blk dv s)(bno := d)) (refs dv s) (busy dv s) (media s) (media_log s)"
proof -
  let ?t = "upd_buf i (\<lambda>x. x\<lparr>b_data := d\<rparr>) s"
  note i = handle [OF bc h]
  have t: "bufs ?t = (bufs s)(i := (bufs s i)\<lparr>b_data := d\<rparr>)" "media ?t = media s" "media_log ?t = media_log s"
    "vdisk ?t = vdisk s" "sleeplocks ?t = sleeplocks s" "bio_frame c s ?t" by (simp_all add: upd_buf_def)
  obtain L where L: "lru_list (bufs s) L" using bcacheD(4) [OF bc] by blast
  have hit: "hit dv (bufs ?t) = hit dv (bufs s)" unfolding t by (intro hit_cong) auto
  have "uniq dv (bufs ?t) = uniq dv (bufs s)" unfolding t by (intro uniq_cong) auto
  moreover have "lru_list (bufs ?t) L" using L by (rule lru_list_cong [rotated]) (use t in auto)
  moreover have "buf_ok dv (media ?t) (p_pid (procs s p)) (sleeplocks ?t (BufLock j)) (bufs ?t j)" if "j < NBUF" for j
    using bcacheD(6) [OF bc that] h(2) i unfolding t by (cases "j = i") (auto simp: buf_ok_def)
  ultimately have bt: "bcache c p dv ?t" using bcacheI [OF bc t(6)] bcacheD(3,5) [OF bc] t(4) by metis
  have "refs dv ?t = (refs dv s)(bno := b_refcnt (bufs ?t i))" using t(1) by (intro refs_upd [OF h(1) hit]) auto
  moreover have "blk dv ?t = (blk dv s)(bno := b_data (bufs ?t i))" using t(1,2) i by (intro blk_upd [OF h(1) hit]) auto
  moreover have "busy dv ?t = busy dv s" unfolding busy_def hit t(5) ..
  ultimately show ?thesis using t bt i hit by (simp add: bio_to_def fun_upd_idem)
qed

lemma holdingsleep_buf:
  assumes bc: "bcache c p dv s" and h: "hit dv (bufs s) bno = Some i" "bno \<in> busy dv s"
  shows "holdingsleep c (BufLock i) s = Inr (True, s\<lparr>mach := crit c (mach s)\<rparr>)"
proof -
  have i: "i < NBUF" using hit_Some [OF h(1)] by simp
  have "sl_locked (sleeplocks s (BufLock i)) \<noteq> 0" using h by (simp add: busy_def)
  moreover have "quiet c {BufLock i} s" using bcacheD(1) [OF bc] i by (simp add: quiet_def)
  ultimately show ?thesis using bcacheD(6) [OF bc i] by (intro holdingsleep_ok [OF _ bcacheD(2) [OF bc]]) (simp_all add: buf_ok_def)
qed

lemma bwrite_ok:
  assumes bc: "bcache c p dv s" and h: "hit dv (bufs s) bno = Some i" "bno \<in> busy dv s"
  shows "\<exists>t. bwrite c i s = Inr t \<and> bio_to c p dv s t (blk dv s) (refs dv s) (busy dv s)
    ((media s)(bno := blk dv s bno)) (media_log s @ [(bno, blk dv s bno)])"
proof -
  note i = handle [OF bc h(1) busy_refs [OF bc h(2)]]
  let ?u = "s\<lparr>mach := crit c (mach s)\<rparr>"
  have fu: "bio_frame c s ?u" by simp
  have "quiet c (insert VdiskLock proc_locks) ?u" using bcacheD(1) [OF bc] by (simp add: quiet_def)
  from virtio_disk_rw_ok [OF this, of i True] obtain ps d where
    r: "virtio_disk_rw c i True ?u = Inr (?u\<lparr>mach := crit c (mach ?u), procs := ps, vdisk := d,
      media := media_after i True ?u, media_log := media_log_after i True ?u, bufs := bufs_after i True ?u\<rparr>)"
    "woken (cur c ?u) (procs ?u) ps" "disk_idle d" using i bcacheD(3) [OF bc] by auto
  let ?t = "?u\<lparr>mach := crit c (mach ?u), procs := ps, vdisk := d,
      media := media_after i True ?u, media_log := media_log_after i True ?u, bufs := bufs_after i True ?u\<rparr>"
  have w: "bwrite c i s = Inr ?t" using holdingsleep_buf [OF bc h] r(1) by (simp add: bwrite_def)
  define t where "t = ?t"
  have "bio_frame c s (?u\<lparr>mach := crit c (mach ?u), procs := ps\<rparr>)" by (rule bio_frame_trans [OF fu bio_frame_procs [OF r(2)]])
  then have f: "bio_frame c s t" unfolding t_def by (simp only: bio_frame_upd)
  have t: "bufs t = (bufs s)(i := (bufs s i)\<lparr>b_data := blk dv s bno, b_disk := False\<rparr>)" "media t = (media s)(bno := blk dv s bno)"
    "media_log t = media_log s @ [(bno, blk dv s bno)]" "disk_idle (vdisk t)" "sleeplocks t = sleeplocks s"
    using r(3) i by (simp_all add: t_def media_after_def media_log_after_def bufs_after_def)
  obtain L where L: "lru_list (bufs s) L" using bcacheD(4) [OF bc] by blast
  have hit: "hit dv (bufs t) = hit dv (bufs s)" unfolding t by (intro hit_cong) auto
  have "uniq dv (bufs t) = uniq dv (bufs s)" unfolding t by (intro uniq_cong) auto
  moreover have "lru_list (bufs t) L" using L by (rule lru_list_cong [rotated]) (use t in auto)
  moreover have "buf_ok dv (media t) (p_pid (procs s p)) (sleeplocks t (BufLock j)) (bufs t j)" if j: "j < NBUF" for j
    using bcacheD(6) [OF bc j] uniq_eq [OF bcacheD(5) [OF bc] j i(1)] i unfolding t by (cases "j = i") (auto simp: buf_ok_def)
  ultimately have bt: "bcache c p dv t" using bcacheI [OF bc f t(4)] bcacheD(5) [OF bc] by metis
  have "refs dv t = (refs dv s)(bno := b_refcnt (bufs t i))" using t(1) by (intro refs_upd [OF h(1) hit]) auto
  moreover have "blk dv t = (blk dv s)(bno := b_data (bufs t i))" using t(1,2) i by (intro blk_upd [OF h(1) hit]) auto
  moreover have "busy dv t = busy dv s" unfolding busy_def hit t(5) ..
  ultimately have "bio_to c p dv s t (blk dv s) (refs dv s) (busy dv s)
      ((media s)(bno := blk dv s bno)) (media_log s @ [(bno, blk dv s bno)])"
    using t f bt i hit by (simp add: bio_to_def fun_upd_idem)
  then show ?thesis using w t_def by blast
qed

text \<open>What \<open>brelse\<close> does to the list when the last user goes.\<close>

definition to_front :: "nat \<Rightarrow> 'a fkstate_scheme \<Rightarrow> 'a fkstate_scheme" where
  "to_front b s =
     (let s = upd_buf (b_next (bufs s b)) (\<lambda>x. x\<lparr>b_prev := b_prev (bufs s b)\<rparr>) s;
          s = upd_buf (b_prev (bufs s b)) (\<lambda>x. x\<lparr>b_next := b_next (bufs s b)\<rparr>) s
      in link_front b s)"

lemma ring_list_neighbours:
  assumes "ring_list h nx pv L" "b \<in> set L"
  shows "nx b \<noteq> b" "pv b \<noteq> b" "b \<noteq> h"
proof -
  obtain ys zs where L: "L = ys @ b # zs" using assms(2) split_list by fastforce
  obtain us x where u: "h # ys = us @ [x]" by (metis list.distinct(1) rev_exhaust)
  obtain y vs where v: "zs @ [h] = y # vs" by (metis append_is_Nil_conv list.exhaust list.distinct(1))
  have "h # L @ [h] = us @ x # b # y # vs" using u v L by (metis append.assoc append_Cons append_Nil)
  then have "links nx pv (us @ x # b # y # vs)" using assms(1) by (simp add: ring_list_def)
  then have p: "pv b = x" "nx b = y" by (auto simp: links_two)
  have d: "distinct (h # ys @ b # zs)" using assms(1) L by (simp add: ring_list_def)
  then show "b \<noteq> h" by auto
  have "x \<in> set (h # ys)" unfolding u by simp
  moreover have "y \<in> set (zs @ [h])" unfolding v by simp
  ultimately show "nx b \<noteq> b" "pv b \<noteq> b" using p d by auto
qed

lemma upd_buf_links:
  "b_next (bufs (upd_buf j (\<lambda>x. x\<lparr>b_next := v\<rparr>) s) i) = (if i = j then v else b_next (bufs s i))"
  "b_prev (bufs (upd_buf j (\<lambda>x. x\<lparr>b_next := v\<rparr>) s) i) = b_prev (bufs s i)"
  "b_prev (bufs (upd_buf j (\<lambda>x. x\<lparr>b_prev := v\<rparr>) s) i) = (if i = j then v else b_prev (bufs s i))"
  "b_next (bufs (upd_buf j (\<lambda>x. x\<lparr>b_prev := v\<rparr>) s) i) = b_next (bufs s i)"
  by (simp_all add: upd_buf_def)

lemma to_front_lru:
  assumes "lru_list (bufs s) L" "b < NBUF"
  shows "\<exists>L'. lru_list (bufs (to_front b s)) L'"
proof -
  let ?nx = "\<lambda>i. b_next (bufs s i)" and ?pv = "\<lambda>i. b_prev (bufs s i)"
  have r: "ring_list head ?nx ?pv L" and L: "set L = {..<NBUF}" using assms(1) by (simp_all add: lru_list_def)
  have b: "b \<in> set L" using assms(2) L by simp
  then obtain ys zs where sp: "L = ys @ b # zs" using split_list by fastforce
  note nb = ring_list_neighbours [OF r b]
  let ?nx1 = "?nx(?pv b := ?nx b)" and ?pv1 = "?pv(?nx b := ?pv b)"
  have r1: "ring_list head ?nx1 ?pv1 (ys @ zs)" using ring_list_unlink [of head ?nx ?pv ys b zs] r sp by blast
  have dist: "distinct L" using r by (simp add: ring_list_def)
  then have nb2: "b \<notin> set (ys @ zs)" using sp by auto
  from ring_list_front [OF r1 nb2 nb(3)]
  have r2: "ring_list head (?nx1(b := ?nx1 head, head := b)) (?pv1(b := head, ?nx1 head := b)) (b # ys @ zs)" .
  have "(\<lambda>i. b_next (bufs (to_front b s) i)) = ?nx1(b := ?nx1 head, head := b)"
    "(\<lambda>i. b_prev (bufs (to_front b s) i)) = ?pv1(b := head, ?nx1 head := b)"
    by (rule ext, simp add: to_front_def link_front_def Let_def upd_buf_links nb nb(3) [symmetric])+
  then have "ring_list head (\<lambda>i. b_next (bufs (to_front b s) i)) (\<lambda>i. b_prev (bufs (to_front b s) i)) (b # ys @ zs)"
    using r2 by simp
  moreover have "set (b # ys @ zs) = {..<NBUF}" using sp L by auto
  ultimately show ?thesis unfolding lru_list_def by blast
qed

lemma upd_buf_field:
  assumes "\<And>x. g (f x) = g x"
  shows "g (bufs (upd_buf j f s) i) = g (bufs s i)"
  using assms by (simp add: upd_buf_def)

lemma upd_buf_bufs: "(upd_buf j f s)\<lparr>bufs := B\<rparr> = s\<lparr>bufs := B\<rparr>"
  by (simp add: upd_buf_def)

lemma upd_buf_sleeplocks: "sleeplocks (upd_buf j f s) = sleeplocks s"
  by (simp add: upd_buf_def)

lemma to_front_same:
  "b_dev (bufs (to_front b s) j) = b_dev (bufs s j)" "b_blockno (bufs (to_front b s) j) = b_blockno (bufs s j)"
  "b_valid (bufs (to_front b s) j) = b_valid (bufs s j)" "b_refcnt (bufs (to_front b s) j) = b_refcnt (bufs s j)"
  "b_data (bufs (to_front b s) j) = b_data (bufs s j)" "to_front b s = s\<lparr>bufs := bufs (to_front b s)\<rparr>"
proof -
  have "(to_front b s)\<lparr>bufs := B\<rparr> = s\<lparr>bufs := B\<rparr>" for B by (simp add: to_front_def link_front_def Let_def upd_buf_bufs)
  from this [of "bufs (to_front b s)"] show "to_front b s = s\<lparr>bufs := bufs (to_front b s)\<rparr>" by simp
qed (simp_all add: to_front_def link_front_def Let_def upd_buf_field)

lemma brelse_alt:
  "brelse c b s = bnd (holdingsleep c (BufLock b) s) (\<lambda>(h, s).
       if \<not> h then Inl (Panic ''brelse'')
       else bnd (releasesleep c (BufLock b) s) (\<lambda>s.
            bnd (kacquire c BcacheLock s) (\<lambda>s.
              let s = upd_buf b (\<lambda>x. x\<lparr>b_refcnt := b_refcnt x - 1\<rparr>) s
              in krelease c BcacheLock (if b_refcnt (bufs s b) = 0 then to_front b s else s))))"
  unfolding brelse_def to_front_def Let_def ..

lemma brelse_form:
  assumes bc: "bcache c p dv s" and h: "hit dv (bufs s) bno = Some i" "bno \<in> busy dv s"
  shows "\<exists>t. brelse c i s = Inr t \<and> bio_frame c s t \<and> media t = media s \<and> media_log t = media_log s \<and> vdisk t = vdisk s
    \<and> sleeplocks t = (sleeplocks s)(BufLock i := (sleeplocks s (BufLock i))\<lparr>sl_locked := 0, sl_pid := 0\<rparr>)
    \<and> (\<exists>L. lru_list (bufs t) L) \<and> (\<forall>j. b_dev (bufs t j) = b_dev (bufs s j) \<and> b_blockno (bufs t j) = b_blockno (bufs s j)
        \<and> b_valid (bufs t j) = b_valid (bufs s j) \<and> b_data (bufs t j) = b_data (bufs s j)
        \<and> b_refcnt (bufs t j) = (if j = i then b_refcnt (bufs s j) - 1 else b_refcnt (bufs s j)))"
proof -
  note i = handle [OF bc h(1) busy_refs [OF bc h(2)]]
  have q: "cpu_ok c (mach s)" "lock_free BcacheLock (mach s)" using bcacheD(1) [OF bc] by (simp_all add: quiet_def)
  obtain L where L: "lru_list (bufs s) L" using bcacheD(4) [OF bc] by blast
  let ?k = "(sleeplocks s)(BufLock i := (sleeplocks s (BufLock i))\<lparr>sl_locked := 0, sl_pid := 0\<rparr>)"
  let ?u = "s\<lparr>mach := crit c (mach s)\<rparr>"
  have "quiet c (insert (BufLock i) proc_locks) ?u" using bcacheD(1) [OF bc] i(1) by (simp add: quiet_def)
  from releasesleep_ok [OF this] obtain ps where
    ps: "releasesleep c (BufLock i) ?u = Inr (?u\<lparr>mach := crit c (mach ?u), procs := ps,
      sleeplocks := (sleeplocks ?u)(BufLock i := (sleeplocks ?u (BufLock i))\<lparr>sl_locked := 0, sl_pid := 0\<rparr>)\<rparr>)"
    "woken (cur c ?u) (procs ?u) ps" by auto
  define B where "B = (bufs s)(i := (bufs s i)\<lparr>b_refcnt := b_refcnt (bufs s i) - 1\<rparr>)"
  let ?w = "?u\<lparr>mach := crit c (mach ?u), procs := ps,
      sleeplocks := (sleeplocks ?u)(BufLock i := (sleeplocks ?u (BufLock i))\<lparr>sl_locked := 0, sl_pid := 0\<rparr>)\<rparr>"
  have aq: "kacquire c BcacheLock ?w = Inr (?w\<lparr>mach := taken c BcacheLock (mach ?w)\<rparr>)" using q by simp
  define v where "v = upd_buf i (\<lambda>x. x\<lparr>b_refcnt := b_refcnt x - 1\<rparr>) (?w\<lparr>mach := taken c BcacheLock (mach ?w)\<rparr>)"
  have v: "v = s\<lparr>mach := taken c BcacheLock (mach s), procs := ps, sleeplocks := ?k, bufs := B\<rparr>"
    by (simp add: v_def upd_buf_def B_def)
  define w where "w = (if b_refcnt (bufs v i) = 0 then to_front i v else v)"
  have ww: "w = v\<lparr>bufs := bufs w\<rparr>" using to_front_same(6) [of i v] by (simp add: w_def)
  have mw: "mach w = taken c BcacheLock (mach s)" by (subst ww) (simp add: v)
  have rl: "krelease c BcacheLock w = Inr (w\<lparr>mach := crit c (mach s)\<rparr>)" using q mw by (intro krelease_taken) simp_all
  have "brelse c i s = krelease c BcacheLock w"
    unfolding brelse_alt holdingsleep_buf [OF bc h] bnd_Inr prod.case ps(1) aq Let_def w_def v_def by (simp only: not_True_eq_False if_False)
  then have r: "brelse c i s = Inr (w\<lparr>mach := crit c (mach s)\<rparr>)" using rl by simp
  define t where "t = w\<lparr>mach := crit c (mach s)\<rparr>"
  have t: "t = s\<lparr>mach := crit c (mach s), procs := ps, sleeplocks := ?k, bufs := bufs w\<rparr>"
    unfolding t_def by (subst ww) (simp add: v)
  have "woken (cur c s) (procs s) ps" using ps(2) by simp
  then have "bio_frame c s (s\<lparr>mach := crit c (mach s), procs := ps\<rparr>)" by (rule bio_frame_procs)
  then have f: "bio_frame c s t" unfolding t by (simp only: bio_frame_upd)
  have "lru_list (bufs v) L" using L by (rule lru_list_cong [rotated]) (auto simp: v B_def)
  then have l: "\<exists>L. lru_list (bufs w) L" using to_front_lru [of v L i] i(1) by (auto simp: w_def)
  have "\<forall>j. b_dev (bufs w j) = b_dev (bufs s j) \<and> b_blockno (bufs w j) = b_blockno (bufs s j)
        \<and> b_valid (bufs w j) = b_valid (bufs s j) \<and> b_data (bufs w j) = b_data (bufs s j)
        \<and> b_refcnt (bufs w j) = (if j = i then b_refcnt (bufs s j) - 1 else b_refcnt (bufs s j))"
    by (simp add: w_def to_front_same(1-5)) (simp add: v B_def)
  moreover have "brelse c i s = Inr t" using r t_def by simp
  ultimately show ?thesis using f l t by (intro exI [of _ t]) simp
qed

lemma refs_set_ok:
  assumes bc: "bcache c p dv s" and h: "hit dv (bufs s) bno = Some i" "refs dv s bno \<noteq> 0" and f: "bio_frame c s t"
    and m: "media t = media s" "media_log t = media_log s" "vdisk t = vdisk s" "\<exists>L. lru_list (bufs t) L"
    and s: "\<And>j. j \<noteq> i \<Longrightarrow> sleeplocks t (BufLock j) = sleeplocks s (BufLock j)"
    and b: "\<And>j. b_dev (bufs t j) = b_dev (bufs s j) \<and> b_blockno (bufs t j) = b_blockno (bufs s j)
        \<and> b_valid (bufs t j) = b_valid (bufs s j) \<and> b_data (bufs t j) = b_data (bufs s j)
        \<and> b_refcnt (bufs t j) = (if j = i then r else b_refcnt (bufs s j))"
    and ok: "r = 0 \<Longrightarrow> sl_locked (sleeplocks t (BufLock i)) = 0 \<and> media s bno = blk dv s bno"
    and p: "sl_locked (sleeplocks t (BufLock i)) \<noteq> 0 \<Longrightarrow> sl_pid (sleeplocks t (BufLock i)) = p_pid (procs s p)"
    and k: "K = (if sl_locked (sleeplocks t (BufLock i)) \<noteq> 0 then insert bno (busy dv s) else busy dv s - {bno})"
  shows "bio_to c p dv s t (blk dv s) ((refs dv s)(bno := r)) K (media s) (media_log s)"
proof -
  note i = handle [OF bc h]
  have hit: "hit dv (bufs t) = hit dv (bufs s)" using b by (intro hit_cong) auto
  have "uniq dv (bufs t) = uniq dv (bufs s)" using b by (intro uniq_cong) auto
  then have u: "uniq dv (bufs t)" using bcacheD(5) [OF bc] by simp
  have "buf_ok dv (media t) (p_pid (procs s p)) (sleeplocks t (BufLock j)) (bufs t j)" if j: "j < NBUF" for j
  proof (cases "j = i")
    case True
    then show ?thesis using i b [of i] ok p m(1) by (auto simp: buf_ok_def)
  next
    case False
    then show ?thesis using bcacheD(6) [OF bc j] b [of j] s [OF False] m(1) by (simp add: buf_ok_def)
  qed
  then have bt: "bcache c p dv t" using bcacheI [OF bc f _ m(4) u] m(3) bcacheD(3) [OF bc] by simp
  have "refs dv t = (refs dv s)(bno := b_refcnt (bufs t i))" using b by (intro refs_upd [OF h(1) hit]) auto
  moreover have "blk dv t = (blk dv s)(bno := b_data (bufs t i))" using b m(1) i by (intro blk_upd [OF h(1) hit]) auto
  moreover have "busy dv t = K" unfolding k using s by (intro busy_upd [OF h(1) hit]) auto
  ultimately show ?thesis using m f bt hit b [of i] i by (simp add: bio_to_def fun_upd_idem)
qed

lemma brelse_ok:
  assumes bc: "bcache c p dv s" and h: "hit dv (bufs s) bno = Some i" "bno \<in> busy dv s"
    and cl: "refs dv s bno = 1 \<Longrightarrow> media s bno = blk dv s bno"
  shows "\<exists>t. brelse c i s = Inr t \<and> bio_to c p dv s t (blk dv s) ((refs dv s)(bno := refs dv s bno - 1)) (busy dv s - {bno})
    (media s) (media_log s)"
proof -
  note r = busy_refs [OF bc h(2)]
  note i = handle [OF bc h(1) r]
  from brelse_form [OF bc h] obtain t where t: "brelse c i s = Inr t" "bio_frame c s t" "media t = media s"
    "media_log t = media_log s" "vdisk t = vdisk s" "\<exists>L. lru_list (bufs t) L"
    and k: "sleeplocks t = (sleeplocks s)(BufLock i := (sleeplocks s (BufLock i))\<lparr>sl_locked := 0, sl_pid := 0\<rparr>)"
    and b: "\<And>j. b_dev (bufs t j) = b_dev (bufs s j) \<and> b_blockno (bufs t j) = b_blockno (bufs s j)
        \<and> b_valid (bufs t j) = b_valid (bufs s j) \<and> b_data (bufs t j) = b_data (bufs s j)
        \<and> b_refcnt (bufs t j) = (if j = i then refs dv s bno - 1 else b_refcnt (bufs s j))"
    using i(7) by fastforce
  have "bio_to c p dv s t (blk dv s) ((refs dv s)(bno := refs dv s bno - 1)) (busy dv s - {bno}) (media s) (media_log s)"
    by (rule refs_set_ok [OF bc h(1) r t(2-6) _ b]) (use k cl in auto)
  then show ?thesis using t(1) by blast
qed

lemma recount_ok:
  assumes bc: "bcache c p dv s" and h: "hit dv (bufs s) bno = Some i" "refs dv s bno \<noteq> 0"
    and r: "f (refs dv s bno) \<noteq> 0"
  shows "\<exists>t. bnd (kacquire c BcacheLock s) (\<lambda>s. krelease c BcacheLock (upd_buf i (\<lambda>x. x\<lparr>b_refcnt := f (b_refcnt x)\<rparr>) s)) = Inr t
    \<and> bio_to c p dv s t (blk dv s) ((refs dv s)(bno := f (refs dv s bno))) (busy dv s) (media s) (media_log s)"
proof -
  note i = handle [OF bc h]
  have q: "cpu_ok c (mach s)" "lock_free BcacheLock (mach s)" using bcacheD(1) [OF bc] by (simp_all add: quiet_def)
  obtain L where L: "lru_list (bufs s) L" using bcacheD(4) [OF bc] by blast
  let ?B = "(bufs s)(i := (bufs s i)\<lparr>b_refcnt := f (b_refcnt (bufs s i))\<rparr>)"
  let ?u = "s\<lparr>mach := taken c BcacheLock (mach s), bufs := ?B\<rparr>" and ?t = "s\<lparr>mach := crit c (mach s), bufs := ?B\<rparr>"
  have "krelease c BcacheLock ?u = Inr (?u\<lparr>mach := crit c (mach s)\<rparr>)" using q by (intro krelease_taken) simp_all
  then have "bnd (kacquire c BcacheLock s) (\<lambda>s. krelease c BcacheLock (upd_buf i (\<lambda>x. x\<lparr>b_refcnt := f (b_refcnt x)\<rparr>) s)) = Inr ?t"
    using q by (simp add: upd_buf_def)
  moreover have l: "lru_list (bufs ?t) L" using L by (rule lru_list_cong [rotated]) auto
  have "bio_to c p dv s ?t (blk dv s) ((refs dv s)(bno := f (refs dv s bno))) (busy dv s) (media s) (media_log s)"
    by (rule refs_set_ok [OF bc h])
      (use i l r bcacheD(6) [OF bc i(1)] h(1) in \<open>auto simp: buf_ok_def busy_def dest: hit_Some\<close>)
  ultimately show ?thesis by blast
qed

lemma bpin_ok:
  assumes "bcache c p dv s" "hit dv (bufs s) bno = Some i" "refs dv s bno \<noteq> 0" "refs dv s bno + 1 \<noteq> 0"
  shows "\<exists>t. bpin c i s = Inr t \<and> bio_to c p dv s t (blk dv s) ((refs dv s)(bno := refs dv s bno + 1)) (busy dv s) (media s) (media_log s)"
  unfolding bpin_def using recount_ok [OF assms(1-3), of "\<lambda>r. r + 1"] assms(4) by simp

lemma bunpin_ok:
  assumes "bcache c p dv s" "hit dv (bufs s) bno = Some i" "refs dv s bno \<noteq> 0" "refs dv s bno \<noteq> 1"
  shows "\<exists>t. bunpin c i s = Inr t \<and> bio_to c p dv s t (blk dv s) ((refs dv s)(bno := refs dv s bno - 1)) (busy dv s) (media s) (media_log s)"
  unfolding bunpin_def using recount_ok [OF assms(1-3), of "\<lambda>r. r - 1"] assms(4) by simp

section \<open>Initialisation\<close>

lemma link_front_links:
  assumes "b \<noteq> head"
  shows "(\<lambda>i. b_next (bufs (link_front b s) i)) = (\<lambda>i. b_next (bufs s i))(b := b_next (bufs s head), head := b)"
    "(\<lambda>i. b_prev (bufs (link_front b s) i)) = (\<lambda>i. b_prev (bufs s i))(b := head, b_next (bufs s head) := b)"
  by (rule ext, simp add: link_front_def Let_def upd_buf_links assms assms [symmetric])+

lemma binit_loop:
  assumes "ring_list head (\<lambda>i. b_next (bufs s i)) (\<lambda>i. b_prev (bufs s i)) []" "n \<le> NBUF"
  defines "t \<equiv> fold (\<lambda>b s. link_front b (initsleeplock (BufLock b) ''buffer'' s)) [0..<n] s"
  shows "ring_list head (\<lambda>i. b_next (bufs t i)) (\<lambda>i. b_prev (bufs t i)) (rev [0..<n])
    \<and> (\<forall>j<n. sleeplocks t (BufLock j) = \<lparr>sl_locked = 0, sl_name = ''buffer'', sl_pid = 0\<rparr>)
    \<and> (\<forall>j. b_refcnt (bufs t j) = b_refcnt (bufs s j) \<and> b_valid (bufs t j) = b_valid (bufs s j))"
  using assms(2) unfolding t_def
proof (induction n)
  case (Suc n)
  let ?t = "fold (\<lambda>b s. link_front b (initsleeplock (BufLock b) ''buffer'' s)) [0..<n] s"
  let ?u = "initsleeplock (BufLock n) ''buffer'' ?t"
  have n: "n \<noteq> head" "n \<notin> set (rev [0..<n])" using Suc.prems by auto
  have u: "bufs ?u = bufs ?t" "sleeplocks ?u = (sleeplocks ?t)(BufLock n := \<lparr>sl_locked = 0, sl_name = ''buffer'', sl_pid = 0\<rparr>)"
    by (simp_all add: initsleeplock_def)
  have k: "sleeplocks (link_front n ?u) = sleeplocks ?u"
    "\<And>j. b_refcnt (bufs (link_front n ?u) j) = b_refcnt (bufs ?u j) \<and> b_valid (bufs (link_front n ?u) j) = b_valid (bufs ?u j)"
    by (simp_all add: link_front_def Let_def upd_buf_field upd_buf_sleeplocks)
  have r: "ring_list head (\<lambda>i. b_next (bufs ?t i)) (\<lambda>i. b_prev (bufs ?t i)) (rev [0..<n])" using Suc by simp
  have "ring_list head (\<lambda>i. b_next (bufs (link_front n ?u) i)) (\<lambda>i. b_prev (bufs (link_front n ?u) i)) (n # rev [0..<n])"
    unfolding link_front_links [OF n(1)] u by (rule ring_list_front [OF r n(2) n(1)])
  then show ?case using Suc k u by (auto simp: less_Suc_eq)
qed (use assms(1) in simp)

text \<open>\<open>binit\<close> links all the buffers into the list and initialises their locks; it does not touch their contents.\<close>

lemma binit_ok:
  "\<exists>L. lru_list (bufs (binit s)) L"
  "j < NBUF \<Longrightarrow> sl_locked (sleeplocks (binit s) (BufLock j)) = 0"
  "b_refcnt (bufs (binit s) j) = b_refcnt (bufs s j) \<and> b_valid (bufs (binit s) j) = b_valid (bufs s j)"
proof -
  let ?s = "upd_buf head (\<lambda>x. x\<lparr>b_prev := head, b_next := head\<rparr>) (s\<lparr>mach := initlock BcacheLock ''bcache'' (mach s)\<rparr>)"
  have "ring_list head (\<lambda>i. b_next (bufs ?s i)) (\<lambda>i. b_prev (bufs ?s i)) []" by (simp add: ring_list_def upd_buf_def)
  note l = binit_loop [OF this order_refl, folded binit_def [unfolded Let_def]]
  have "set (rev [0..<NBUF]) = {..<NBUF}" by auto
  then show "\<exists>L. lru_list (bufs (binit s)) L" using l unfolding lru_list_def by metis
  show "j < NBUF \<Longrightarrow> sl_locked (sleeplocks (binit s) (BufLock j)) = 0" using l by simp
  show "b_refcnt (bufs (binit s) j) = b_refcnt (bufs s j) \<and> b_valid (bufs (binit s) j) = b_valid (bufs s j)"
    using l by (simp add: upd_buf_def)
qed

section \<open>The cache is transparent\<close>

definition demo_cache :: "(uint \<Rightarrow> bytes) \<Rightarrow> fkstate" where
  "demo_cache md = demo_fk md demo_table (set_cpu 0 ((cpus demo_machine 0)\<lparr>cproc := Some 2\<rparr>) demo_machine)"

lemma demo_cache_fields [simp]:
  "cur 0 (demo_cache md) = Some 2" "procs (demo_cache md) = demo_table" "vdisk (demo_cache md) = demo_disk"
  "media (demo_cache md) = md" "media_log (demo_cache md) = []" "bufs (demo_cache md) = demo_buf"
  "sleeplocks (demo_cache md) = (\<lambda>_. \<lparr>sl_locked = 0, sl_name = [], sl_pid = 0\<rparr>)" "quiet 0 L (demo_cache md)"
  using demo_machine_ok by (auto simp: demo_cache_def quiet_def cpu_ok_def lock_free_def set_cpu_def)

lemma demo_lru: "lru_list demo_buf [0..<NBUF]"
proof -
  have "links (\<lambda>i. b_next (demo_buf i)) (\<lambda>i. b_prev (demo_buf i)) (head # [0..<NBUF] @ [head])"
    by (simp add: NBUF_def demo_buf_def upt_rec)
  then show ?thesis by (auto simp: lru_list_def ring_list_def)
qed

lemma demo_bcache:
  "bcache 0 2 1 (demo_cache md)" "refs 1 (demo_cache md) = (\<lambda>_. 0)" "busy 1 (demo_cache md) = {}" "blk 1 (demo_cache md) = md"
proof -
  have h: "hit 1 demo_buf = (\<lambda>_. None)" by (auto simp: hit_None demo_buf_def fun_eq_iff)
  show "bcache 0 2 1 (demo_cache md)" using demo_lru demo_disk_idle
    by (auto simp: bcache_def uniq_def demo_buf_def buf_ok_def)
  show "refs 1 (demo_cache md) = (\<lambda>_. 0)" "busy 1 (demo_cache md) = {}" "blk 1 (demo_cache md) = md"
    by (simp_all add: refs_def busy_def blk_def h fun_eq_iff)
qed



end
