(* ===== verification/Log_Ok.thy ===== *)
theory Log_Ok
  imports Log Bio_Cache
begin

text \<open>
  Crash safety of the write-ahead log: the writes of \<open>commit\<close>, cut off anywhere and followed by
  \<open>recover_from_log\<close>, leave either all of the transaction on the disk or nothing of it.
\<close>

declare NBUF_def [simp del]

section \<open>The header block\<close>

lemma get32_bit: "bit (get32 d i) j \<longleftrightarrow> j < 32 \<and> bit (d (i + j div 8)) (j mod 8)"
proof -
  consider "j < 8" | "8 \<le> j" "j < 16" | "16 \<le> j" "j < 24" | "24 \<le> j" "j < 32" | "32 \<le> j" by linarith
  then show ?thesis
  proof cases
    case 1
    then show ?thesis by (auto simp: get32_def bit_simps)
  next
    case 2
    then have "j div 8 = 1" "j mod 8 = j - 8" by (auto simp: mod_if div_if)
    then show ?thesis using 2 by (auto simp: get32_def bit_simps dest: bit_imp_le_length)
  next
    case 3
    then have "j div 8 = 2" "j mod 8 = j - 16" by (auto simp: mod_if div_if)
    then show ?thesis using 3 by (auto simp: get32_def bit_simps dest: bit_imp_le_length)
  next
    case 4
    then have "j div 8 = 3" "j mod 8 = j - 24" by (auto simp: mod_if div_if)
    then show ?thesis using 4 by (auto simp: get32_def bit_simps dest: bit_imp_le_length)
  next
    case 5
    then show ?thesis by (auto dest: bit_imp_le_length)
  qed
qed

lemma get32_put32 [simp]: "get32 (put32 i v d) i = v"
proof (rule bit_word_eqI)
  fix j assume "j < LENGTH(32)"
  then have j: "j < 32" by simp
  then consider "j < 8" | "8 \<le> j" "j < 16" | "16 \<le> j" "j < 24" | "24 \<le> j" by linarith
  then show "bit (get32 (put32 i v d) i) j = bit v j"
  proof cases
    case 1
    then show ?thesis using j by (simp add: get32_bit put32_def bit_simps)
  next
    case 2
    then have "j div 8 = 1" "j mod 8 = j - 8" by (auto simp: mod_if div_if)
    then show ?thesis using 2 by (auto simp: get32_bit put32_def bit_simps)
  next
    case 3
    then have "j div 8 = 2" "j mod 8 = j - 16" by (auto simp: mod_if div_if)
    then show ?thesis using 3 by (auto simp: get32_bit put32_def bit_simps)
  next
    case 4
    then have "j div 8 = 3" "j mod 8 = j - 24" using j by (auto simp: mod_if div_if)
    then show ?thesis using 4 j by (auto simp: get32_bit put32_def bit_simps)
  qed
qed

lemma get32_put32_other: "i + 4 \<le> j \<or> j + 4 \<le> i \<Longrightarrow> get32 (put32 i v d) j = get32 d j"
  by (auto simp: get32_def put32_def)

text \<open>The header with the block numbers \<open>bl\<close>, written over the data \<open>d\<close>.\<close>

definition put_head :: "uint list \<Rightarrow> bytes \<Rightarrow> bytes" where
  "put_head bl d = fold (\<lambda>i. put32 (4 + 4 * i) (bl ! i)) [0..<length bl] (put32 0 (word_of_int (int (length bl))) d)"

lemma fold_put32:
  "(\<And>i. i < n \<Longrightarrow> get32 (fold (\<lambda>i. put32 (4 + 4 * i) (f i)) [0..<n] d) (4 + 4 * i) = f i)"
  "get32 (fold (\<lambda>i. put32 (4 + 4 * i) (f i)) [0..<n] d) 0 = get32 d 0"
proof -
  show "get32 (fold (\<lambda>i. put32 (4 + 4 * i) (f i)) [0..<n] d) (4 + 4 * i) = f i" if "i < n" for i
    using that by (induction n) (auto simp: less_Suc_eq get32_put32_other)
  show "get32 (fold (\<lambda>i. put32 (4 + 4 * i) (f i)) [0..<n] d) 0 = get32 d 0"
    by (induction n) (auto simp: get32_put32_other)
qed

lemma get_put_head:
  "get32 (put_head bl d) 0 = word_of_int (int (length bl))"
  "i < length bl \<Longrightarrow> get32 (put_head bl d) (4 + 4 * i) = bl ! i"
  by (simp_all add: put_head_def fold_put32)

section \<open>Copying a block\<close>

text \<open>The view of the device between two operations, when no buffer is locked.\<close>

definition resting :: "nat \<Rightarrow> nat \<Rightarrow> uint \<Rightarrow> 'a fkstate_scheme \<Rightarrow> (uint \<Rightarrow> bytes) \<Rightarrow> (uint \<Rightarrow> uint) \<Rightarrow> (uint \<Rightarrow> bytes) \<Rightarrow>
    (uint \<times> bytes) list \<Rightarrow> bool" where
  "resting c p dv s V R M W \<longleftrightarrow> bcache c p dv s \<and> busy dv s = {} \<and> blk dv s = V \<and> refs dv s = R \<and> media s = M \<and> media_log s = W"

lemma bio_to_log: "bio_to c p dv s t V R K M W \<Longrightarrow> log t = log s"
  using bio_frame_keeps(4) bio_toD(1) by blast

lemma room_one:
  fixes R :: "uint \<Rightarrow> uint"
  assumes "card {b. R b \<noteq> 0} + 1 < n"
  shows "card {b. (R(x := v)) b \<noteq> 0} < n"
proof -
  have f: "finite {b. R b \<noteq> 0}" by (rule finite_subset [OF subset_UNIV]) simp
  have "card {b. (R(x := v)) b \<noteq> 0} \<le> card (insert x {b. R b \<noteq> 0})" by (rule card_mono) (use f in auto)
  also have "\<dots> \<le> card {b. R b \<noteq> 0} + 1" using card_insert_if [OF f, of x] by simp
  finally show ?thesis using assms by simp
qed

text \<open>Reading two blocks; both buffers are then locked.\<close>

lemma bread_two:
  assumes r: "resting c p dv s V R M W" and xy: "x \<noteq> y" "x < 0x80000000" "y < 0x80000000" "R x + 1 \<noteq> 0" "R y + 1 \<noteq> 0"
    and room: "card {b. R b \<noteq> 0} < NBUF" "R y \<noteq> 0 \<or> card {b. R b \<noteq> 0} + 1 < NBUF"
  shows "\<exists>i s1 j s2. bread c dv x s = Inr (i, s1) \<and> log s1 = log s \<and> bread c dv y s1 = Inr (j, s2) \<and> log s2 = log s
    \<and> bcache c p dv s2 \<and> hit dv (bufs s2) x = Some i \<and> hit dv (bufs s2) y = Some j \<and> busy dv s2 = {x, y} \<and> blk dv s2 = V
    \<and> refs dv s2 = R(x := R x + 1, y := R y + 1) \<and> media s2 = M \<and> media_log s2 = W"
proof -
  have s: "bcache c p dv s" "busy dv s = {}" "blk dv s = V" "refs dv s = R" "media s = M" "media_log s = W"
    using r by (simp_all add: resting_def)
  from bread_ok [OF s(1), of x] s xy room obtain i s1 where 1: "bread c dv x s = Inr (i, s1)" "hit dv (bufs s1) x = Some i"
    "bio_to c p dv s s1 V (R(x := R x + 1)) {x} M W" by auto
  note T = bio_toD [OF 1(3)]
  have "refs dv s1 y \<noteq> 0 \<or> card {b. refs dv s1 b \<noteq> 0} < NBUF" using room(2) room_one [of R NBUF x] T(4) xy(1) by auto
  from bread_ok [OF T(2) xy(3) _ _ this] T xy obtain j s2 where 2: "bread c dv y s1 = Inr (j, s2)" "hit dv (bufs s2) y = Some j"
    "bio_to c p dv s1 s2 V ((R(x := R x + 1))(y := R y + 1)) {x, y} M W" by (auto simp: insert_commute)
  note U = bio_toD [OF 2(3)]
  have "hit dv (bufs s2) x = Some i" using U(8) [of x i] T(4) 1(2) xy by simp
  then show ?thesis using 1 2 U bio_to_log [OF 1(3)] bio_to_log [OF 2(3)] by auto
qed

lemma write_log_one_ok:
  assumes r: "resting c p dv s V R M W" and dv: "log_dev s = dv" and x: "log_blk tail s = x" and y: "logged tail s = Inr y"
    and xy: "x \<noteq> y" "x < 0x80000000" "y < 0x80000000" "R x + 1 \<noteq> 0" "R y + 1 \<noteq> 0"
    and room: "card {b. R b \<noteq> 0} < NBUF" "R y \<noteq> 0 \<or> card {b. R b \<noteq> 0} + 1 < NBUF"
  shows "\<exists>t. write_log_one c tail s = Inr t \<and> log t = log s \<and> resting c p dv t (V(x := V y)) R (M(x := V y)) (W @ [(x, V y)])"
proof -
  from bread_two [OF r xy room] obtain i s1 j s2 where b: "bread c dv x s = Inr (i, s1)" "log s1 = log s"
    "bread c dv y s1 = Inr (j, s2)" "log s2 = log s" "bcache c p dv s2" "hit dv (bufs s2) x = Some i" "hit dv (bufs s2) y = Some j"
    "busy dv s2 = {x, y}" "blk dv s2 = V" "refs dv s2 = R(x := R x + 1, y := R y + 1)" "media s2 = M" "media_log s2 = W"
    by blast
  have rx: "refs dv s2 x \<noteq> 0" and ry: "refs dv s2 y \<noteq> 0" using b(10) xy by simp_all
  let ?s3 = "upd_buf i (\<lambda>z. z\<lparr>b_data := V y\<rparr>) s2"
  have cp: "copy_block i j s2 = ?s3" using handle(5) [OF b(5,7) ry] b(9) by (simp add: copy_block_def)
  note o3 = set_data_ok [OF b(5,6) rx, of "V y"]
  note T = bio_toD [OF o3]
  have h3: "hit dv (bufs ?s3) x = Some i" "x \<in> busy dv ?s3" using T(8) [OF rx rx b(6)] T(5) b(8) by simp_all
  from bwrite_ok [OF T(2) h3] obtain s4 where w: "bwrite c i ?s3 = Inr s4" and o4: "bio_to c p dv ?s3 s4 (V(x := V y))
      (refs dv s2) {x, y} (M(x := V y)) (W @ [(x, V y)])" using T(3-7) b(8-12) by auto
  note U = bio_toD [OF o4]
  have h4: "hit dv (bufs s4) x = Some i" "hit dv (bufs s4) y = Some j" using U(8) T(8) T(4) rx ry b(6,7) by simp_all
  have "media s4 y = blk dv s4 y" if "refs dv s4 y = 1"
  proof -
    have "R y = 0" using that U(4) b(10) by simp
    then have "V y = M y" using blk_refs0 [of c p dv s y] r by (simp add: resting_def)
    then show ?thesis using U(3,6) xy by simp
  qed
  moreover have kxy: "{x, y} - {y} = {x}" using xy(1) by auto
  ultimately obtain s5 where e5: "brelse c j s4 = Inr s5" and o5: "bio_to c p dv s4 s5 (V(x := V y))
      ((refs dv s2)(y := R y)) {x} (M(x := V y)) (W @ [(x, V y)])" using brelse_ok [OF U(2) h4(2)] U(3-7) b(10) xy by auto
  note X = bio_toD [OF o5]
  have h5: "hit dv (bufs s5) x = Some i" "x \<in> busy dv s5" using X(8) U(4) h4 rx xy(1) X(5) by simp_all
  from brelse_ok [OF X(2) h5] obtain t where e6: "brelse c i s5 = Inr t" and o6: "bio_to c p dv s5 t (V(x := V y))
      ((refs dv s2)(y := R y, x := R x)) {} (M(x := V y)) (W @ [(x, V y)])" using X(3-7) b(10) xy by auto
  have "(refs dv s2)(y := R y, x := R x) = R" using b(10) by auto
  moreover have "write_log_one c tail s = Inr t" using b(1-4) y dv x cp w e5 e6
    by (simp add: write_log_one_def log_dev_def logged_def split: if_splits)
  moreover have "log t = log s" using bio_to_log [OF o6] bio_to_log [OF o5] bio_to_log [OF o4] bio_to_log [OF o3] b(4) by simp
  ultimately show ?thesis using bio_toD [OF o6] by (auto simp: resting_def)
qed

lemma install_one_ok:
  assumes r: "resting c p dv s V R M W" and dv: "log_dev s = dv" and x: "log_blk tail s = x" and y: "logged tail s = Inr y"
    and xy: "x \<noteq> y" "x < 0x80000000" "y < 0x80000000" "R x + 1 \<noteq> 0" "R y + 1 \<noteq> 0"
    and room: "card {b. R b \<noteq> 0} < NBUF" "R y \<noteq> 0 \<or> card {b. R b \<noteq> 0} + 1 < NBUF" and rc: "\<not> rc \<Longrightarrow> R y \<noteq> 0"
  shows "\<exists>t. install_one c rc tail s = Inr t \<and> log t = log s
    \<and> resting c p dv t (V(y := V x)) (if rc then R else R(y := R y - 1)) (M(y := V x)) (W @ [(y, V x)])"
proof -
  from bread_two [OF r xy room] obtain i s1 j s2 where b: "bread c dv x s = Inr (i, s1)" "log s1 = log s"
    "bread c dv y s1 = Inr (j, s2)" "log s2 = log s" "bcache c p dv s2" "hit dv (bufs s2) x = Some i" "hit dv (bufs s2) y = Some j"
    "busy dv s2 = {x, y}" "blk dv s2 = V" "refs dv s2 = R(x := R x + 1, y := R y + 1)" "media s2 = M" "media_log s2 = W"
    by blast
  have rx: "refs dv s2 x \<noteq> 0" and ry: "refs dv s2 y \<noteq> 0" using b(10) xy by simp_all
  let ?V = "V(y := V x)" and ?M = "M(y := V x)" and ?W = "W @ [(y, V x)]"
  let ?s3 = "upd_buf j (\<lambda>z. z\<lparr>b_data := V x\<rparr>) s2"
  have cp: "copy_block j i s2 = ?s3" using handle(5) [OF b(5,6) rx] b(9) by (simp add: copy_block_def)
  note o3 = set_data_ok [OF b(5,7) ry, of "V x"]
  note T = bio_toD [OF o3]
  have h3: "hit dv (bufs ?s3) y = Some j" "y \<in> busy dv ?s3" using T(8) [OF ry ry b(7)] T(5) b(8) by simp_all
  from bwrite_ok [OF T(2) h3] obtain s4 where w: "bwrite c j ?s3 = Inr s4"
    and o4: "bio_to c p dv ?s3 s4 ?V (refs dv s2) {x, y} ?M ?W" using T(3-7) b(8-12) by auto
  note U = bio_toD [OF o4]
  have h4: "hit dv (bufs s4) x = Some i" "hit dv (bufs s4) y = Some j" using U(8) T(8) T(4) rx ry b(6,7) by simp_all
  let ?R5 = "R(x := R x + 1, y := if rc then R y + 1 else R y)"
  obtain s5 where e5: "(if rc then Inr s4 else bunpin c j s4) = Inr s5" and l5: "log s5 = log s4"
    and S: "bcache c p dv s5" "blk dv s5 = ?V" "refs dv s5 = ?R5" "busy dv s5 = {x, y}" "media s5 = ?M" "media_log s5 = ?W"
      "hit dv (bufs s5) x = Some i" "hit dv (bufs s5) y = Some j"
  proof (cases rc)
    case True
    then show ?thesis using that [of s4] U h4 b(10) by simp
  next
    case False
    have n: "refs dv s4 y \<noteq> 0" "refs dv s4 y \<noteq> 1" using U(4) ry b(10) xy rc [OF False] by auto
    from bunpin_ok [OF U(2) h4(2) n] obtain t where t: "bunpin c j s4 = Inr t" and o: "bio_to c p dv s4 t ?V
        (R(x := R x + 1, y := R y)) {x, y} ?M ?W" using U(3-7) b(10) by auto
    note Y = bio_toD [OF o]
    have "hit dv (bufs t) x = Some i" "hit dv (bufs t) y = Some j" using Y(8) h4 U(4) rx ry rc [OF False] xy by simp_all
    then show ?thesis using that [of t] t Y False bio_to_log [OF o] by simp
  qed
  have "media s5 x = blk dv s5 x" if "refs dv s5 x = 1"
  proof -
    have "R x = 0" using that S(3) xy by simp
    then have "V x = M x" using blk_refs0 [of c p dv s x] r by (simp add: resting_def)
    then show ?thesis using S(2,5) xy by simp
  qed
  moreover have "{x, y} - {x} = {y}" using xy(1) by auto
  ultimately obtain s6 where e6: "brelse c i s5 = Inr s6" and o6: "bio_to c p dv s5 s6 ?V (?R5(x := R x)) {y} ?M ?W"
    using brelse_ok [OF S(1,7)] S(2-6) xy by auto
  note X = bio_toD [OF o6]
  have "refs dv s5 y \<noteq> 0" using S(3) xy rc by (cases rc) auto
  then have h6: "hit dv (bufs s6) y = Some j" "y \<in> busy dv s6" using X(8) [of y j] S(3,8) xy(1) X(5) by simp_all
  from brelse_ok [OF X(2) h6] obtain t where e7: "brelse c j s6 = Inr t" and o7: "bio_to c p dv s6 t ?V
      (?R5(x := R x, y := (if rc then R y + 1 else R y) - 1)) {} ?M ?W" using X(3-7) xy by auto
  have "?R5(x := R x, y := (if rc then R y + 1 else R y) - 1) = (if rc then R else R(y := R y - 1))" by auto
  moreover have "install_one c rc tail s = Inr t" using b(1-4) y dv x cp w e5 e6 e7
    by (simp add: install_one_def log_dev_def logged_def split: if_splits)
  moreover have "log t = log s"
    using bio_to_log [OF o7] bio_to_log [OF o6] l5 bio_to_log [OF o4] bio_to_log [OF o3] b(4) by simp
  ultimately show ?thesis using bio_toD [OF o7] by (auto simp: resting_def)
qed

section \<open>The passes over the log\<close>

text \<open>Block \<open>k\<close> of the log, which begins with the header; the blocks outside the log.\<close>

definition log_no :: "log \<Rightarrow> nat \<Rightarrow> uint" where
  "log_no l k = word_of_int (l_start l + int k)"

definition log_wf :: "log \<Rightarrow> bool" where
  "log_wf l \<longleftrightarrow> 0 \<le> l_start l \<and> l_start l + int LOGSIZE < 0x80000000 \<and> length (lh_block l) = LOGSIZE"

definition home :: "log \<Rightarrow> uint \<Rightarrow> bool" where
  "home l b \<longleftrightarrow> b < 0x80000000 \<and> (\<forall>k\<le>LOGSIZE. b \<noteq> log_no l k)"

lemma home_ne: "home l b \<Longrightarrow> k \<le> LOGSIZE \<Longrightarrow> b \<noteq> log_no l k"
  by (simp add: home_def)

definition apply_writes :: "(uint \<times> bytes) list \<Rightarrow> (uint \<Rightarrow> bytes) \<Rightarrow> uint \<Rightarrow> bytes" where
  "apply_writes ws m = fold (\<lambda>(b, d) m. m(b := d)) ws m"

lemma apply_writes_simps [simp]:
  "apply_writes [] m = m" "apply_writes ((b, d) # ws) m = apply_writes ws (m(b := d))"
  "apply_writes (us @ ws) m = apply_writes ws (apply_writes us m)"
  by (simp_all add: apply_writes_def)

lemma apply_writes_other: "b \<notin> fst ` set ws \<Longrightarrow> apply_writes ws m b = m b"
  by (induction ws arbitrary: m) auto

lemma apply_writes_in:
  "b \<in> fst ` set ws \<Longrightarrow> (\<And>d. (b, d) \<in> set ws \<Longrightarrow> d = f) \<Longrightarrow> apply_writes ws m b = f"
proof (induction ws arbitrary: m)
  case (Cons w ws)
  obtain x d where w: "w = (x, d)" by (cases w)
  show ?case
  proof (cases "b \<in> fst ` set ws")
    case True
    then show ?thesis using Cons w by simp
  next
    case False
    then have "x = b" "d = f" using Cons.prems w by auto
    then show ?thesis using False w by (simp add: apply_writes_other)
  qed
qed simp

lemma log_no_eq:
  assumes "log_wf l" "k \<le> LOGSIZE"
  shows "log_no l k < 0x80000000" "j \<le> LOGSIZE \<Longrightarrow> log_no l j = log_no l k \<longleftrightarrow> j = k"
proof -
  have u: "uint (log_no l i) = l_start l + int i" if "i \<le> LOGSIZE" for i
    unfolding log_no_def uint_word_of_int using assms(1) that by (simp add: log_wf_def)
  show "log_no l k < 0x80000000" using u [OF assms(2)] assms by (simp add: word_less_def log_wf_def)
  show "j \<le> LOGSIZE \<Longrightarrow> log_no l j = log_no l k \<longleftrightarrow> j = k" using u [of j] u [OF assms(2)] by (simp only: word_uint_eq_iff) simp
qed

lemma log_blk_no: "log_blk tail s = log_no (log s) (tail + 1)"
  by (simp add: log_blk_def log_no_def algebra_simps)

lemma logged_eq: "log_wf (log s) \<Longrightarrow> i < LOGSIZE \<Longrightarrow> logged i s = Inr (lh_block (log s) ! i)"
  by (simp add: logged_def log_wf_def)

lemma write_log_ok:
  assumes r: "resting c p dv s V R M W" and dv: "log_dev s = dv" and l: "log_wf (log s)" and n: "n \<le> LOGSIZE"
    and B: "\<And>i. i < n \<Longrightarrow> home (log s) (lh_block (log s) ! i) \<and> R (lh_block (log s) ! i) = 1"
    and z: "\<And>k. k \<le> LOGSIZE \<Longrightarrow> R (log_no (log s) k) = 0" and room: "card {b. R b \<noteq> 0} < NBUF"
  defines "ws \<equiv> \<lambda>n. map (\<lambda>i. (log_no (log s) (i + 1), V (lh_block (log s) ! i))) [0..<n]"
  shows "\<exists>t. foldM (write_log_one c) [0..<n] s = Inr t \<and> log t = log s
    \<and> resting c p dv t (apply_writes (ws n) V) R (apply_writes (ws n) M) (W @ ws n)"
  using n B
proof (induction n)
  case 0
  then show ?case using r by (simp add: ws_def)
next
  case (Suc n)
  let ?x = "log_no (log s) (n + 1)" and ?y = "lh_block (log s) ! n"
  from Suc obtain t where t: "foldM (write_log_one c) [0..<n] s = Inr t" "log t = log s"
    "resting c p dv t (apply_writes (ws n) V) R (apply_writes (ws n) M) (W @ ws n)" by auto
  have y: "home (log s) ?y" "R ?y = 1" using Suc.prems(2) [of n] by simp_all
  have "?y \<noteq> log_no (log s) (i + 1)" if "i < n" for i using home_ne [OF y(1), of "i + 1"] that Suc.prems(1) by simp
  then have "?y \<notin> fst ` set (ws n)" by (fastforce simp: ws_def)
  then have Vy: "apply_writes (ws n) V ?y = V ?y" by (rule apply_writes_other)
  have "\<exists>u. write_log_one c n t = Inr u \<and> log u = log t \<and> resting c p dv u ((apply_writes (ws n) V)(?x := apply_writes (ws n) V ?y)) R
      ((apply_writes (ws n) M)(?x := apply_writes (ws n) V ?y)) ((W @ ws n) @ [(?x, apply_writes (ws n) V ?y)])"
  proof (rule write_log_one_ok [OF t(3)])
    show "log_dev t = dv" using dv t(2) by (simp add: log_dev_def)
    show "log_blk n t = ?x" using t(2) by (simp add: log_blk_no)
    show "logged n t = Inr ?y" using logged_eq [of t n] t(2) l Suc.prems(1) by simp
    have "?y \<noteq> ?x" by (rule home_ne [OF y(1)]) (use Suc.prems(1) in simp)
    then show "?x \<noteq> ?y" by (rule not_sym)
    show "?x < 0x80000000" "?y < 0x80000000" using y(1) log_no_eq(1) [OF l, of "n + 1"] Suc.prems(1) by (simp_all add: home_def)
    show "R ?x + 1 \<noteq> 0" "R ?y + 1 \<noteq> 0" "card {b. R b \<noteq> 0} < NBUF" using z [of "n + 1"] y(2) room Suc.prems(1) by simp_all
    show "R ?y \<noteq> 0 \<or> card {b. R b \<noteq> 0} + 1 < NBUF" using y(2) by simp
  qed
  then obtain u where u: "write_log_one c n t = Inr u" "log u = log t" "resting c p dv u ((apply_writes (ws n) V)(?x := V ?y)) R
      ((apply_writes (ws n) M)(?x := V ?y)) ((W @ ws n) @ [(?x, V ?y)])" unfolding Vy by blast
  have "ws (Suc n) = ws n @ [(?x, V ?y)]" by (simp add: ws_def)
  then show ?case using t(1,2) u by (simp add: foldM_append del: fun_upd_apply)
qed

lemma install_trans_ok:
  assumes r: "resting c p dv s V R M W" and dv: "log_dev s = dv" and l: "log_wf (log s)" and n: "n \<le> LOGSIZE"
    and B: "\<And>i. i < n \<Longrightarrow> home (log s) (lh_block (log s) ! i)"
    and z: "\<And>k. k \<le> LOGSIZE \<Longrightarrow> R (log_no (log s) k) = 0" and room: "card {b. R b \<noteq> 0} < NBUF"
    and rc: "if rc then (\<forall>b. R b = 0) else distinct (take n (lh_block (log s))) \<and> (\<forall>i<n. R (lh_block (log s) ! i) = 1)"
  defines "ws \<equiv> \<lambda>n. map (\<lambda>i. (lh_block (log s) ! i, V (log_no (log s) (i + 1)))) [0..<n]"
    and "Q \<equiv> \<lambda>n b. if \<not> rc \<and> b \<in> set (take n (lh_block (log s))) then 0 else R b"
  shows "\<exists>t. foldM (install_one c rc) [0..<n] s = Inr t \<and> log t = log s
    \<and> resting c p dv t (apply_writes (ws n) V) (Q n) (apply_writes (ws n) M) (W @ ws n)"
  using n B rc
proof (induction n)
  case 0
  then show ?case using r by (simp add: ws_def Q_def)
next
  case (Suc n)
  let ?x = "log_no (log s) (n + 1)" and ?y = "lh_block (log s) ! n"
  have nl: "n < length (lh_block (log s))" using l Suc.prems(1) by (simp add: log_wf_def)
  then have tk: "take (Suc n) (lh_block (log s)) = take n (lh_block (log s)) @ [?y]" by (simp add: take_Suc_conv_app_nth)
  have rc': "if rc then (\<forall>b. R b = 0) else distinct (take n (lh_block (log s))) \<and> (\<forall>i<n. R (lh_block (log s) ! i) = 1)"
    using Suc.prems(3) tk by (auto split: if_splits)
  with Suc obtain t where t: "foldM (install_one c rc) [0..<n] s = Inr t" "log t = log s"
    "resting c p dv t (apply_writes (ws n) V) (Q n) (apply_writes (ws n) M) (W @ ws n)" by auto
  have y: "home (log s) ?y" using Suc.prems(2) [of n] by simp
  have home: "\<And>i. i < n \<Longrightarrow> home (log s) (lh_block (log s) ! i)" using Suc.prems(2) by simp
  have "lh_block (log s) ! i \<noteq> ?x" if "i < n" for i using home_ne [OF home [OF that], of "n + 1"] Suc.prems(1) by simp
  then have "?x \<notin> fst ` set (ws n)" by (fastforce simp: ws_def)
  then have Vx: "apply_writes (ws n) V ?x = V ?x" by (rule apply_writes_other)
  have Qy: "Q n ?y = (if rc then 0 else 1)" using Suc.prems(3) tk by (auto simp: Q_def split: if_splits)
  have Qx: "Q n ?x = 0" using z [of "n + 1"] Suc.prems(1) by (simp add: Q_def)
  have "{b. Q n b \<noteq> 0} \<subseteq> {b. R b \<noteq> 0}" by (auto simp: Q_def)
  moreover have "finite {b. R b \<noteq> 0}" by (rule finite_subset [OF subset_UNIV]) simp
  ultimately have "card {b. Q n b \<noteq> 0} \<le> card {b. R b \<noteq> 0}" by (intro card_mono)
  then have room': "card {b. Q n b \<noteq> 0} < NBUF" using room by simp
  have "\<exists>u. install_one c rc n t = Inr u \<and> log u = log t \<and> resting c p dv u ((apply_writes (ws n) V)(?y := apply_writes (ws n) V ?x))
      (if rc then Q n else (Q n)(?y := Q n ?y - 1))
      ((apply_writes (ws n) M)(?y := apply_writes (ws n) V ?x)) ((W @ ws n) @ [(?y, apply_writes (ws n) V ?x)])"
  proof (rule install_one_ok [OF t(3)])
    show "log_dev t = dv" using dv t(2) by (simp add: log_dev_def)
    show "log_blk n t = ?x" using t(2) by (simp add: log_blk_no)
    show "logged n t = Inr ?y" using logged_eq [of t n] t(2) l Suc.prems(1) by simp
    have "?y \<noteq> ?x" by (rule home_ne [OF y(1)]) (use Suc.prems(1) in simp)
    then show "?x \<noteq> ?y" by (rule not_sym)
    show "?x < 0x80000000" "?y < 0x80000000" using y(1) log_no_eq(1) [OF l, of "n + 1"] Suc.prems(1) by (simp_all add: home_def)
    show "Q n ?x + 1 \<noteq> 0" "Q n ?y + 1 \<noteq> 0" "card {b. Q n b \<noteq> 0} < NBUF" using Qx Qy room' by simp_all
    show "Q n ?y \<noteq> 0 \<or> card {b. Q n b \<noteq> 0} + 1 < NBUF"
    proof (cases rc)
      case True
      then have "{b. Q n b \<noteq> 0} = {}" using Suc.prems(3) by (auto simp: Q_def)
      then show ?thesis by (simp add: NBUF_def)
    qed (simp add: Qy)
    show "\<not> rc \<Longrightarrow> Q n ?y \<noteq> 0" using Qy by simp
  qed
  moreover have "(if rc then Q n else (Q n)(?y := Q n ?y - 1)) = Q (Suc n)"
    using Qy tk by (cases rc) (auto simp: Q_def fun_eq_iff split: if_splits)
  ultimately obtain u where u: "install_one c rc n t = Inr u" "log u = log t" "resting c p dv u ((apply_writes (ws n) V)(?y := V ?x))
      (Q (Suc n)) ((apply_writes (ws n) M)(?y := V ?x)) ((W @ ws n) @ [(?y, V ?x)])" unfolding Vx by auto
  have "ws (Suc n) = ws n @ [(?y, V ?x)]" by (simp add: ws_def)
  then show ?case using t(1,2) u by (simp add: foldM_append del: fun_upd_apply)
qed

section \<open>The header in memory and on the disk\<close>

lemma views_upd_log [simp]:
  "bcache c p dv (upd_log f s) = bcache c p dv s" "blk dv (upd_log f s) = blk dv s" "refs dv (upd_log f s) = refs dv s"
  "busy dv (upd_log f s) = busy dv s" "media (upd_log f s) = media s" "media_log (upd_log f s) = media_log s"
  "bufs (upd_log f s) = bufs s"
  by (simp_all add: bcache_def blk_def refs_def busy_def quiet_def upd_log_def fun_eq_iff split: option.split)

lemma resting_upd_log [simp]: "resting c p dv (upd_log f s) V R M W = resting c p dv s V R M W"
  by (simp add: resting_def)

lemma upd_log_log [simp]: "log (upd_log f s) = f (log s)"
  by (simp add: upd_log_def)

lemma upd_buf_upd_buf: "upd_buf b f (upd_buf b g s) = upd_buf b (\<lambda>x. f (g x)) s"
  by (simp add: upd_buf_def)

lemma write_head_entries:
  assumes "n \<le> length (lh_block (log s))"
  shows "foldM (write_head_entry b) [0..<n] s = Inr (upd_buf b (\<lambda>x. x\<lparr>b_data :=
    fold (\<lambda>i. put32 (4 + 4 * i) (lh_block (log s) ! i)) [0..<n] (b_data x)\<rparr>) s)"
  using assms
proof (induction n)
  case (Suc n)
  have "log (upd_buf b f s) = log s" for f by (simp add: upd_buf_def)
  then show ?case using Suc by (simp add: foldM_append write_head_entry_def logged_def upd_buf_upd_buf)
qed (simp add: upd_buf_def)

lemma write_head_ok:
  assumes r: "resting c p dv s V R M W" and dv: "log_dev s = dv" and l: "log_wf (log s)" and n: "lh_n (log s) = int n" "n \<le> LOGSIZE"
    and st: "log_no (log s) 0 = st" "R st = 0" and room: "card {b. R b \<noteq> 0} < NBUF"
  defines "H \<equiv> put_head (take n (lh_block (log s))) (V st)"
  shows "\<exists>t. write_head c s = Inr t \<and> log t = log s \<and> resting c p dv t (V(st := H)) R (M(st := H)) (W @ [(st, H)])"
proof -
  have s: "bcache c p dv s" "busy dv s = {}" "blk dv s = V" "refs dv s = R" "media s = M" "media_log s = W"
    using r by (simp_all add: resting_def)
  have lt: "st < 0x80000000" using log_no_eq(1) [OF l, of 0] st(1) by simp
  from bread_ok [OF s(1) lt] s st room obtain i s1 where b: "bread c dv st s = Inr (i, s1)" "hit dv (bufs s1) st = Some i"
    "bio_to c p dv s s1 V (R(st := 1)) {st} M W" by auto
  note T = bio_toD [OF b(3)]
  have l1: "log s1 = log s" by (rule bio_to_log [OF b(3)])
  have rs: "refs dv s1 st \<noteq> 0" using T(4) by simp
  have d: "b_data (bufs s1 i) = V st" using handle(5) [OF T(2) b(2) rs] T(3) by simp
  let ?s2 = "upd_buf i (\<lambda>x. x\<lparr>b_data := H\<rparr>) s1"
  let ?u = "upd_buf i (\<lambda>x. x\<lparr>b_data := put32 0 (word_of_int (int n)) (b_data x)\<rparr>) s1"
  have n30: "n \<le> length (lh_block (log s))" using l n(2) by (simp add: log_wf_def)
  have lu: "log ?u = log s" using l1 by (simp add: upd_buf_def)
  have e2: "foldM (write_head_entry i) [0..<n] ?u = Inr ?s2"
  proof -
    let ?f = "fold (\<lambda>i. put32 (4 + 4 * i) (lh_block (log s) ! i)) [0..<n]"
    have len: "length (take n (lh_block (log s))) = n" using n30 by simp
    have "fold (\<lambda>i. put32 (4 + 4 * i) (take n (lh_block (log s)) ! i)) [0..<n] d = ?f d" for d by (rule fold_cong) auto
    then have H: "H = ?f (put32 0 (word_of_int (int n)) (V st))" unfolding H_def put_head_def len .
    have "foldM (write_head_entry i) [0..<n] ?u = Inr (upd_buf i (\<lambda>x. x\<lparr>b_data := ?f (b_data x)\<rparr>) ?u)"
      using write_head_entries [of n ?u i] n30 unfolding lu by blast
    moreover have "upd_buf i (\<lambda>x. x\<lparr>b_data := ?f (b_data x)\<rparr>) ?u = ?s2" unfolding H by (simp add: upd_buf_def d)
    ultimately show ?thesis by simp
  qed
  note o2 = set_data_ok [OF T(2) b(2) rs, of H]
  note X = bio_toD [OF o2]
  have h2: "hit dv (bufs ?s2) st = Some i" "st \<in> busy dv ?s2" using X(8) [OF rs rs b(2)] X(5) T(5) by simp_all
  from bwrite_ok [OF X(2) h2] obtain s3 where e3: "bwrite c i ?s2 = Inr s3"
    and o3: "bio_to c p dv ?s2 s3 (V(st := H)) (R(st := 1)) {st} (M(st := H)) (W @ [(st, H)])" using X(3-7) T(3-7) by auto
  note Y = bio_toD [OF o3]
  have h3: "hit dv (bufs s3) st = Some i" "st \<in> busy dv s3" using Y(8) [of st i] h2 X(4) rs Y(5) by simp_all
  from brelse_ok [OF Y(2) h3] obtain t where e4: "brelse c i s3 = Inr t"
    and o4: "bio_to c p dv s3 t (V(st := H)) R {} (M(st := H)) (W @ [(st, H)])" using Y(3-7) st(2) by (auto simp: fun_upd_idem)
  have w: "word_of_int (l_start (log s)) = st" using st(1) by (simp add: log_no_def)
  have "write_head c s = Inr t" using b(1) w dv l1 lu n e2 e3 e4 by (simp add: write_head_def Let_def)
  moreover have "log t = log s" using bio_to_log [OF o4] bio_to_log [OF o3] bio_to_log [OF o2] l1 by simp
  ultimately show ?thesis using bio_toD [OF o4] by (auto simp: resting_def)
qed

lemma read_head_entries:
  assumes "n \<le> LOGSIZE" "length (lh_block (log s)) = LOGSIZE"
  shows "foldM (read_head_entry b) [0..<n] s = Inr (upd_log (\<lambda>l. l\<lparr>lh_block :=
    map (\<lambda>i. get32 (b_data (bufs s b)) (4 + 4 * i)) [0..<n] @ drop n (lh_block l)\<rparr>) s)"
  using assms
proof (induction n)
  case (Suc n)
  have "bufs (upd_log f s) = bufs s" for f by (simp add: upd_log_def)
  moreover have "(map f [0..<n] @ drop n xs)[n := v] = map f [0..<n] @ v # drop (Suc n) xs"
    if "n < length xs" for f :: "nat \<Rightarrow> uint" and xs v using that by (simp add: list_update_append Cons_nth_drop_Suc [symmetric])
  ultimately show ?case using Suc by (simp add: foldM_append read_head_entry_def) (simp add: upd_log_def)
qed (simp add: upd_log_def)

lemma read_head_ok:
  assumes r: "resting c p dv s V R M W" and dv: "log_dev s = dv" and l: "log_wf (log s)"
    and n: "nat (sint (get32 (V st) 0)) = n" "n \<le> LOGSIZE"
    and st: "log_no (log s) 0 = st" "R st = 0" and room: "card {b. R b \<noteq> 0} < NBUF"
  shows "\<exists>t. read_head c s = Inr t \<and> resting c p dv t V R M W \<and> log t = (log s)\<lparr>lh_n := sint (get32 (V st) 0),
    lh_block := map (\<lambda>i. get32 (V st) (4 + 4 * i)) [0..<n] @ drop n (lh_block (log s))\<rparr>"
proof -
  have s: "bcache c p dv s" "busy dv s = {}" "blk dv s = V" "refs dv s = R" "media s = M" "media_log s = W"
    using r by (simp_all add: resting_def)
  have lt: "st < 0x80000000" using log_no_eq(1) [OF l, of 0] st(1) by simp
  from bread_ok [OF s(1) lt] s st room obtain i s1 where b: "bread c dv st s = Inr (i, s1)" "hit dv (bufs s1) st = Some i"
    "bio_to c p dv s s1 V (R(st := 1)) {st} M W" by auto
  note T = bio_toD [OF b(3)]
  have l1: "log s1 = log s" by (rule bio_to_log [OF b(3)])
  have rs: "refs dv s1 st \<noteq> 0" using T(4) by simp
  have d: "b_data (bufs s1 i) = V st" using handle(5) [OF T(2) b(2) rs] T(3) by simp
  let ?L = "\<lambda>l. l\<lparr>lh_n := sint (get32 (V st) 0), lh_block := map (\<lambda>i. get32 (V st) (4 + 4 * i)) [0..<n] @ drop n (lh_block l)\<rparr>"
  let ?u = "upd_log (\<lambda>l. l\<lparr>lh_n := sint (get32 (V st) 0)\<rparr>) s1" and ?s2 = "upd_log ?L s1"
  have u: "bufs ?u = bufs s1" by (simp add: upd_log_def)
  have len: "length (lh_block (log ?u)) = LOGSIZE" using l l1 by (simp add: log_wf_def)
  have e2: "foldM (read_head_entry i) [0..<n] ?u = Inr ?s2"
    using read_head_entries [OF n(2) len, of i] u d by (simp add: upd_log_def)
  have X: "bcache c p dv ?s2" "blk dv ?s2 = V" "refs dv ?s2 = R(st := 1)" "busy dv ?s2 = {st}" "media ?s2 = M" "media_log ?s2 = W"
    "hit dv (bufs ?s2) st = Some i"
    using T b(2) by simp_all
  have "blk dv s st = media s st" using blk_refs0 [OF s(1)] s(4) st(2) by simp
  then have "V st = M st" using s by simp
  then obtain t where e3: "brelse c i ?s2 = Inr t" and o3: "bio_to c p dv ?s2 t V R {} M W"
    using brelse_ok [OF X(1,7)] X(2-6) st(2) by (auto simp: fun_upd_idem)
  have w: "word_of_int (l_start (log s)) = st" using st(1) by (simp add: log_no_def)
  have "read_head c s = Inr t" using b(1) w dv d e2 e3 n(1) by (simp add: read_head_def Let_def)
  moreover have "log t = ?L (log s)" using bio_to_log [OF o3] l1 by simp
  ultimately show ?thesis using bio_toD [OF o3] by (auto simp: resting_def)
qed

section \<open>Commit and recovery\<close>

text \<open>The writes of a commit, in order: the log, its header, the home blocks, the header with no blocks.\<close>

definition commit_writes :: "log \<Rightarrow> (uint \<Rightarrow> bytes) \<Rightarrow> (uint \<times> bytes) list" where
  "commit_writes l V =
     (let n = nat (lh_n l); B = lh_block l; H = put_head (take n B) (V (log_no l 0))
      in map (\<lambda>i. (log_no l (i + 1), V (B ! i))) [0..<n] @ [(log_no l 0, H)]
         @ map (\<lambda>i. (B ! i, V (B ! i))) [0..<n] @ [(log_no l 0, put_head [] H)])"

text \<open>What recovery makes of a disk \<open>m\<close>.\<close>

definition recovered :: "log \<Rightarrow> (uint \<Rightarrow> bytes) \<Rightarrow> uint \<Rightarrow> bytes" where
  "recovered l m =
     (let d = m (log_no l 0)
      in (apply_writes (map (\<lambda>i. (get32 d (4 + 4 * i), m (log_no l (i + 1)))) [0..<nat (sint (get32 d 0))]) m)
           (log_no l 0 := put_head [] d))"

lemma log_no_upd [simp]:
  "log_no (l\<lparr>lh_n := n\<rparr>) = log_no l" "log_no (l\<lparr>lh_block := bl\<rparr>) = log_no l"
  "home (l\<lparr>lh_n := n\<rparr>) = home l" "home (l\<lparr>lh_block := bl\<rparr>) = home l"
  "log_wf (l\<lparr>lh_n := n\<rparr>) = log_wf l"
  by (simp_all add: log_no_def home_def log_wf_def fun_eq_iff)

lemma log_writes_read:
  assumes "log_wf l" "n \<le> LOGSIZE" "i < n"
  shows "apply_writes (map (\<lambda>i. (log_no l (i + 1), f i)) [0..<n]) m (log_no l (i + 1)) = f i"
proof (rule apply_writes_in)
  fix d assume "(log_no l (i + 1), d) \<in> set (map (\<lambda>i. (log_no l (i + 1), f i)) [0..<n])"
  then obtain j where j: "j < n" "log_no l (i + 1) = log_no l (j + 1)" "d = f j" by auto
  then have "i = j" using log_no_eq(2) [OF assms(1), of "j + 1" "i + 1"] assms(2,3) by simp
  then show "d = f i" using j(3) by simp
qed (use assms(3) in force)

lemma finite_refs: "finite {b. (R :: uint \<Rightarrow> uint) b \<noteq> 0}"
  by (rule finite_subset [OF subset_UNIV]) simp

lemma commit_ok:
  assumes r: "resting c p dv s V R M W" and dv: "log_dev s = dv" and l: "log_wf (log s)" and n: "lh_n (log s) = int n" "0 < n" "n < LOGSIZE"
    and B: "\<And>i. i < n \<Longrightarrow> home (log s) (lh_block (log s) ! i)" "distinct (take n (lh_block (log s)))"
    and R: "R = (\<lambda>b. if b \<in> set (take n (lh_block (log s))) then 1 else 0)"
  defines "ws \<equiv> commit_writes (log s) V"
  shows "\<exists>t. commit c s = Inr t \<and> log t = (log s)\<lparr>lh_n := 0\<rparr>
    \<and> resting c p dv t (apply_writes ws V) (\<lambda>_. 0) (apply_writes ws M) (W @ ws)"
proof -
  let ?L = "log s" and ?B = "lh_block (log s)" and ?st = "log_no (log s) 0"
  have len: "n < length ?B" using l n(3) by (simp add: log_wf_def)
  have mem: "b \<in> set (take n ?B) \<longleftrightarrow> (\<exists>i<n. b = ?B ! i)" for b using len by (auto simp: in_set_conv_nth)
  have "{b. R b \<noteq> 0} = set (take n ?B)" using R by auto
  then have room: "card {b. R b \<noteq> 0} < NBUF" using B(2) len n(3) by (simp add: distinct_card NBUF_def)
  have R1: "R (?B ! i) = 1" if "i < n" for i using that R mem by auto
  have Rz: "R (log_no ?L k) = 0" if "k \<le> LOGSIZE" for k
  proof -
    have "log_no ?L k \<notin> set (take n ?B)" unfolding mem using home_ne [OF B(1) that] by metis
    then show ?thesis using R by simp
  qed
  define w1 where "w1 = map (\<lambda>i. (log_no ?L (i + 1), V (?B ! i))) [0..<n]"
  define H where "H = put_head (take n ?B) (V ?st)"
  define w2 where "w2 = map (\<lambda>i. (?B ! i, V (?B ! i))) [0..<n]"
  have n': "n \<le> LOGSIZE" using n(3) by simp
  from write_log_ok [OF r dv l n' conjI [OF B(1) R1] Rz room] obtain s1 where e1: "write_log c s = Inr s1" "log s1 = ?L"
    and r1: "resting c p dv s1 (apply_writes w1 V) R (apply_writes w1 M) (W @ w1)" using n(1) by (auto simp: write_log_def w1_def)
  have "?st \<noteq> log_no ?L (i + 1)" if "i < n" for i using log_no_eq(2) [OF l, of "i + 1" 0] that n' by simp
  then have st: "?st \<notin> fst ` set w1" by (fastforce simp: w1_def)
  then have Vst: "apply_writes w1 V ?st = V ?st" by (rule apply_writes_other)
  have d1: "log_dev s1 = dv" using dv e1(2) by (simp add: log_dev_def)
  from write_head_ok [OF r1 d1, of n ?st] obtain s2 where e2: "write_head c s1 = Inr s2" "log s2 = ?L"
    and r2: "resting c p dv s2 ((apply_writes w1 V)(?st := H)) R ((apply_writes w1 M)(?st := H)) ((W @ w1) @ [(?st, H)])"
    using l n n' e1(2) Rz [of 0] room Vst by (auto simp: H_def)
  have d2: "log_dev s2 = dv" using dv e2(2) by (simp add: log_dev_def)
  let ?V2 = "(apply_writes w1 V)(?st := H)" and ?M2 = "(apply_writes w1 M)(?st := H)"
  have V2: "?V2 (log_no ?L (i + 1)) = V (?B ! i)" if "i < n" for i
    using log_writes_read [OF l n' that, of "\<lambda>i. V (?B ! i)" V] log_no_eq(2) [OF l, of 0 "i + 1"] that n' by (simp add: w1_def)
  have w2': "map (\<lambda>i. (lh_block (log s2) ! i, ?V2 (log_no (log s2) (i + 1)))) [0..<n] = w2"
    unfolding w2_def e2(2) using V2 by simp
  have "\<exists>t. foldM (install_one c False) [0..<n] s2 = Inr t \<and> log t = log s2 \<and> resting c p dv t (apply_writes w2 ?V2)
      (\<lambda>b. if \<not> False \<and> b \<in> set (take n (lh_block (log s2))) then 0 else R b) (apply_writes w2 ?M2) (((W @ w1) @ [(?st, H)]) @ w2)"
    unfolding w2' [symmetric] by (rule install_trans_ok [OF r2 d2]) (use l n' B R1 Rz room e2(2) in simp_all)
  moreover have "(\<lambda>b. if \<not> False \<and> b \<in> set (take n (lh_block (log s2))) then 0 else R b) = (\<lambda>_. 0)" using R e2(2) by auto
  ultimately obtain s3 where e3: "install_trans c False s2 = Inr s3" "log s3 = ?L"
    and r3: "resting c p dv s3 (apply_writes w2 ?V2) (\<lambda>_. 0) (apply_writes w2 ?M2) (((W @ w1) @ [(?st, H)]) @ w2)"
    using e2(2) n(1) by (auto simp: install_trans_def)
  let ?s = "upd_log (\<lambda>l. l\<lparr>lh_n := 0\<rparr>) s3"
  have "?B ! i \<noteq> ?st" if "i < n" for i using home_ne [OF B(1) [OF that]] by simp
  then have "?st \<notin> fst ` set w2" by (fastforce simp: w2_def)
  then have Vst2: "apply_writes w2 ?V2 ?st = H" by (simp add: apply_writes_other)
  have r4: "resting c p dv ?s (apply_writes w2 ?V2) (\<lambda>_. 0) (apply_writes w2 ?M2) (((W @ w1) @ [(?st, H)]) @ w2)" using r3 by simp
  have d4: "log_dev ?s = dv" using dv e3(2) by (simp add: log_dev_def)
  from write_head_ok [OF r4 d4, of 0 ?st] obtain t where e4: "write_head c ?s = Inr t" "log t = ?L\<lparr>lh_n := 0\<rparr>"
    and r5: "resting c p dv t ((apply_writes w2 ?V2)(?st := put_head [] H)) (\<lambda>_. 0) ((apply_writes w2 ?M2)(?st := put_head [] H))
      ((((W @ w1) @ [(?st, H)]) @ w2) @ [(?st, put_head [] H)])"
    using l e3(2) Vst2 by (auto simp: NBUF_def)
  have "ws = w1 @ [(?st, H)] @ w2 @ [(?st, put_head [] H)]" using n(1) by (simp add: ws_def commit_writes_def w1_def w2_def H_def Let_def)
  moreover have "commit c s = Inr t" using n e1 e2 e3 e4 by (simp add: commit_def)
  ultimately show ?thesis using e4(2) r5 by (simp del: fun_upd_apply)
qed

lemma recover_ok:
  assumes r: "resting c p dv s M (\<lambda>_. 0) M W" and dv: "log_dev s = dv" and l: "log_wf (log s)"
    and n: "nat (sint (get32 (M (log_no (log s) 0)) 0)) = n" "n \<le> LOGSIZE"
    and B: "\<And>i. i < n \<Longrightarrow> home (log s) (get32 (M (log_no (log s) 0)) (4 + 4 * i))"
  shows "\<exists>t W'. recover_from_log c s = Inr t \<and> lh_n (log t) = 0 \<and> log_dev t = dv \<and> log_wf (log t)
    \<and> log_no (log t) = log_no (log s) \<and> resting c p dv t (recovered (log s) M) (\<lambda>_. 0) (recovered (log s) M) W'"
proof -
  let ?L = "log s" and ?st = "log_no (log s) 0"
  let ?d = "M ?st"
  have rm: "card {b :: uint. (0 :: uint) \<noteq> 0} < NBUF" by (simp add: NBUF_def)
  let ?l1 = "?L\<lparr>lh_n := sint (get32 ?d 0), lh_block := map (\<lambda>i. get32 ?d (4 + 4 * i)) [0..<n] @ drop n (lh_block ?L)\<rparr>"
  from read_head_ok [OF r dv l n refl refl rm] obtain s1 where e1: "read_head c s = Inr s1"
    and r1: "resting c p dv s1 M (\<lambda>_. 0) M W" and l1: "log s1 = ?l1" by blast
  have d1: "log_dev s1 = dv" using dv l1 by (simp add: log_dev_def)
  have wf1: "log_wf (log s1)" using l n(2) by (simp add: l1 log_wf_def)
  have nth: "lh_block (log s1) ! i = get32 ?d (4 + 4 * i)" if "i < n" for i using that by (simp add: l1 nth_append)
  have no: "log_no (log s1) = log_no ?L" "home (log s1) = home ?L" by (simp_all add: l1)
  define ws where "ws = map (\<lambda>i. (get32 ?d (4 + 4 * i), M (log_no ?L (i + 1)))) [0..<n]"
  have ws': "map (\<lambda>i. (lh_block (log s1) ! i, M (log_no (log s1) (i + 1)))) [0..<n] = ws"
    unfolding ws_def no using nth by simp
  have "\<exists>t. foldM (install_one c True) [0..<n] s1 = Inr t \<and> log t = log s1 \<and> resting c p dv t (apply_writes ws M)
      (\<lambda>b. if \<not> True \<and> b \<in> set (take n (lh_block (log s1))) then 0 else 0) (apply_writes ws M) (W @ ws)"
    unfolding ws' [symmetric] by (rule install_trans_ok [OF r1 d1 wf1 n(2)]) (use B nth no rm in simp_all)
  then obtain s2 where e2: "install_trans c True s1 = Inr s2" "log s2 = log s1"
    and r2: "resting c p dv s2 (apply_writes ws M) (\<lambda>_. 0) (apply_writes ws M) (W @ ws)"
    using n(1) l1 by (auto simp: install_trans_def)
  let ?s = "upd_log (\<lambda>l. l\<lparr>lh_n := 0\<rparr>) s2"
  have "get32 ?d (4 + 4 * i) \<noteq> ?st" if "i < n" for i using home_ne [OF B [OF that]] by simp
  then have "?st \<notin> fst ` set ws" by (fastforce simp: ws_def)
  then have st: "apply_writes ws M ?st = ?d" by (rule apply_writes_other)
  have r3: "resting c p dv ?s (apply_writes ws M) (\<lambda>_. 0) (apply_writes ws M) (W @ ws)" using r2 by simp
  have d3: "log_dev ?s = dv" using d1 e2(2) by (simp add: log_dev_def)
  from write_head_ok [OF r3 d3, of 0 ?st] obtain t where e3: "write_head c ?s = Inr t" "log t = (log s1)\<lparr>lh_n := 0\<rparr>"
    and r4: "resting c p dv t ((apply_writes ws M)(?st := put_head [] ?d)) (\<lambda>_. 0) ((apply_writes ws M)(?st := put_head [] ?d))
      ((W @ ws) @ [(?st, put_head [] ?d)])"
    using wf1 e2(2) st no rm by auto
  have "recovered ?L M = (apply_writes ws M)(?st := put_head [] ?d)" using n(1) by (simp add: recovered_def ws_def Let_def)
  moreover have "recover_from_log c s = Inr t" using e1 e2 e3 by (simp add: recover_from_log_def)
  moreover have "log_dev t = dv" using d1 e3(2) by (simp add: log_dev_def)
  ultimately show ?thesis using e3(2) r4 wf1 no by auto
qed

section \<open>Crashes\<close>

text \<open>Recovery can read the header of \<open>m\<close>, and installs the contents \<open>N\<close> outside the log.\<close>

definition recovers :: "log \<Rightarrow> (uint \<Rightarrow> bytes) \<Rightarrow> (uint \<Rightarrow> bytes) \<Rightarrow> bool" where
  "recovers l m N \<longleftrightarrow> nat (sint (get32 (m (log_no l 0)) 0)) \<le> LOGSIZE
     \<and> (\<forall>i<nat (sint (get32 (m (log_no l 0)) 0)). home l (get32 (m (log_no l 0)) (4 + 4 * i)))
     \<and> (\<forall>b. home l b \<longrightarrow> recovered l m b = N b)"

lemma recovers_empty:
  assumes "get32 (m (log_no l 0)) 0 = 0" "\<And>b. home l b \<Longrightarrow> m b = N b"
  shows "recovers l m N"
  using assms home_ne [of l _ 0] by (auto simp: recovers_def recovered_def)

lemma recovers_full:
  assumes l: "log_wf l" and bl: "length bl < LOGSIZE" "\<And>b. b \<in> set bl \<Longrightarrow> home l b" and H: "m (log_no l 0) = put_head bl d"
    and V: "\<And>i. i < length bl \<Longrightarrow> m (log_no l (i + 1)) = N (bl ! i)" "\<And>b. home l b \<Longrightarrow> b \<notin> set bl \<Longrightarrow> m b = N b"
  shows "recovers l m N"
proof -
  have "sint (word_of_int (int (length bl)) :: uint) = int (length bl)"
    unfolding sint_sbintrunc' using bl(1) by (intro signed_take_bit_int_eq_self) auto
  then have n: "nat (sint (get32 (m (log_no l 0)) 0)) = length bl" unfolding H get_put_head by simp
  let ?ws = "map (\<lambda>i. (get32 (m (log_no l 0)) (4 + 4 * i), m (log_no l (i + 1)))) [0..<length bl]"
  have ws: "?ws = map (\<lambda>i. (bl ! i, N (bl ! i))) [0..<length bl]" using V(1) by (simp add: H get_put_head)
  have "map fst ?ws = bl" unfolding ws by (simp add: comp_def map_nth)
  then have keys: "fst ` set ?ws = set bl" by (metis list.set_map)
  have "recovered l m b = N b" if "home l b" for b
  proof -
    have "recovered l m b = apply_writes ?ws m b" using home_ne [OF that, of 0] n by (simp add: recovered_def Let_def)
    also have "\<dots> = N b"
    proof (cases "b \<in> set bl")
      case True
      then have "b \<in> fst ` set ?ws" using keys by blast
      then show ?thesis unfolding ws by (rule apply_writes_in) auto
    next
      case False
      then show ?thesis using keys V(2) [OF that] by (simp add: apply_writes_other)
    qed
    finally show ?thesis .
  qed
  moreover have "home l (get32 (m (log_no l 0)) (4 + 4 * i))" if "i < length bl" for i
    using that bl(2) by (simp add: H get_put_head)
  ultimately show ?thesis using n bl(1) by (simp add: recovers_def)
qed

lemma crash_atomic:
  assumes l: "log_wf l" and n: "lh_n l = int n" "n < LOGSIZE" and B: "\<And>i. i < n \<Longrightarrow> home l (lh_block l ! i)"
    and z: "get32 (M (log_no l 0)) 0 = 0" and VM: "\<And>b. home l b \<Longrightarrow> b \<notin> set (take n (lh_block l)) \<Longrightarrow> V b = M b"
  shows "recovers l (apply_writes (take k (commit_writes l V)) M) M \<or> recovers l (apply_writes (take k (commit_writes l V)) M) V"
proof -
  let ?B = "take n (lh_block l)" and ?st = "log_no l 0"
  have len: "length ?B = n" using l n(2) by (simp add: log_wf_def)
  have nth: "?B ! i = lh_block l ! i" if "i < n" for i using that by simp
  have hB: "home l b" if "b \<in> set ?B" for b using that B len by (auto simp: in_set_conv_nth)
  define w1 where "w1 = map (\<lambda>i. (log_no l (i + 1), V (lh_block l ! i))) [0..<n]"
  define H where "H = put_head ?B (V ?st)"
  define w2 where "w2 = map (\<lambda>i. (lh_block l ! i, V (lh_block l ! i))) [0..<n]"
  have ws: "commit_writes l V = w1 @ (?st, H) # w2 @ [(?st, put_head [] H)]"
    using n(1) by (simp add: commit_writes_def w1_def w2_def H_def Let_def)
  have ln: "length w1 = n" "length w2 = n" by (simp_all add: w1_def w2_def)
  have k1: "b \<noteq> ?st" "b \<notin> fst ` set (take j w1)" if "home l b" for b j
  proof -
    show "b \<noteq> ?st" using home_ne [OF that] by simp
    have "b \<noteq> log_no l (i + 1)" if "i < n" for i using home_ne [OF \<open>home l b\<close>, of "i + 1"] that n(2) by simp
    then show "b \<notin> fst ` set (take j w1)" by (fastforce simp: w1_def dest!: in_set_takeD)
  qed
  have k0: "?st \<notin> fst ` set (take j w1)" for j
  proof -
    have "?st \<noteq> log_no l (i + 1)" if "i < n" for i using log_no_eq(2) [OF l, of "i + 1" 0] that n(2) by simp
    then show ?thesis by (fastforce simp: w1_def dest!: in_set_takeD)
  qed
  have k2: "log_no l i \<notin> fst ` set (take j w2)" if "i \<le> LOGSIZE" for i j
  proof -
    have "lh_block l ! h \<noteq> log_no l i" if "h < n" for h using home_ne [OF B [OF that] \<open>i \<le> LOGSIZE\<close>] .
    then show ?thesis by (fastforce simp: w2_def dest!: in_set_takeD)
  qed
  have in2: "b \<in> set ?B \<longleftrightarrow> b \<in> fst ` set w2" for b using len nth by (force simp: w2_def in_set_conv_nth)
  have v2: "d = V b" if "(b, d) \<in> set (take j w2)" for b d j using in_set_takeD [OF that] by (auto simp: w2_def)
  have out2: "apply_writes (take j w2) m b = V b" if "m b = V b" for m b j
  proof (cases "b \<in> fst ` set (take j w2)")
    case True
    then show ?thesis using v2 by (rule apply_writes_in)
  qed (simp add: that apply_writes_other)
  consider "k \<le> n" | j where "k = n + 1 + j" "j \<le> n" | "2 * n + 2 \<le> k"
  proof -
    have "k = n + 1 + (k - n - 1) \<and> k - n - 1 \<le> n" if "n < k" "k < 2 * n + 2" using that by linarith
    then show ?thesis using that by (metis not_less)
  qed
  then show ?thesis
  proof cases
    case 1
    then have "take k (commit_writes l V) = take k w1" using ln by (simp add: ws)
    then show ?thesis using k1 k0 z by (simp add: recovers_empty apply_writes_other)
  next
    case 2
    let ?m = "apply_writes (take j w2) ((apply_writes w1 M)(?st := H))"
    have t: "take k (commit_writes l V) = w1 @ (?st, H) # take j w2" using 2 ln by (simp add: ws)
    have "recovers l ?m V"
    proof (rule recovers_full [OF l])
      show "length ?B < LOGSIZE" using len n(2) by simp
      show "?m ?st = put_head ?B (V ?st)" using k2 [of 0 j] by (simp add: apply_writes_other H_def)
      show "?m (log_no l (i + 1)) = V (?B ! i)" if "i < length ?B" for i
      proof -
        have i: "i < n" using that len by simp
        have "?m (log_no l (i + 1)) = apply_writes w1 M (log_no l (i + 1))"
          using k2 [of "i + 1" j] i n(2) log_no_eq(2) [OF l, of 0 "i + 1"] by (simp add: apply_writes_other)
        also have "\<dots> = V (lh_block l ! i)" using log_writes_read [OF l _ i, of "\<lambda>i. V (lh_block l ! i)" M] n(2) by (simp add: w1_def)
        finally show ?thesis using nth [OF i] by simp
      qed
      show "?m b = V b" if "home l b" "b \<notin> set ?B" for b
        using k1(1) [OF that(1)] k1(2) [OF that(1), of n] ln VM [OF that] by (intro out2) (simp add: apply_writes_other)
    qed (rule hB)
    then show ?thesis using t by simp
  next
    case 3
    then have t: "take k (commit_writes l V) = commit_writes l V" using ln by (simp add: ws)
    let ?m = "apply_writes w2 ((apply_writes w1 M)(?st := H))"
    have "?m b = V b" if b: "home l b" for b
    proof (cases "b \<in> set ?B")
      case True
      then show ?thesis unfolding in2 by (rule apply_writes_in) (auto simp: w2_def)
    next
      case False
      then show ?thesis using k1(1) [OF b] k1(2) [OF b, of n] ln VM [OF b False] out2 [of "(apply_writes w1 M)(?st := H)" b n]
        by (simp add: apply_writes_other)
    qed
    then have "recovers l (?m(?st := put_head [] H)) V" using k1(1) by (intro recovers_empty) (auto simp: put_head_def)
    then show ?thesis unfolding t by (simp add: ws del: fun_upd_apply)
  qed
qed

section \<open>Transactions\<close>

text \<open>
  Between operations of a transaction: the logged blocks are distinct, outside the log and pinned once; other buffers
  are in use only while they are locked; the log on the disk is empty.
\<close>

definition logged_blocks :: "log \<Rightarrow> uint list" where
  "logged_blocks l = take (nat (lh_n l)) (lh_block l)"

definition log_inv :: "nat \<Rightarrow> nat \<Rightarrow> uint \<Rightarrow> 'a fkstate_scheme \<Rightarrow> bool" where
  "log_inv c p dv s \<longleftrightarrow> bcache c p dv s \<and> log_dev s = dv \<and> log_wf (log s) \<and> 0 \<le> lh_n (log s) \<and> lh_n (log s) < int LOGSIZE
     \<and> distinct (logged_blocks (log s)) \<and> (\<forall>b\<in>set (logged_blocks (log s)). home (log s) b)
     \<and> (\<forall>b. refs dv s b = (if b \<in> set (logged_blocks (log s)) then 1 else 0) + (if b \<in> busy dv s then 1 else 0))
     \<and> get32 (media s (log_no (log s) 0)) 0 = 0"

lemma absorb_cases:
  "absorb n bl b k = r \<Longrightarrow> k \<le> r \<and> r \<le> k + n \<and> (r < k + n \<longrightarrow> bl ! r = b) \<and> (r = k + n \<longrightarrow> (\<forall>j<n. bl ! (k + j) \<noteq> b))"
proof (induction n bl b k rule: absorb.induct)
  case (2 n bl b k)
  show ?case
  proof (cases "bl ! k = b")
    case True
    then show ?thesis using 2(2) by auto
  next
    case False
    then have IH: "k + 1 \<le> r \<and> r \<le> k + 1 + n \<and> (r < k + 1 + n \<longrightarrow> bl ! r = b) \<and> (r = k + 1 + n \<longrightarrow> (\<forall>j<n. bl ! (k + 1 + j) \<noteq> b))"
      using 2 by simp
    moreover have "bl ! (k + j) \<noteq> b" if "r = k + Suc n" "j < Suc n" for j
      using that IH False by (cases j) auto
    ultimately show ?thesis by simp
  qed
qed auto

lemma log_write_inner:
  assumes iv: "log_inv c p dv s" and h: "hit dv (bufs s) bno = Some i" "bno \<in> busy dv s" "home (log s) bno"
    and n: "lh_n (log s) = int n" "n + 1 < LOGSIZE"
  defines "r \<equiv> absorb n (lh_block (log s)) bno 0"
  defines "u \<equiv> upd_log (\<lambda>l. l\<lparr>lh_block := (lh_block l)[r := bno]\<rparr>) s"
  shows "\<exists>t. (if int r = lh_n (log s) then bnd (bpin c i u) (\<lambda>s. Inr (upd_log (\<lambda>l. l\<lparr>lh_n := lh_n l + 1\<rparr>) s)) else Inr u) = Inr t
    \<and> log_inv c p dv t \<and> set (logged_blocks (log t)) = insert bno (set (logged_blocks (log s)))
    \<and> blk dv t = blk dv s \<and> media t = media s \<and> media_log t = media_log s \<and> busy dv t = busy dv s
    \<and> (mach t = mach s \<or> mach t = crit c (mach s)) \<and> hit dv (bufs t) bno = Some i"
proof -
  let ?B = "lh_block (log s)"
  have bc: "bcache c p dv s" and dv: "log_dev s = dv" and wf: "log_wf (log s)" and ds: "distinct (take n ?B)"
    and hm: "\<And>b. b \<in> set (take n ?B) \<Longrightarrow> home (log s) b"
    and rf: "\<And>b. refs dv s b = (if b \<in> set (take n ?B) then 1 else 0) + (if b \<in> busy dv s then 1 else 0)"
    and z: "get32 (media s (log_no (log s) 0)) 0 = 0"
    using iv n(1) by (simp_all add: log_inv_def logged_blocks_def)
  have len: "length ?B = LOGSIZE" using wf by (simp add: log_wf_def)
  have a: "r \<le> n" "r < n \<Longrightarrow> ?B ! r = bno" "r = n \<Longrightarrow> \<forall>j<n. ?B ! j \<noteq> bno"
    using absorb_cases [of n ?B bno 0 r] by (simp_all add: r_def)
  show ?thesis
  proof (cases "r = n")
    case False
    then have rn: "r < n" "?B ! r = bno" using a(1,2) by simp_all
    then have "take n ?B ! r = bno" "r < length (take n ?B)" using len n(2) by simp_all
    then have "bno \<in> set (take n ?B)" by (metis nth_mem)
    moreover have "?B[r := bno] = ?B" using rn by auto
    moreover have "upd_log (\<lambda>l. l\<lparr>lh_block := lh_block (log s)\<rparr>) s = s" by (simp add: upd_log_def)
    moreover have "upd_log (\<lambda>l. l\<lparr>lh_block := (lh_block l)[r := bno]\<rparr>) s = upd_log (\<lambda>l. l\<lparr>lh_block := (lh_block (log s))[r := bno]\<rparr>) s"
      by (simp add: upd_log_def)
    ultimately have "u = s" "bno \<in> set (take n ?B)" by (simp_all add: u_def)
    then show ?thesis using False n(1) iv h(1) by (intro exI [of _ s]) (auto simp: logged_blocks_def)
  next
    case True
    have new: "bno \<notin> set (take n ?B)" using a(3) [OF True] len n(2) by (auto simp: in_set_conv_nth)
    have "bcache c p dv u" "refs dv u bno \<noteq> 0" "refs dv u bno + 1 \<noteq> 0" "hit dv (bufs u) bno = Some i"
      using bc rf new h by (simp_all add: u_def)
    from bpin_ok [OF this(1,4,2,3)] obtain v where v: "bpin c i u = Inr v"
      "bio_to c p dv u v (blk dv s) ((refs dv s)(bno := refs dv s bno + 1)) (busy dv s) (media s) (media_log s)" by (auto simp: u_def)
    note T = bio_toD [OF v(2)]
    let ?t = "upd_log (\<lambda>l. l\<lparr>lh_n := lh_n l + 1\<rparr>) v"
    have lt: "log ?t = (log s)\<lparr>lh_n := int n + 1, lh_block := ?B[n := bno]\<rparr>" using bio_to_log [OF v(2)] n(1) True by (simp add: u_def)
    have "take (Suc n) (?B[n := bno]) = take n ?B @ [bno]" using len n(2) by (simp add: take_Suc_conv_app_nth)
    then have lb: "logged_blocks (log ?t) = take n ?B @ [bno]" unfolding lt logged_blocks_def by (simp add: nat_add_distrib)
    have no: "log_no (log ?t) = log_no (log s)" "home (log ?t) = home (log s)" unfolding lt by simp_all
    have "log_inv c p dv ?t" unfolding log_inv_def lb no
    proof (intro conjI)
      show "bcache c p dv ?t" using T(2) by simp
      show "log_dev ?t = dv" using dv unfolding log_dev_def lt by simp
      show "log_wf (log ?t)" using wf unfolding lt by (simp add: log_wf_def)
      show "0 \<le> lh_n (log ?t)" "lh_n (log ?t) < int LOGSIZE" using n(2) unfolding lt by simp_all
      show "distinct (take n ?B @ [bno])" "\<forall>b\<in>set (take n ?B @ [bno]). home (log s) b" using ds new hm h(3) by auto
      show "\<forall>b. refs dv ?t b = (if b \<in> set (take n ?B @ [bno]) then 1 else 0) + (if b \<in> busy dv ?t then 1 else 0)"
        using T(4,5) rf new by auto
      show "get32 (media ?t (log_no (log s) 0)) 0 = 0" using T(6) z by simp
    qed
    moreover have "hit dv (bufs v) bno = Some i" using T(8) [of bno i] h rf new by (auto simp: u_def)
    moreover have "mach v = mach s \<or> mach v = crit c (mach s)" using T(1) by (simp add: bio_frame_def u_def upd_log_def)
    ultimately show ?thesis using v(1) True n(1) T(3,5-7) lb
      by (intro exI [of _ ?t]) (auto simp: logged_blocks_def, simp_all add: upd_log_def)
  qed
qed

lemma views_mach [simp]:
  "blk dv (s\<lparr>mach := m\<rparr>) = blk dv s" "refs dv (s\<lparr>mach := m\<rparr>) = refs dv s" "busy dv (s\<lparr>mach := m\<rparr>) = busy dv s"
  by (simp_all add: blk_def refs_def busy_def fun_eq_iff split: option.split)

lemma log_inv_mach:
  assumes "log_inv c p dv s" "quiet c buf_locks (s\<lparr>mach := m\<rparr>)" "cproc (cpus m c) = Some p"
  shows "log_inv c p dv (s\<lparr>mach := m\<rparr>)"
  using assms by (simp add: log_inv_def bcache_def log_dev_def)

lemma log_write_ok:
  assumes iv: "log_inv c p dv s" and lk: "lock_free LogLock (mach s)"
    and h: "hit dv (bufs s) bno = Some i" "bno \<in> busy dv s" "home (log s) bno"
    and n: "lh_n (log s) < l_size (log s) - 1" "l_size (log s) \<le> int LOGSIZE" "1 \<le> l_outstanding (log s)"
  shows "\<exists>t. log_write c i s = Inr t \<and> log_inv c p dv t \<and> lock_free LogLock (mach t)
    \<and> set (logged_blocks (log t)) = insert bno (set (logged_blocks (log s)))
    \<and> blk dv t = blk dv s \<and> media t = media s \<and> media_log t = media_log s \<and> busy dv t = busy dv s \<and> hit dv (bufs t) bno = Some i"
proof -
  have bc: "bcache c p dv s" using iv by (simp add: log_inv_def)
  have q: "cpu_ok c (mach s)" "quiet c buf_locks s" "cur c s = Some p" using bcacheD(1,2) [OF bc] by (auto simp: quiet_def)
  let ?T = "taken c LogLock (mach s)" and ?s = "s\<lparr>mach := taken c LogLock (mach s)\<rparr>"
  have aq: "kacquire c LogLock s = Inr ?s" using q(1) lk by simp
  have qs: "quiet c buf_locks ?s" using q(1,2) by (auto simp: quiet_def)
  have cs: "cproc (cpus ?T c) = Some p" using q(3) by simp
  have iv': "log_inv c p dv ?s" using log_inv_mach [OF iv qs cs] .
  have h': "hit dv (bufs ?s) bno = Some i" "bno \<in> busy dv ?s" "home (log ?s) bno" using h by simp_all
  have m: "lh_n (log ?s) = int (nat (lh_n (log s)))" "nat (lh_n (log s)) + 1 < LOGSIZE" using iv n by (auto simp: log_inv_def)
  have bn: "b_blockno (bufs s i) = bno" using hit_Some [OF h(1)] by simp
  let ?r = "absorb (nat (lh_n (log s))) (lh_block (log s)) bno 0"
  let ?u = "upd_log (\<lambda>l. l\<lparr>lh_block := (lh_block l)[?r := bno]\<rparr>) ?s"
  have ls: "log ?s = log s" by simp
  from log_write_inner [OF iv' h' m, unfolded ls] obtain t where
    t: "(if int ?r = lh_n (log s) then bnd (bpin c i ?u) (\<lambda>s. Inr (upd_log (\<lambda>l. l\<lparr>lh_n := lh_n l + 1\<rparr>) s)) else Inr ?u) = Inr t"
    "log_inv c p dv t" "set (logged_blocks (log t)) = insert bno (set (logged_blocks (log s)))"
    "blk dv t = blk dv s" "media t = media s" "media_log t = media_log s" "busy dv t = busy dv s" "mach t = ?T" "hit dv (bufs t) bno = Some i"
    using q(1) by auto
  have rl: "krelease c LogLock t = Inr (t\<lparr>mach := crit c (mach s)\<rparr>)" using q(1) lk t(8) by (intro krelease_taken) simp_all
  have "log_write c i s = krelease c LogLock t" using aq bn n iv t(1) unfolding log_write_def by (simp add: Let_def log_inv_def)
  then have w: "log_write c i s = Inr (t\<lparr>mach := crit c (mach s)\<rparr>)" using rl by simp
  have "quiet c buf_locks (t\<lparr>mach := crit c (mach s)\<rparr>)" using q(2) by (simp add: quiet_def)
  moreover have "cproc (cpus (crit c (mach s)) c) = Some p" using q(3) by simp
  ultimately have "log_inv c p dv (t\<lparr>mach := crit c (mach s)\<rparr>)" by (rule log_inv_mach [OF t(2)])
  then show ?thesis using w t(3-7,9) lk by (intro exI [of _ "t\<lparr>mach := crit c (mach s)\<rparr>"]) simp
qed

lemma frame_lock_free: "bio_frame c s t \<Longrightarrow> lock_free l (mach s) \<Longrightarrow> lock_free l (mach t)"
  by (auto simp: bio_frame_def)

lemma log_inv_to:
  assumes "log_inv c p dv s" "bio_to c p dv s t V R K (media s) W"
    and "\<And>b. R b = (if b \<in> set (logged_blocks (log s)) then 1 else 0) + (if b \<in> K then 1 else 0)"
  shows "log_inv c p dv t"
  using assms(1,3) bio_toD [OF assms(2)] bio_to_log [OF assms(2)] by (simp add: log_inv_def log_dev_def)

lemma transaction_step:
  assumes iv: "log_inv c p dv s" and lk: "lock_free LogLock (mach s)" and b: "home (log s) bno" "bno \<notin> busy dv s"
    and room: "card {b. refs dv s b \<noteq> 0} < NBUF"
    and n: "lh_n (log s) < l_size (log s) - 1" "l_size (log s) \<le> int LOGSIZE" "1 \<le> l_outstanding (log s)"
  shows "\<exists>i t u v. bread c dv bno s = Inr (i, t) \<and> b_data (bufs t i) = blk dv s bno
    \<and> log_write c i (upd_buf i (\<lambda>x. x\<lparr>b_data := d\<rparr>) t) = Inr u \<and> brelse c i u = Inr v \<and> log_inv c p dv v
    \<and> set (logged_blocks (log v)) = insert bno (set (logged_blocks (log s)))
    \<and> blk dv v = (blk dv s)(bno := d) \<and> media v = media s \<and> media_log v = media_log s \<and> busy dv v = busy dv s"
proof -
  have bc: "bcache c p dv s" and rf: "\<And>b. refs dv s b = (if b \<in> set (logged_blocks (log s)) then 1 else 0) + (if b \<in> busy dv s then 1 else 0)"
    using iv by (simp_all add: log_inv_def)
  have "refs dv s bno + 1 \<noteq> 0" "bno < 0x80000000" using rf [of bno] b by (auto simp: home_def)
  from bread_ok [OF bc this(2) b(2) this(1)] room obtain i t where t: "bread c dv bno s = Inr (i, t)" "hit dv (bufs t) bno = Some i"
    and to: "bio_to c p dv s t (blk dv s) ((refs dv s)(bno := refs dv s bno + 1)) (insert bno (busy dv s)) (media s) (media_log s)" by blast
  note T = bio_toD [OF to]
  have lt: "log t = log s" by (rule bio_to_log [OF to])
  have ivt: "log_inv c p dv t" by (rule log_inv_to [OF iv to]) (use rf b(2) in auto)
  have rt: "refs dv t bno \<noteq> 0" using T(4) rf [of bno] b(2) by simp
  have d: "b_data (bufs t i) = blk dv s bno" using handle(5) [OF T(2) t(2) rt] T(3) by simp
  let ?w = "upd_buf i (\<lambda>x. x\<lparr>b_data := d\<rparr>) t"
  note wo = set_data_ok [OF T(2) t(2) rt, of d]
  note W = bio_toD [OF wo]
  have rft: "\<And>b. refs dv t b = (if b \<in> set (logged_blocks (log t)) then 1 else 0) + (if b \<in> busy dv t then 1 else 0)"
    using ivt by (simp add: log_inv_def)
  have ivw: "log_inv c p dv ?w" by (rule log_inv_to [OF ivt wo]) (rule rft)
  have lw: "log ?w = log s" using bio_to_log [OF wo] lt by simp
  have hw: "hit dv (bufs ?w) bno = Some i" "bno \<in> busy dv ?w" using W(8) [OF rt rt t(2)] W(5) T(5) by simp_all
  have lkw: "lock_free LogLock (mach ?w)" using frame_lock_free [OF W(1) frame_lock_free [OF T(1) lk]] .
  from log_write_ok [OF ivw lkw hw] b(1) n lw obtain u where u: "log_write c i ?w = Inr u" "log_inv c p dv u"
    "set (logged_blocks (log u)) = insert bno (set (logged_blocks (log s)))" "blk dv u = blk dv ?w" "media u = media ?w"
    "media_log u = media_log ?w" "busy dv u = busy dv ?w" "hit dv (bufs u) bno = Some i" by auto
  have bu: "bcache c p dv u" "\<And>b. refs dv u b = (if b \<in> set (logged_blocks (log u)) then 1 else 0) + (if b \<in> busy dv u then 1 else 0)"
    using u(2) by (simp_all add: log_inv_def)
  have ku: "busy dv u = insert bno (busy dv s)" using u(7) W(5) T(5) by simp
  have ru: "refs dv u bno = 2" using bu(2) [of bno] u(3) ku by simp
  from brelse_ok [OF bu(1) u(8)] ku ru obtain v where v: "brelse c i u = Inr v"
    and vo: "bio_to c p dv u v (blk dv u) ((refs dv u)(bno := 1)) (busy dv s) (media u) (media_log u)" using b(2) by auto
  note X = bio_toD [OF vo]
  have "log_inv c p dv v" by (rule log_inv_to [OF u(2) vo]) (use bu(2) u(3) ku b(2) in auto)
  then show ?thesis using t(1) d u(1,3-6) v X(3,5-7) W(3,6,7) T(3,6,7) bio_to_log [OF vo] by auto
qed

section \<open>Atomicity\<close>

lemma commit_home:
  assumes n: "lh_n l = int n" "n < LOGSIZE" and b: "home l b" and VM: "b \<notin> set (take n (lh_block l)) \<Longrightarrow> V b = M b"
    and l: "log_wf l"
  shows "apply_writes (commit_writes l V) M b = V b"
proof -
  define w2 where "w2 = map (\<lambda>i. (lh_block l ! i, V (lh_block l ! i))) [0..<n]"
  let ?m = "apply_writes w2 (apply_writes (map (\<lambda>i. (log_no l (i + 1), V (lh_block l ! i))) [0..<n]) M)"
  have ne: "b \<noteq> log_no l k" if "k \<le> LOGSIZE" for k by (rule home_ne [OF b that])
  have "b \<noteq> log_no l (i + 1)" if "i < n" for i by (rule ne) (use that n(2) in simp)
  then have k1: "b \<notin> fst ` set (map (\<lambda>i. (log_no l (i + 1), V (lh_block l ! i))) [0..<n])" by fastforce
  have st: "b \<noteq> log_no l 0" using ne by simp
  have k2: "b \<in> set (take n (lh_block l))" if "b \<in> fst ` set w2"
  proof -
    from that obtain i where "i < n" "b = lh_block l ! i" by (auto simp: w2_def)
    moreover have "i < length (take n (lh_block l))" using \<open>i < n\<close> n(2) l by (simp add: log_wf_def)
    ultimately show ?thesis using nth_mem [of i "take n (lh_block l)"] by simp
  qed
  have k3: "b \<in> fst ` set w2" if "b \<in> set (take n (lh_block l))"
  proof -
    from that obtain i where "i < n" "take n (lh_block l) ! i = b" by (auto simp: in_set_conv_nth)
    then show ?thesis by (force simp: w2_def)
  qed
  show ?thesis
  proof (cases "b \<in> fst ` set w2")
    case True
    then have "apply_writes w2 m b = V b" for m by (rule apply_writes_in) (auto simp: w2_def)
    then show ?thesis using n(1) st by (simp add: commit_writes_def Let_def w2_def)
  next
    case False
    then have "V b = M b" using VM k3 by blast
    then show ?thesis using False k1 st n(1) by (simp add: commit_writes_def Let_def w2_def apply_writes_other)
  qed
qed

lemma log_inv_resting:
  assumes "log_inv c p dv s" "busy dv s = {}"
  shows "resting c p dv s (blk dv s) (\<lambda>b. if b \<in> set (logged_blocks (log s)) then 1 else 0) (media s) (media_log s)"
  using assms by (simp add: log_inv_def resting_def fun_eq_iff)

lemma resting_log_inv:
  assumes "resting c p dv s V (\<lambda>_. 0) M W" "log_dev s = dv" "log_wf (log s)" "lh_n (log s) = 0" "get32 (M (log_no (log s) 0)) 0 = 0"
  shows "log_inv c p dv s" "logged_blocks (log s) = []"
  using assms by (simp_all add: log_inv_def resting_def logged_blocks_def)

lemma header_last:
  "0 < lh_n l \<Longrightarrow> get32 (apply_writes (commit_writes l V) M (log_no l 0)) 0 = 0"
  "get32 (recovered l m (log_no l 0)) 0 = 0"
  by (simp_all add: commit_writes_def recovered_def Let_def put_head_def)

lemma commit_inv:
  assumes iv: "log_inv c p dv s" and k: "busy dv s = {}" and n: "0 < lh_n (log s)"
  defines "ws \<equiv> commit_writes (log s) (blk dv s)"
  shows "\<exists>t. commit c s = Inr t \<and> log_inv c p dv t \<and> logged_blocks (log t) = [] \<and> media_log t = media_log s @ ws
    \<and> media t = apply_writes ws (media s)"
proof -
  let ?n = "nat (lh_n (log s))"
  have l: "log_wf (log s)" "log_dev s = dv" "lh_n (log s) = int ?n" "0 < ?n" "?n < LOGSIZE"
    "distinct (take ?n (lh_block (log s)))" "\<forall>b\<in>set (take ?n (lh_block (log s))). home (log s) b"
    using iv n by (auto simp: log_inv_def logged_blocks_def)
  have len: "?n < length (lh_block (log s))" using l(1,5) by (simp add: log_wf_def)
  have "home (log s) (lh_block (log s) ! i)" if "i < ?n" for i
    using l(7) that len nth_mem [of i "take ?n (lh_block (log s))"] by simp
  from commit_ok [OF log_inv_resting [OF iv k] l(2,1,3,4,5) this l(6)] obtain t where
    t: "commit c s = Inr t" "log t = (log s)\<lparr>lh_n := 0\<rparr>"
    "resting c p dv t (apply_writes ws (blk dv s)) (\<lambda>_. 0) (apply_writes ws (media s)) (media_log s @ ws)"
    by (auto simp: logged_blocks_def ws_def)
  have "log_dev t = dv" using l(2) t(2) by (simp add: log_dev_def)
  moreover have "get32 (apply_writes ws (media s) (log_no (log t) 0)) 0 = 0" using header_last(1) [OF n] t(2) by (simp add: ws_def)
  ultimately show ?thesis using resting_log_inv [OF t(3)] t l(1) by (auto simp: resting_def)
qed

lemma recover_inv:
  assumes b: "bcache c p dv r" "busy dv r = {}" "refs dv r = (\<lambda>_. 0)" "log_dev r = dv" "log_wf (log r)"
    and st: "l_start (log r) = l_start l" and rc: "recovers l (media r) N"
  shows "\<exists>t. recover_from_log c r = Inr t \<and> log_inv c p dv t \<and> logged_blocks (log t) = [] \<and> (\<forall>b. home l b \<longrightarrow> media t b = N b)"
proof -
  have no: "log_no (log r) = log_no l" "home (log r) = home l" using st by (simp_all add: log_no_def home_def fun_eq_iff)
  have rl: "recovered (log r) = recovered l" by (simp add: recovered_def no fun_eq_iff)
  have "blk dv r = media r" using blk_refs0 [OF b(1)] b(3) by auto
  then have r: "resting c p dv r (media r) (\<lambda>_. 0) (media r) (media_log r)" using b by (simp add: resting_def)
  obtain n where n: "nat (sint (get32 (media r (log_no (log r) 0)) 0)) = n" by blast
  have n30: "n \<le> LOGSIZE" and B: "\<And>i. i < n \<Longrightarrow> home (log r) (get32 (media r (log_no (log r) 0)) (4 + 4 * i))"
    using rc n unfolding recovers_def no by auto
  from recover_ok [OF r b(4,5) n n30 B] obtain t W' where t: "recover_from_log c r = Inr t" "lh_n (log t) = 0" "log_dev t = dv"
    "log_wf (log t)" "log_no (log t) = log_no l"
    "resting c p dv t (recovered l (media r)) (\<lambda>_. 0) (recovered l (media r)) W'" unfolding rl no by blast
  have "get32 (recovered l (media r) (log_no (log t) 0)) 0 = 0" using header_last(2) t(5) by simp
  then show ?thesis using resting_log_inv [OF t(6,3,4,2)] t(1,6) rc by (auto simp: resting_def recovers_def)
qed

definition demo_trans :: fkstate where
  "demo_trans = upd_log (\<lambda>l. l\<lparr>l_outstanding := 1\<rparr>) (demo_cache (\<lambda>_ _. 0))"

lemma demo_cache_log: "log (demo_cache md) = \<lparr>l_start = 2, l_size = 30, l_outstanding = 0, l_committing = False, l_dev = 1, lh_n = 0, lh_block = replicate 30 0\<rparr>"
  by (simp add: demo_cache_def demo_fk_def dkstate.defs)

lemma demo_trans_log: "media_log demo_trans = []"
  by (simp add: demo_trans_def)

lemma demo_trans_ok:
  "log_inv 0 2 1 demo_trans" "lock_free LogLock (mach demo_trans)" "busy 1 demo_trans = {}" "refs 1 demo_trans = (\<lambda>_. 0)"
  "lh_n (log demo_trans) = 0" "l_size (log demo_trans) = 30" "l_outstanding (log demo_trans) = 1" "home (log demo_trans) 100"
  "blk 1 demo_trans = (\<lambda>_ _. 0)" "media demo_trans = (\<lambda>_ _. 0)"
proof -
  show "log_inv 0 2 1 demo_trans" using demo_bcache [of "\<lambda>_ _. 0"]
    by (simp add: log_inv_def demo_trans_def logged_blocks_def log_dev_def log_wf_def demo_cache_log get32_def)
  show "lock_free LogLock (mach demo_trans)" using demo_cache_fields(8) [of "{LogLock}"] by (simp add: demo_trans_def upd_log_def quiet_def)
  have "\<not> (\<exists>k\<le>30. (100 :: int) = 2 + int k)" by auto
  moreover have "(100 :: uint) = log_no (log demo_trans) k \<Longrightarrow> k \<le> 30 \<Longrightarrow> (100 :: int) = 2 + int k" for k
  proof -
    assume "(100 :: uint) = log_no (log demo_trans) k" "k \<le> 30"
    then have "uint (100 :: uint) = uint (word_of_int (2 + int k) :: uint)" by (simp only: log_no_def demo_trans_def upd_log_log demo_cache_log log.simps)
    then show "(100 :: int) = 2 + int k" unfolding uint_word_of_int using \<open>k \<le> 30\<close> by simp
  qed
  ultimately show "home (log demo_trans) 100" by (auto simp: home_def)
qed (simp_all add: demo_trans_def demo_cache_log demo_bcache(2-4))





section \<open>Room in the log\<close>



end
