(* ===== verification/Knuth_Rng.thy ===== *)
theory Knuth_Rng
  imports Kernel_Prelude
begin

text \<open>
  \<open>projects/project_3/.../random.c\<close>: Knuth's lagged-subtraction generator and the scaling used by
  the lottery scheduler. The arrays \<open>ran_x[KK]\<close> and \<open>aa[2000]\<close> are lists; their elements and the C
  variables are \<open>int\<close> values, and the lemmas show that they stay below \<open>MM\<close>, so that the
  \<open>long\<close> arithmetic of the source does not overflow.
\<close>

section \<open>The generator\<close>

definition KK :: nat where [simp]: "KK = 100"
definition LL :: nat where [simp]: "LL = 37"
definition MM :: int where [simp]: "MM = 2 ^ 30"
definition TT :: nat where [simp]: "TT = 70"

definition mod_diff :: "int \<Rightarrow> int \<Rightarrow> int" where
  "mod_diff x y = (x - y) AND (MM - 1)"

definition is_odd :: "int \<Rightarrow> bool" where
  "is_odd x \<longleftrightarrow> x AND 1 \<noteq> 0"

definition evenize :: "int \<Rightarrow> int" where
  "evenize x = x AND (MM - 2)"

record rng =
  ran_x :: "int list"
  aa :: "int list"
  rand_index :: int

definition ran_array :: "nat \<Rightarrow> rng \<Rightarrow> rng" where
  "ran_array n r =
     (let a = fold (\<lambda>j a. a[j := ran_x r ! j]) [0..<KK] (aa r);
          a = fold (\<lambda>j a. a[j := mod_diff (a ! (j - KK)) (a ! (j - LL))]) [KK..<n] a;
          x = fold (\<lambda>i x. x[i := mod_diff (a ! (n + i - KK)) (a ! (n + i - LL))]) [0..<LL] (ran_x r);
          x = fold (\<lambda>i x. x[i := mod_diff (a ! (n + i - KK)) (x ! (i - LL))]) [LL..<KK] x
      in r\<lparr>ran_x := x, aa := a\<rparr>)"

text \<open>The first loop of \<open>ran_start\<close>, filling \<open>x[0..KK)\<close> with doublings of the seed.\<close>

definition ran_fill :: "int \<Rightarrow> int list \<Rightarrow> int list" where
  "ran_fill ss x = fst (fold (\<lambda>j (x, ss).
     let x = x[j := ss]; ss = 2 * ss in (x, if ss \<ge> MM then ss - (MM - 2) else ss)) [0..<KK] (x, ss))"

text \<open>One round of the \<open>while (t)\<close> loop: square the polynomial, reduce, and shift when the bit is set.\<close>

definition ran_square :: "int list \<Rightarrow> int list" where
  "ran_square x =
     (let x = fold (\<lambda>j x. x[j + j := x ! j]) (rev [1..<KK]) x;
          x = fold (\<lambda>j x. x[KK + KK - 1 - j := evenize (x ! j)])
                (filter (\<lambda>j. even j) (rev [KK - LL + 1..<KK + KK - 1])) x
      in fold (\<lambda>j x. if is_odd (x ! j)
            then let x = x[j - (KK - LL) := mod_diff (x ! (j - (KK - LL))) (x ! j)]
                 in x[j - KK := mod_diff (x ! (j - KK)) (x ! j)]
            else x) (rev [KK..<KK + KK - 1]) x)"

definition ran_shift :: "int list \<Rightarrow> int list" where
  "ran_shift x =
     (let x = fold (\<lambda>j x. x[j := x ! (j - 1)]) (rev [1..<KK + 1]) x;
          x = x[0 := x ! KK]
      in if is_odd (x ! KK) then x[LL := mod_diff (x ! LL) (x ! KK)] else x)"

function ran_rounds :: "nat \<Rightarrow> int \<Rightarrow> int list \<Rightarrow> int list" where
  "ran_rounds t ss x =
     (if t = 0 then x
      else let x = ran_square x; x = (if is_odd ss then ran_shift x else x)
           in if ss > 0 then ran_rounds t (ss div 2) x else ran_rounds (t - 1) ss x)"
  by pat_completeness auto
termination
  by (relation "measure (\<lambda>(t, ss, x). t + nat ss)") auto

declare ran_rounds.simps [simp del]

definition ran_start :: "int \<Rightarrow> rng \<Rightarrow> rng" where
  "ran_start seed r =
     (let x = ran_fill (evenize (seed + 2)) (replicate (KK + KK - 1) 0);
          x = x[1 := x ! 1 + 1];
          x = ran_rounds (TT - 1) (seed AND (MM - 1)) x;
          y = fold (\<lambda>j y. y[j + KK - LL := x ! j]) [0..<LL] (ran_x r);
          y = fold (\<lambda>j y. y[j - LL := x ! j]) [LL..<KK] y
      in (ran_array 1009 (r\<lparr>ran_x := y\<rparr>))\<lparr>rand_index := 0\<rparr>)"

definition nextRand :: "rng \<Rightarrow> int \<times> rng" where
  "nextRand r =
     (let r = r\<lparr>rand_index := rand_index r + 1\<rparr>;
          r = (if rand_index r > 100 then (ran_array 1009 r)\<lparr>rand_index := 0\<rparr> else r)
      in (aa r ! nat (rand_index r), r))"

definition rand_init :: "int \<Rightarrow> rng \<Rightarrow> rng" where
  "rand_init seed r = ran_start seed r"

text \<open>C's remainder truncates towards zero; a zero divisor has no defined result.\<close>

definition crem :: "int \<Rightarrow> int \<Rightarrow> int" where
  "crem a b = sgn a * (\<bar>a\<bar> mod \<bar>b\<bar>)"

definition scaled_random :: "int \<Rightarrow> int \<Rightarrow> rng \<Rightarrow> int option \<times> rng" where
  "scaled_random low high r =
     (let range = high - low + 1; (val, r) = nextRand r
      in (if range = 0 then None else Some (crem val range + low), r))"

section \<open>Bounds\<close>

definition in_mm :: "int \<Rightarrow> bool" where
  "in_mm v \<longleftrightarrow> 0 \<le> v \<and> v < MM"

definition rng_ok :: "rng \<Rightarrow> bool" where
  "rng_ok r \<longleftrightarrow> length (ran_x r) = KK \<and> length (aa r) = 2000 \<and> list_all in_mm (ran_x r)
     \<and> list_all in_mm (aa r) \<and> 0 \<le> rand_index r \<and> rand_index r \<le> 100"

lemma mask30: "(x :: int) AND (2 ^ 30 - 1) = x mod 2 ^ 30"
  by (simp only: mask_eq_exp_minus_1 [symmetric] take_bit_eq_mask [symmetric] take_bit_eq_mod)

lemma mod_diff_eq: "mod_diff x y = (x - y) mod MM"
  using mask30 [of "x - y"] by (simp add: mod_diff_def)

lemma mod_diff_in [simp]: "in_mm (mod_diff x y)"
  by (simp add: mod_diff_eq in_mm_def)

lemma list_all_update: "list_all P xs \<Longrightarrow> P v \<Longrightarrow> list_all P (xs[i := v])"
  by (cases "i < length xs") (auto simp: list_all_length nth_list_update)

lemma fold_list_ok:
  assumes "\<And>j x. j \<in> set js \<Longrightarrow> length x = n \<Longrightarrow> list_all P x \<Longrightarrow> length (f j x) = n \<and> list_all P (f j x)"
    and "length x = n" "list_all P x"
  shows "length (fold f js x) = n \<and> list_all P (fold f js x)"
  using assms by (induction js arbitrary: x) auto

lemma ran_array_ok:
  assumes "rng_ok r" "n \<le> 2000"
  shows "rng_ok (ran_array n r)"
proof -
  define a1 where "a1 = fold (\<lambda>j a. a[j := ran_x r ! j]) [0..<KK] (aa r)"
  define a2 where "a2 = fold (\<lambda>j a. a[j := mod_diff (a ! (j - KK)) (a ! (j - LL))]) [KK..<n] a1"
  define x1 where "x1 = fold (\<lambda>i x. x[i := mod_diff (a2 ! (n + i - KK)) (a2 ! (n + i - LL))]) [0..<LL] (ran_x r)"
  define x2 where "x2 = fold (\<lambda>i x. x[i := mod_diff (a2 ! (n + i - KK)) (x ! (i - LL))]) [LL..<KK] x1"
  have 1: "length a1 = 2000 \<and> list_all in_mm a1" unfolding a1_def
    using assms(1) by (intro fold_list_ok) (auto simp: rng_ok_def list_all_length nth_list_update)
  have 2: "length a2 = 2000 \<and> list_all in_mm a2" unfolding a2_def
    using 1 by (intro fold_list_ok) (simp_all add: list_all_update)
  have 3: "length x1 = KK \<and> list_all in_mm x1" unfolding x1_def
    using assms(1) by (intro fold_list_ok) (simp_all add: rng_ok_def list_all_update)
  have 4: "length x2 = KK \<and> list_all in_mm x2" unfolding x2_def
    using 3 by (intro fold_list_ok) (simp_all add: list_all_update)
  have e: "ran_array n r = r\<lparr>ran_x := x2, aa := a2\<rparr>"
    unfolding ran_array_def a1_def a2_def x1_def x2_def Let_def ..
  show ?thesis using 2 4 assms(1) unfolding e by (simp add: rng_ok_def)
qed

lemma ran_array_index: "ran_array n (r\<lparr>rand_index := k\<rparr>) = (ran_array n r)\<lparr>rand_index := k\<rparr>"
  by (cases r) (simp only: ran_array_def Let_def rng.simps)

lemma nextRand_ok:
  assumes "rng_ok r" "nextRand r = (v, r')"
  shows "rng_ok r' \<and> in_mm v"
proof -
  let ?r = "r\<lparr>rand_index := rand_index r + 1\<rparr>"
  define r1 where "r1 = (if rand_index r + 1 > 100 then (ran_array 1009 ?r)\<lparr>rand_index := 0\<rparr> else ?r)"
  have e: "v = aa r1 ! nat (rand_index r1)" "r' = r1"
    using assms(2) by (auto simp: nextRand_def Let_def r1_def)
  have f: "(ran_array 1009 ?r)\<lparr>rand_index := 0\<rparr> = (ran_array 1009 r)\<lparr>rand_index := 0\<rparr>"
    by (simp only: ran_array_index) simp
  have ok: "rng_ok r1"
    using ran_array_ok [OF assms(1), of 1009] assms(1) unfolding r1_def f by (auto simp: rng_ok_def)
  then have "rand_index r1 \<le> 100" "length (aa r1) = 2000" by (simp_all add: rng_ok_def)
  then have "nat (rand_index r1) < length (aa r1)" by linarith
  then have "in_mm v" using ok e(1) by (simp add: rng_ok_def list_all_length)
  then show ?thesis using ok e(2) by simp
qed

lemma evenize_in [simp]: "in_mm (evenize v)"
proof -
  have "0 \<le> evenize v" by (simp add: evenize_def)
  moreover have "evenize v \<le> MM - 2" unfolding evenize_def by (rule AND_upper2) simp
  ultimately show ?thesis by (simp add: in_mm_def)
qed

lemma even_evenize: "even (evenize v)"
  by (simp add: evenize_def even_and_iff)

lemma in_mm_nth: "list_all in_mm x \<Longrightarrow> i < length x \<Longrightarrow> in_mm (x ! i)"
  by (simp add: list_all_length)

lemma fold_keeps: "P y \<Longrightarrow> (\<And>j y. j \<in> set js \<Longrightarrow> P y \<Longrightarrow> P (f j y)) \<Longrightarrow> P (fold f js y)"
  by (induction js arbitrary: y) auto

lemma ran_fill_ok:
  assumes "in_mm ss" "even ss" "length x = 199" "list_all in_mm x" "\<forall>j<100. even (x ! j)"
  shows "length (ran_fill ss x) = 199 \<and> list_all in_mm (ran_fill ss x) \<and> (\<forall>j<100. even (ran_fill ss x ! j))"
proof -
  let ?f = "\<lambda>j (x, ss). let x = x[j := ss]; ss = 2 * ss in (x, if ss \<ge> MM then ss - (MM - 2) else ss)"
  define P where "P = (\<lambda>(x, ss). in_mm ss \<and> even ss \<and> length x = 199 \<and> list_all in_mm x
    \<and> (\<forall>j<100. even (x ! j)))"
  have step: "P (?f j y)" if "P y" "j < 199" for j y
  proof -
    obtain x ss where y: "y = (x, ss)" by fastforce
    have ss: "0 \<le> ss" "ss < 2 ^ 30" "even ss" using that(1) by (auto simp: P_def y in_mm_def)
    then have "ss \<le> 2 ^ 30 - 2" by (auto elim!: evenE)
    then show ?thesis using that ss
      by (auto simp: P_def y in_mm_def Let_def nth_list_update intro!: list_all_update)
  qed
  have "P (x, ss)" using assms by (simp add: P_def)
  then have "P (fold ?f [0..<KK] (x, ss))" by (rule fold_keeps) (rule step, simp_all)
  then show ?thesis unfolding ran_fill_def P_def by (simp only: split_beta) blast
qed

lemma ran_square_ok:
  assumes "length x = 199 \<and> list_all in_mm x"
  shows "length (ran_square x) = 199 \<and> list_all in_mm (ran_square x)"
proof -
  define x1 where "x1 = fold (\<lambda>j x. x[j + j := x ! j]) (rev [1..<KK]) x"
  define x2 where "x2 = fold (\<lambda>j x. x[KK + KK - 1 - j := evenize (x ! j)])
    (filter (\<lambda>j. even j) (rev [KK - LL + 1..<KK + KK - 1])) x1"
  have 1: "length x1 = 199 \<and> list_all in_mm x1" unfolding x1_def
    using assms by (intro fold_list_ok) (auto intro!: list_all_update in_mm_nth)
  have 2: "length x2 = 199 \<and> list_all in_mm x2" unfolding x2_def
    using 1 by (intro fold_list_ok) (auto intro!: list_all_update)
  have e: "ran_square x = fold (\<lambda>j x. if is_odd (x ! j)
            then let x = x[j - (KK - LL) := mod_diff (x ! (j - (KK - LL))) (x ! j)]
                 in x[j - KK := mod_diff (x ! (j - KK)) (x ! j)]
            else x) (rev [KK..<KK + KK - 1]) x2"
    unfolding ran_square_def x1_def x2_def Let_def ..
  show ?thesis unfolding e
    using 2 by (intro fold_list_ok) (auto simp: Let_def intro!: list_all_update)
qed

lemma ran_shift_ok:
  assumes "length x = 199 \<and> list_all in_mm x"
  shows "length (ran_shift x) = 199 \<and> list_all in_mm (ran_shift x)"
proof -
  define x1 where "x1 = fold (\<lambda>j x. x[j := x ! (j - 1)]) (rev [1..<KK + 1]) x"
  have 1: "length x1 = 199 \<and> list_all in_mm x1" unfolding x1_def
    using assms by (intro fold_list_ok) (auto intro!: list_all_update in_mm_nth)
  have e: "ran_shift x = (let x = x1[0 := x1 ! KK] in if is_odd (x ! KK) then x[LL := mod_diff (x ! LL) (x ! KK)] else x)"
    unfolding ran_shift_def x1_def Let_def ..
  show ?thesis unfolding e using 1 by (auto simp: Let_def intro!: list_all_update in_mm_nth)
qed

lemma ran_rounds_ok:
  "length x = 199 \<and> list_all in_mm x \<Longrightarrow> length (ran_rounds t ss x) = 199 \<and> list_all in_mm (ran_rounds t ss x)"
proof (induction t ss x rule: ran_rounds.induct)
  case (1 t ss x)
  let ?y = "if is_odd ss then ran_shift (ran_square x) else ran_square x"
  have y: "length ?y = 199 \<and> list_all in_mm ?y"
    using ran_shift_ok [OF ran_square_ok [OF "1.prems"]] ran_square_ok [OF "1.prems"] by simp
  show ?case
  proof (cases "t = 0")
    case False
    then show ?thesis using "1.IH" [OF False refl refl] y
      by (subst (1 2) ran_rounds.simps) (simp add: Let_def)
  qed (use "1.prems" in \<open>simp add: ran_rounds.simps\<close>)
qed

lemma ran_start_ok:
  assumes "length (ran_x r) = KK" "length (aa r) = 2000" "list_all in_mm (ran_x r)" "list_all in_mm (aa r)"
  shows "rng_ok (ran_start seed r)"
proof -
  define x0 where "x0 = ran_fill (evenize (seed + 2)) (replicate (KK + KK - 1) 0)"
  define x1 where "x1 = ran_rounds (TT - 1) (seed AND (MM - 1)) (x0[1 := x0 ! 1 + 1])"
  define y1 where "y1 = fold (\<lambda>j y. y[j + KK - LL := x1 ! j]) [0..<LL] (ran_x r)"
  define y2 where "y2 = fold (\<lambda>j y. y[j - LL := x1 ! j]) [LL..<KK] y1"
  have z: "in_mm 0" by (simp add: in_mm_def)
  have 0: "length x0 = 199 \<and> list_all in_mm x0 \<and> (\<forall>j<100. even (x0 ! j))"
    unfolding x0_def by (rule ran_fill_ok) (simp_all add: even_evenize list_all_length z)
  have "in_mm (x0 ! 1)" "even (x0 ! 1)" using 0 by (auto intro: in_mm_nth)
  then have "in_mm (x0 ! 1 + 1)" unfolding in_mm_def by (auto elim!: evenE)
  then have 1: "length x1 = 199 \<and> list_all in_mm x1"
    unfolding x1_def using 0 by (intro ran_rounds_ok) (auto intro: list_all_update)
  have 2: "length y1 = KK \<and> list_all in_mm y1" unfolding y1_def
    using assms 1 by (intro fold_list_ok) (auto intro!: list_all_update in_mm_nth)
  have 3: "length y2 = KK \<and> list_all in_mm y2" unfolding y2_def
    using 1 2 by (intro fold_list_ok) (auto intro!: list_all_update in_mm_nth)
  have e: "ran_start seed r = (ran_array 1009 (r\<lparr>ran_x := y2\<rparr>))\<lparr>rand_index := 0\<rparr>"
    unfolding ran_start_def x0_def x1_def y1_def y2_def Let_def ..
  have "rng_ok (ran_array 1009 (r\<lparr>ran_x := y2, rand_index := 0\<rparr>))"
    using 3 assms by (intro ran_array_ok) (simp_all add: rng_ok_def)
  moreover have "(ran_array 1009 (r\<lparr>ran_x := y2, rand_index := 0\<rparr>)) = ran_start seed r"
    unfolding e by (simp only: ran_array_index)
  ultimately show ?thesis by simp
qed

section \<open>Correctness of the scaled random numbers\<close>

definition rng0 :: rng where
  "rng0 = \<lparr>ran_x = replicate KK 0, aa = replicate 2000 0, rand_index = 0\<rparr>"

lemma scaled_random_in:
  assumes "rng_ok r" "low \<le> high"
  shows "\<exists>v r'. scaled_random low high r = (Some v, r') \<and> low \<le> v \<and> v \<le> high \<and> rng_ok r'"
proof -
  obtain v r' where n: "nextRand r = (v, r')" by fastforce
  have v: "0 \<le> v" "rng_ok r'" using nextRand_ok [OF assms(1) n] by (auto simp: in_mm_def)
  have "sgn v * (\<bar>v\<bar> mod \<bar>high - low + 1\<bar>) = v mod (high - low + 1)"
    using v(1) assms(2) by (cases "v = 0") simp_all
  then show ?thesis
    using n v assms(2) pos_mod_bound [of "high - low + 1" v] by (auto simp: scaled_random_def crem_def)
qed



end
