(* ===== verification/Lottery.thy ===== *)
theory Lottery
  imports Syscall Knuth_Rng
begin

text \<open>
  The lottery scheduler of \<open>projects/project_3\<close>: \<open>get_total_tickets()\<close>, the selection loop of
  \<open>scheduler()\<close>, the ticket bookkeeping of \<open>allocproc()\<close>, \<open>freeproc()\<close> and \<open>fork()\<close>, \<open>getpinfo()\<close>, and the
  system calls around them. The fields \<open>tickets\<close> and \<open>ticks\<close> that the project adds to \<open>struct proc\<close> are
  arrays of the extended state. Overflow of a signed addition is undefined.
\<close>

section \<open>The scheduler\<close>

record lkstate = pkstate +
  tickets :: "nat \<Rightarrow> int"
  pticks :: "nat \<Rightarrow> int"
  rng_state :: rng

definition DEFAULT_TICKETS :: int where [simp]: "DEFAULT_TICKETS = 1"
definition DEFAULT_SEED :: int where [simp]: "DEFAULT_SEED = 20"

definition cint :: "int \<Rightarrow> int kres" where
  "cint v = (if - (2 ^ 31) \<le> v \<and> v < 2 ^ 31 then Inr v else Inl (Undefined ''signed overflow''))"

definition set_tickets :: "nat \<Rightarrow> int \<Rightarrow> 'a lkstate_scheme \<Rightarrow> 'a lkstate_scheme" where
  "set_tickets p n s = s\<lparr>tickets := (tickets s)(p := n)\<rparr>"

fun total_scan :: "nat \<Rightarrow> nat list \<Rightarrow> int \<Rightarrow> 'a lkstate_scheme \<Rightarrow> (int \<times> 'a lkstate_scheme) kres" where
  "total_scan c [] tot s = Inr (tot, s)"
| "total_scan c (i # is) tot s =
     bnd (kacquire c (ProcLock i) s) (\<lambda>s.
     bnd (if p_state (procs s i) = RUNNABLE then cint (tot + tickets s i) else Inr tot) (\<lambda>tot.
     bnd (krelease c (ProcLock i) s) (total_scan c is tot)))"

definition get_total_tickets :: "nat \<Rightarrow> 'a lkstate_scheme \<Rightarrow> (int \<times> 'a lkstate_scheme) kres" where
  "get_total_tickets c s = total_scan c [0..<NPROC] 0 s"

text \<open>The \<open>while\<close> loop of \<open>scheduler()\<close>, up to the \<open>swtch\<close> into the winner.\<close>

fun lottery_scan :: "nat \<Rightarrow> int \<Rightarrow> int \<Rightarrow> nat list \<Rightarrow> 'a lkstate_scheme \<Rightarrow> (nat option \<times> 'a lkstate_scheme) kres" where
  "lottery_scan c winning counted [] s = Inr (None, s)"
| "lottery_scan c winning counted (i # is) s =
     bnd (kacquire c (ProcLock i) s) (\<lambda>s.
       if p_state (procs s i) = RUNNABLE
       then bnd (cint (counted + tickets s i)) (\<lambda>counted.
              if counted \<ge> winning
              then bnd (cint (pticks s i + 1)) (\<lambda>t.
                   let s = upd_proc i (\<lambda>q. q\<lparr>p_state := RUNNING\<rparr>) (s\<lparr>pticks := (pticks s)(i := t)\<rparr>)
                   in Inr (Some i, s\<lparr>mach := set_cpu c ((mycpu c (mach s))\<lparr>cproc := Some i\<rparr>) (mach s)\<rparr>))
              else bnd (krelease c (ProcLock i) s) (lottery_scan c winning counted is))
       else bnd (krelease c (ProcLock i) s) (lottery_scan c winning counted is))"

definition lottery_start :: "nat \<Rightarrow> 'a lkstate_scheme \<Rightarrow> 'a lkstate_scheme" where
  "lottery_start c s = scheduler_init c (s\<lparr>rng_state := rand_init DEFAULT_SEED (rng_state s)\<rparr>)"

text \<open>One iteration of the endless loop; \<open>scheduler_return\<close> is what follows the \<open>swtch\<close>.\<close>

definition lottery_round :: "nat \<Rightarrow> 'a lkstate_scheme \<Rightarrow> (nat option \<times> 'a lkstate_scheme) kres" where
  "lottery_round c s =
     (let s = s\<lparr>mach := set_sstatus c (intr_on (sstatus (mach s) c)) (mach s)\<rparr>
      in bnd (get_total_tickets c s) (\<lambda>(tot, s).
         case scaled_random 1 tot (rng_state s) of
           (None, r) \<Rightarrow> Inl (Undefined ''remainder by zero'')
         | (Some winning, r) \<Rightarrow> lottery_scan c winning 0 [0..<NPROC] (s\<lparr>rng_state := r\<rparr>)))"

section \<open>Life of the tickets\<close>

definition lottery_freeproc :: "nat \<Rightarrow> nat \<Rightarrow> 'a lkstate_scheme \<Rightarrow> 'a lkstate_scheme kres" where
  "lottery_freeproc c p s =
     bnd (freeproc c p s) (\<lambda>s. Inr (set_tickets p 0 (s\<lparr>pticks := (pticks s)(p := 0)\<rparr>)))"

definition lottery_allocproc_fail :: "nat \<Rightarrow> nat \<Rightarrow> 'a lkstate_scheme \<Rightarrow> (nat option \<times> 'a lkstate_scheme) kres" where
  "lottery_allocproc_fail c p s =
     bnd (lottery_freeproc c p s) (\<lambda>s. bnd (krelease c (ProcLock p) s) (\<lambda>s. Inr (None, s)))"

definition lottery_allocproc :: "nat \<Rightarrow> 'a lkstate_scheme \<Rightarrow> (nat option \<times> 'a lkstate_scheme) kres" where
  "lottery_allocproc c s =
     bnd (allocproc_scan c [0..<NPROC] s) (\<lambda>(r, s).
       case r of None \<Rightarrow> Inr (None, s)
       | Some p \<Rightarrow>
         bnd (allocpid c s) (\<lambda>(n, s).
         let s = upd_proc p (\<lambda>q. q\<lparr>p_pid := n, p_state := USED\<rparr>) s;
             s = set_tickets p DEFAULT_TICKETS s
         in bnd (kalloc c s) (\<lambda>(tf, s).
            let s = upd_proc p (\<lambda>q. q\<lparr>p_trapframe := tf\<rparr>) s
            in if tf = 0 then lottery_allocproc_fail c p s
               else bnd (proc_pagetable c p s) (\<lambda>(pt, s).
                 let s = upd_proc p (\<lambda>q. q\<lparr>p_pagetable := pt\<rparr>) s
                 in if pt = 0 then lottery_allocproc_fail c p s
                    else Inr (Some p, upd_proc p (\<lambda>q. q\<lparr>p_context :=
                           \<lparr>c_ra = forkret_addr s, c_sp = p_kstack q + PGSIZE, c_s = (\<lambda>_. 0)\<rparr>\<rparr>) s)))))"

text \<open>The lines of \<open>fork()\<close> that give the child \<open>np\<close> as many tickets as its parent \<open>p\<close>.\<close>

definition fork_tickets :: "nat \<Rightarrow> nat \<Rightarrow> nat \<Rightarrow> 'a lkstate_scheme \<Rightarrow> 'a lkstate_scheme kres" where
  "fork_tickets c p np s =
     bnd (kacquire c (ProcLock p) s) (\<lambda>s. krelease c (ProcLock p) (set_tickets np (tickets s p) s))"

section \<open>System calls\<close>

definition sys_settickets :: "nat \<Rightarrow> 'a lkstate_scheme \<Rightarrow> (uint64 \<times> 'a lkstate_scheme) kres" where
  "sys_settickets c s =
     bnd (curproc c s) (\<lambda>(p, s).
     bnd (argint c 0 s) (\<lambda>(number, s).
     bnd (kacquire c (ProcLock p) s) (\<lambda>s.
     bnd (krelease c (ProcLock p) (set_tickets p number s)) (\<lambda>s. Inr (0, s)))))"

record pstat =
  ps_inuse :: "int list"
  ps_tickets :: "int list"
  ps_pid :: "int list"
  ps_ticks :: "int list"

fun pinfo_scan :: "nat \<Rightarrow> nat list \<Rightarrow> pstat \<Rightarrow> 'a lkstate_scheme \<Rightarrow> (pstat \<times> 'a lkstate_scheme) kres" where
  "pinfo_scan c [] ps s = Inr (ps, s)"
| "pinfo_scan c (i # is) ps s =
     bnd (kacquire c (ProcLock i) s) (\<lambda>s.
       let ps = ps\<lparr>ps_tickets := (ps_tickets ps)[i := tickets s i], ps_ticks := (ps_ticks ps)[i := pticks s i],
                   ps_pid := (ps_pid ps)[i := p_pid (procs s i)],
                   ps_inuse := (ps_inuse ps)[i := (if p_state (procs s i) \<noteq> UNUSED then 1 else 0)]\<rparr>
       in bnd (krelease c (ProcLock i) s) (pinfo_scan c is ps))"

text \<open>The bytes of a \<open>struct pstat\<close>: its four arrays of 32-bit integers in order.\<close>

definition pstat_bytes :: "pstat \<Rightarrow> bytes" where
  "pstat_bytes ps = bytes_of (concat (map (\<lambda>v. map (int_bytes v) [0..<4])
     (ps_inuse ps @ ps_tickets ps @ ps_pid ps @ ps_ticks ps)))"

text \<open>The local \<open>struct pstat\<close> is uninitialised; every element is overwritten by the loop.\<close>

definition getpinfo :: "nat \<Rightarrow> uint64 \<Rightarrow> pstat \<Rightarrow> 'a lkstate_scheme \<Rightarrow> (int \<times> 'a lkstate_scheme) kres" where
  "getpinfo c pFromUser process_info s =
     (if pFromUser = 0 then Inr (-1, s)
      else bnd (pinfo_scan c [0..<NPROC] process_info s) (\<lambda>(ps, s).
           bnd (either_copyout c True pFromUser (pstat_bytes ps) 1024 s) (\<lambda>(r, s). Inr (0, s))))"

definition sys_getpinfo :: "nat \<Rightarrow> pstat \<Rightarrow> 'a lkstate_scheme \<Rightarrow> (uint64 \<times> 'a lkstate_scheme) kres" where
  "sys_getpinfo c process_info s =
     bnd (argaddr c 0 s) (\<lambda>(addr, s). bnd (getpinfo c addr process_info s) (\<lambda>(r, s). Inr (word_of_int r, s)))"

definition sys_rand_init :: "nat \<Rightarrow> 'a lkstate_scheme \<Rightarrow> (uint64 \<times> 'a lkstate_scheme) kres" where
  "sys_rand_init c s = bnd (argint c 0 s) (\<lambda>(seed, s). Inr (0, s\<lparr>rng_state := rand_init seed (rng_state s)\<rparr>))"

definition sys_scaled_random :: "nat \<Rightarrow> 'a lkstate_scheme \<Rightarrow> (uint64 \<times> 'a lkstate_scheme) kres" where
  "sys_scaled_random c s =
     bnd (argint c 0 s) (\<lambda>(low, s).
     bnd (argint c 1 s) (\<lambda>(high, s).
       case scaled_random low high (rng_state s) of
         (None, r) \<Rightarrow> Inl (Undefined ''remainder by zero'')
       | (Some v, r) \<Rightarrow> Inr (word_of_int v, s\<lparr>rng_state := r\<rparr>)))"

section \<open>The lottery as a pure function\<close>

fun pick :: "(nat \<times> int) list \<Rightarrow> int \<Rightarrow> int \<Rightarrow> nat option" where
  "pick [] w acc = None"
| "pick ((i, t) # xs) w acc = (if acc + t \<ge> w then Some i else pick xs w (acc + t))"

definition entrants :: "nat list \<Rightarrow> 'a lkstate_scheme \<Rightarrow> (nat \<times> int) list" where
  "entrants is s = map (\<lambda>i. (i, tickets s i)) (filter (\<lambda>i. p_state (procs s i) = RUNNABLE) is)"

lemma entrants_mach [simp]: "entrants is (s\<lparr>mach := m\<rparr>) = entrants is s"
  by (simp add: entrants_def)

definition fair :: "'a lkstate_scheme \<Rightarrow> bool" where
  "fair s \<longleftrightarrow> (\<forall>i. 0 \<le> tickets s i) \<and> (\<forall>i. 0 \<le> pticks s i \<and> pticks s i < 2 ^ 31 - 1)"

lemma fair_mach [simp]: "fair (s\<lparr>mach := m\<rparr>) = fair s"
  by (simp add: fair_def)

lemma entrants_Cons:
  "entrants (i # is) s = (if p_state (procs s i) = RUNNABLE then (i, tickets s i) # entrants is s else entrants is s)"
  by (simp add: entrants_def)

lemma entrants_nonneg: "fair s \<Longrightarrow> 0 \<le> sum_list (map snd (entrants is s))"
  by (rule sum_list_nonneg) (auto simp: entrants_def fair_def)

definition won :: "nat \<Rightarrow> nat \<Rightarrow> 'a lkstate_scheme \<Rightarrow> 'a lkstate_scheme \<Rightarrow> bool" where
  "won c i s s' \<longleftrightarrow> p_state (procs s i) = RUNNABLE \<and> cur c s' = Some i
     \<and> procs s' = (procs s)(i := (procs s i)\<lparr>p_state := RUNNING\<rparr>)
     \<and> pticks s' = (pticks s)(i := pticks s i + 1) \<and> tickets s' = tickets s"

lemma won_mach [simp]: "won c i (s\<lparr>mach := m\<rparr>) s' = won c i s s'"
  by (simp add: won_def)

lemma total_scan_eq:
  assumes "cpu_ok c (mach s)" "\<forall>i\<in>set is. lock_free (ProcLock i) (mach s)" "fair s"
    "0 \<le> t" "t + sum_list (map snd (entrants is s)) < 2 ^ 31"
  shows "total_scan c is t s = Inr (t + sum_list (map snd (entrants is s)), if is = [] then s else calm c s)"
  using assms
proof (induction "is" arbitrary: t s)
  case (Cons i xs)
  have r: "krelease c (ProcLock i) (s\<lparr>mach := taken c (ProcLock i) (mach s)\<rparr>) = Inr (calm c s)"
    using Cons.prems by (simp add: krelease_taken)
  have t0: "0 \<le> tickets s i" using Cons.prems(3) by (simp add: fair_def)
  have n: "0 \<le> sum_list (map snd (entrants xs s))" using Cons.prems(3) by (rule entrants_nonneg)
  have IH: "total_scan c xs u (calm c s) = Inr (u + sum_list (map snd (entrants xs s)), calm c s)"
    if "0 \<le> u" "u + sum_list (map snd (entrants xs s)) < 2 ^ 31" for u
    using that Cons.prems Cons.IH [of "calm c s" u] by auto
  show ?case using Cons.prems r IH n t0 by (auto simp: entrants_Cons cint_def)
qed (simp add: entrants_def)

lemma lottery_scan_pick:
  assumes "cpu_ok c (mach s)" "\<forall>i\<in>set is. lock_free (ProcLock i) (mach s)" "fair s"
    "0 \<le> acc" "acc + sum_list (map snd (entrants is s)) < 2 ^ 31"
  shows "\<exists>s'. lottery_scan c w acc is s = Inr (pick (entrants is s) w acc, s')
    \<and> (\<forall>i. pick (entrants is s) w acc = Some i \<longrightarrow> won c i s s')"
  using assms
proof (induction "is" arbitrary: acc s)
  case (Cons i xs)
  have r: "krelease c (ProcLock i) (s\<lparr>mach := taken c (ProcLock i) (mach s)\<rparr>) = Inr (calm c s)"
    using Cons.prems by (simp add: krelease_taken)
  have t0: "0 \<le> tickets s i" "0 \<le> pticks s i" "pticks s i + 1 < 2 ^ 31"
    using Cons.prems(3) by (auto simp: fair_def less_diff_eq)
  have n: "0 \<le> sum_list (map snd (entrants xs s))" using Cons.prems(3) by (rule entrants_nonneg)
  have IH: "\<exists>s'. lottery_scan c w a xs (calm c s) = Inr (pick (entrants xs s) w a, s')
    \<and> (\<forall>i. pick (entrants xs s) w a = Some i \<longrightarrow> won c i s s')"
    if "0 \<le> a" "a + sum_list (map snd (entrants xs s)) < 2 ^ 31" for a
    using that Cons.prems Cons.IH [of "calm c s" a] by simp
  show ?case
  proof (cases "p_state (procs s i) = RUNNABLE")
    case True
    then have "- (2 ^ 31) \<le> acc + tickets s i" "acc + tickets s i < 2 ^ 31"
      using Cons.prems(4,5) n t0 by (auto simp: entrants_Cons)
    then have ci: "cint (acc + tickets s i) = Inr (acc + tickets s i)" "cint (pticks s i + 1) = Inr (pticks s i + 1)"
      using t0 by (simp_all add: cint_def)
    show ?thesis
    proof (cases "acc + tickets s i \<ge> w")
      case True
      then show ?thesis using Cons.prems ci \<open>p_state (procs s i) = RUNNABLE\<close>
        by (simp add: entrants_Cons upd_proc_def mycpu_def set_cpu_def won_def)
    next
      case False
      then show ?thesis using IH [of "acc + tickets s i"] Cons.prems r t0 ci True by (simp add: entrants_Cons)
    qed
  next
    case False
    then show ?thesis using IH [of acc] Cons.prems r by (simp add: entrants_Cons)
  qed
qed (simp add: entrants_def)

text \<open>Among the winning numbers \<open>acc+1\<close> to \<open>acc+total\<close>, each entrant is drawn by as many as it has tickets.\<close>

lemma pick_card:
  assumes "distinct (map fst xs)" "(i, t) \<in> set xs" "\<forall>(j, u)\<in>set xs. 0 \<le> u"
  shows "card {w. acc < w \<and> w \<le> acc + sum_list (map snd xs) \<and> pick xs w acc = Some i} = nat t"
  using assms
proof (induction xs arbitrary: acc)
  case (Cons x xs)
  obtain j u where x: "x = (j, u)" by fastforce
  have u: "0 \<le> u" and rest: "0 \<le> sum_list (map snd xs)"
    using Cons.prems(3) x by (fastforce intro!: sum_list_nonneg)+
  show ?case
  proof (cases "i = j")
    case True
    then have t: "t = u" using Cons.prems(1,2) x by (auto simp: rev_image_eqI)
    have no: "pick xs w a \<noteq> Some i" for w a
    proof -
      have "i \<notin> fst ` set xs" using Cons.prems(1) x True by simp
      then show ?thesis by (induction xs arbitrary: a) (auto split: if_splits)
    qed
    have "{w. acc < w \<and> w \<le> acc + sum_list (map snd (x # xs)) \<and> pick (x # xs) w acc = Some i} = {acc<..acc + u}"
      using True no rest u by (auto simp: x)
    then show ?thesis using t by simp
  next
    case False
    have "{w. acc < w \<and> w \<le> acc + sum_list (map snd (x # xs)) \<and> pick (x # xs) w acc = Some i}
      = {w. acc + u < w \<and> w \<le> acc + u + sum_list (map snd xs) \<and> pick xs w (acc + u) = Some i}"
      using False u by (auto simp: x)
    then show ?thesis using Cons.IH [of "acc + u"] Cons.prems False x by auto
  qed
qed simp

section \<open>Correctness\<close>

lemma pick_Some:
  assumes "acc < w" "w \<le> acc + sum_list (map snd xs)"
  shows "\<exists>i t. (i, t) \<in> set xs \<and> pick xs w acc = Some i"
  using assms
proof (induction xs arbitrary: acc)
  case (Cons x xs)
  obtain i t where x: "x = (i, t)" by fastforce
  show ?case
  proof (cases "acc + t \<ge> w")
    case False
    then have "\<exists>j u. (j, u) \<in> set xs \<and> pick xs w (acc + t) = Some j"
      using Cons.prems x by (intro Cons.IH) auto
    then show ?thesis using False by (auto simp: x)
  qed (auto simp: x)
qed simp

abbreviation all_tickets :: "'a lkstate_scheme \<Rightarrow> int" where
  "all_tickets s \<equiv> sum_list (map snd (entrants [0..<NPROC] s))"

text \<open>
  C20. The lottery is fair: when no process has a negative number of tickets and their total fits an
  \<open>int\<close>, \<open>get_total_tickets()\<close> returns the total over the runnable processes, and of the winning numbers
  from 1 to that total, exactly \<open>tickets\<close> many make the scheduler's loop select a given runnable process.
\<close>

theorem lottery_fair:
  assumes "quiet c proc_locks s" and "fair s" and "all_tickets s < 2 ^ 31"
    and "i < NPROC" and "p_state (procs s i) = RUNNABLE"
  shows "(\<exists>s'. get_total_tickets c s = Inr (all_tickets s, s'))
    \<and> card {w. 1 \<le> w \<and> w \<le> all_tickets s \<and> (\<exists>s'. lottery_scan c w 0 [0..<NPROC] s = Inr (Some i, s'))}
      = nat (tickets s i)"
proof -
  let ?xs = "entrants [0..<NPROC] s"
  have q: "cpu_ok c (mach s)" "\<forall>i\<in>set [0..<NPROC]. lock_free (ProcLock i) (mach s)"
    using assms(1) by (auto simp: quiet_def)
  have tot: "get_total_tickets c s = Inr (all_tickets s, calm c s)"
    using total_scan_eq [OF q assms(2), of 0] assms(3) by (simp add: get_total_tickets_def del: upt_Suc)
  have "(\<exists>s'. lottery_scan c w 0 [0..<NPROC] s = Inr (Some i, s')) \<longleftrightarrow> pick ?xs w 0 = Some i" for w
    using lottery_scan_pick [OF q assms(2), of 0 w] assms(3) by auto
  then have eq: "{w. 1 \<le> w \<and> w \<le> all_tickets s \<and> (\<exists>s'. lottery_scan c w 0 [0..<NPROC] s = Inr (Some i, s'))}
    = {w. 0 < w \<and> w \<le> 0 + all_tickets s \<and> pick ?xs w 0 = Some i}" by auto
  have "map fst ?xs = filter (\<lambda>i. p_state (procs s i) = RUNNABLE) [0..<NPROC]"
    by (simp add: entrants_def comp_def del: upt_Suc)
  then have "distinct (map fst ?xs)" "(i, tickets s i) \<in> set ?xs" "\<forall>(j, u)\<in>set ?xs. 0 \<le> u"
    using assms(2,4,5) by (auto simp: entrants_def fair_def)
  from pick_card [OF this, of 0] show ?thesis unfolding eq using tot by auto
qed

definition demo_lk :: lkstate where
  "demo_lk = pkstate.extend (demo_pk (\<lambda>i. if i = 2 then demo_proc RUNNABLE 7 None
       else if i = 3 then demo_proc RUNNABLE 8 None else demo_proc UNUSED 0 None) demo_machine)
     \<lparr>tickets = (\<lambda>i. if i = 2 then 30 else if i = 3 then 10 else 0), pticks = (\<lambda>_. 0), rng_state = rng0\<rparr>"

lemma demo_lk_fields:
  "mach demo_lk = demo_machine" "tickets demo_lk = (\<lambda>i. if i = 2 then 30 else if i = 3 then 10 else 0)"
  "p_state (procs demo_lk i) = (if i = 2 \<or> i = 3 then RUNNABLE else UNUSED)" "fair demo_lk" "rng_state demo_lk = rng0"
  by (simp_all add: demo_lk_def pkstate.defs demo_pk_def fair_def)

lemma demo_lk_total: "all_tickets demo_lk = 40"
proof -
  have "entrants [0..<NPROC] demo_lk = [(2, 30), (3, 10)]"
    by (simp add: entrants_def demo_lk_fields upt_rec)
  then show ?thesis by simp
qed

lemma demo_lk_quiet: "quiet c L demo_lk"
  using demo_machine_ok by (simp add: quiet_def demo_lk_fields)

theorem lottery_fair_witness:
  "card {w. 1 \<le> w \<and> w \<le> 40 \<and> (\<exists>s'. lottery_scan 0 w 0 [0..<NPROC] demo_lk = Inr (Some 2, s'))} = 30"
  using lottery_fair [OF demo_lk_quiet demo_lk_fields(4), of 2 0] unfolding demo_lk_total
  by (simp add: demo_lk_fields)

text \<open>
  C21. A round of the lottery scheduler with some ticket in the hands of a runnable process always
  dispatches: with the process locks free and a well-formed generator it selects a runnable process,
  marks it running, counts one more time slice for it and makes it the hart's current process.
  With no ticket in runnable hands the round has no defined behaviour.
\<close>

theorem lottery_dispatches:
  assumes "quiet c proc_locks s" and "fair s" and "all_tickets s < 2 ^ 31" and "rng_ok (rng_state s)"
    and "noff (cpus (mach s) c) = 0"
  shows "if all_tickets s = 0 then lottery_round c s = Inl (Undefined ''remainder by zero'')
    else \<exists>i s'. lottery_round c s = Inr (Some i, s') \<and> i < NPROC \<and> p_state (procs s i) = RUNNABLE
      \<and> p_state (procs s' i) = RUNNING \<and> cur c s' = Some i \<and> pticks s' i = pticks s i + 1"
proof -
  define t where "t = s\<lparr>mach := set_sstatus c (intr_on (sstatus (mach s) c)) (mach s)\<rparr>"
  let ?xs = "entrants [0..<NPROC] s"
  have q: "cpu_ok c (mach t)" "\<forall>i\<in>set [0..<NPROC]. lock_free (ProcLock i) (mach t)"
    using assms(1,5) by (auto simp: quiet_def t_def cpu_ok_def lock_free_def set_sstatus_def)
  have te: "entrants [0..<NPROC] t = ?xs" "fair t" by (simp_all add: t_def assms(2))
  have tot: "get_total_tickets c t = Inr (all_tickets s, calm c t)"
    using total_scan_eq [OF q te(2), of 0] te(1) assms(3) by (simp add: get_total_tickets_def del: upt_Suc)
  show ?thesis
  proof (cases "all_tickets s = 0")
    case True
    have "scaled_random 1 0 r = (None, snd (nextRand r))" for r by (simp add: scaled_random_def split: prod.splits)
    then have "lottery_round c s = Inl (Undefined ''remainder by zero'')"
      using tot True by (simp add: lottery_round_def Let_def t_def [symmetric])
    then show ?thesis using True by simp
  next
    case False
    then have pos: "1 \<le> all_tickets s" using entrants_nonneg [OF assms(2), of "[0..<NPROC]"] by linarith
    obtain w r where w: "scaled_random 1 (all_tickets s) (rng_state s) = (Some w, r)" "1 \<le> w" "w \<le> all_tickets s"
      using scaled_random_in [OF assms(4) pos] by blast
    obtain i u where i: "(i, u) \<in> set ?xs" "pick ?xs w 0 = Some i" using pick_Some [of 0 w ?xs] w by auto
    let ?t = "calm c t\<lparr>rng_state := r\<rparr>"
    have "entrants [0..<NPROC] ?t = ?xs" "fair ?t" using te by (simp_all add: entrants_def fair_def)
    then obtain s' where s': "lottery_scan c w 0 [0..<NPROC] ?t = Inr (Some i, s')" "won c i ?t s'"
      using lottery_scan_pick [of c ?t "[0..<NPROC]" 0 w] q assms(3) i(2) by (auto simp del: upt_Suc)
    have "rng_state t = rng_state s" by (simp add: t_def)
    then have "lottery_round c s = Inr (Some i, s')"
      using tot w(1) s'(1) by (simp add: lottery_round_def Let_def t_def [symmetric])
    then show ?thesis using False s'(2) i(1) by (auto simp: won_def entrants_def t_def)
  qed
qed

theorem lottery_dispatches_witness:
  "\<exists>i s'. lottery_round 0 demo_lk = Inr (Some i, s') \<and> p_state (procs s' i) = RUNNING"
proof -
  have "rng_ok rng0" by (simp add: rng_ok_def rng0_def list_all_length in_mm_def)
  moreover have "noff (cpus (mach demo_lk) 0) = 0" by (simp add: demo_lk_fields demo_machine_def)
  ultimately show ?thesis
    using lottery_dispatches [OF demo_lk_quiet demo_lk_fields(4), of 0] unfolding demo_lk_total
    by (auto simp: demo_lk_fields)
qed

end
