(* ===== verification/Pipe_Fifo.thy ===== *)
theory Pipe_Fifo
  imports Pipe
begin

text \<open>
  Correctness of pipes: a pipe is a queue of at most \<open>PIPESIZE\<close> bytes, \<open>pipewrite\<close> appends to it, \<open>piperead\<close> removes
  from it, and both put a process to sleep exactly when they have to.
\<close>

section \<open>The queue\<close>

interpretation pipe_ring: ring PIPESIZE
  by unfold_locales simp_all

definition pipe_q :: "pipe \<Rightarrow> uchar list" where
  "pipe_q x = ring_q PIPESIZE (pi_data x) (pi_nread x) (pi_nwrite x)"

definition pipe_ok :: "pipe \<Rightarrow> bool" where
  "pipe_ok x \<longleftrightarrow> length (pi_data x) = 512 \<and> unat (pi_nwrite x - pi_nread x) \<le> 512"

lemma length_pipe_q: "length (pipe_q x) = unat (pi_nwrite x - pi_nread x)"
  by (simp add: pipe_q_def)

lemma pipe_full_iff:
  assumes "pipe_ok x"
  shows "pi_nwrite x = pi_nread x + 512 \<longleftrightarrow> length (pipe_q x) = 512"
proof
  assume "length (pipe_q x) = 512"
  then have "unat (pi_nwrite x - pi_nread x) = unat (512 :: uint)" by (simp add: length_pipe_q)
  then have "pi_nwrite x - pi_nread x = 512" by (simp only: word_unat_eq_iff)
  then show "pi_nwrite x = pi_nread x + 512" by (simp add: algebra_simps)
qed (simp add: length_pipe_q)

lemma pipe_push:
  fixes ch :: uchar
  assumes "pipe_ok x" "length (pipe_q x) < 512"
  defines "y \<equiv> x\<lparr>pi_data := (pi_data x)[unat (pi_nwrite x mod 512) := ch], pi_nwrite := pi_nwrite x + 1\<rparr>"
  shows "pipe_q y = pipe_q x @ [ch]" "pipe_ok y"
proof -
  have l: "unat (pi_nwrite x - pi_nread x) < unat PIPESIZE" using assms(2) by (simp add: length_pipe_q)
  show "pipe_q y = pipe_q x @ [ch]"
    using pipe_ring.push [OF _ l, of "pi_data x" ch] assms(1) by (simp add: pipe_q_def y_def pipe_ok_def)
  show "pipe_ok y"
    using unat_diff_Suc [OF l] assms(1) l by (simp add: y_def pipe_ok_def)
qed

lemma pipe_pop:
  assumes "pipe_ok x" "pi_nread x \<noteq> pi_nwrite x"
  defines "y \<equiv> x\<lparr>pi_nread := pi_nread x + 1\<rparr>"
  shows "pipe_q x = pi_data x ! unat (pi_nread x mod 512) # pipe_q y" "pipe_ok y"
  using pipe_ring.pop [of "pi_nwrite x" "pi_nread x" "pi_data x"] unat_Suc_diff [of "pi_nwrite x" "pi_nread x"] assms
  by (simp_all add: pipe_q_def pipe_ok_def)

lemma pipe_empty_iff: "pi_nread x = pi_nwrite x \<longleftrightarrow> pipe_q x = []"
  by (metis eq_iff_diff_eq_0 length_0_conv length_pipe_q unat_eq_zero)

section \<open>Writing\<close>

lemma killed_held:
  assumes "held c s" "pr < NPROC"
  shows "killed c pr s = Inr (p_killed (procs s pr), s)"
proof -
  have q: "cpu_ok c (mach s)" "lock_free (ProcLock pr) (mach s)" "crit c (mach s) = mach s"
    using assms by (auto simp: held_def quiet_def)
  have "krelease c (ProcLock pr) (s\<lparr>mach := taken c (ProcLock pr) (mach s)\<rparr>) = Inr (s\<lparr>mach := crit c (mach s)\<rparr>)"
    using q krelease_taken [of "s\<lparr>mach := taken c (ProcLock pr) (mach s)\<rparr>" c "ProcLock pr" "mach s"] by simp
  then show ?thesis using q by (simp add: killed_def)
qed

definition user_bytes :: "memory \<Rightarrow> uint64 \<Rightarrow> uint64 \<Rightarrow> nat \<Rightarrow> uchar list" where
  "user_bytes m pt va n = map (\<lambda>i. m (ubyte m pt (va + of_nat i))) [0..<n]"

lemma user_bytes_Suc: "user_bytes m pt va (Suc n) = m (ubyte m pt va) # user_bytes m pt (va + 1) n"
  by (simp add: user_bytes_def upt_conv_Cons map_Suc_upt [symmetric] add_ac del: upt_Suc)

lemma umapped_Suc: "umapped m pt va (Suc n) \<longleftrightarrow> umapped m pt va 1 \<and> umapped m pt (va + 1) n"
  by (auto simp: umapped_def less_Suc_eq_0_disj add_ac)

text \<open>The writer may go on: it is not killed and the read end is open.\<close>

definition may_write :: "nat \<Rightarrow> nat \<Rightarrow> uint64 \<Rightarrow> 'a fkstate_scheme \<Rightarrow> bool" where
  "may_write c pr pi s \<longleftrightarrow> held c s \<and> pr < NPROC \<and> p_killed (procs s pr) = 0 \<and> wft (mem s) 2 (p_pagetable (procs s pr))
     \<and> pi_readopen (pipes s pi) \<and> pipe_ok (pipes s pi)"

text \<open>Only data is added to the pipe.\<close>

definition written :: "uchar list \<Rightarrow> pipe \<Rightarrow> pipe \<Rightarrow> bool" where
  "written bs x y \<longleftrightarrow> pipe_ok y \<and> pipe_q y = pipe_q x @ bs \<and> pi_nread y = pi_nread x
     \<and> pi_readopen y = pi_readopen x \<and> pi_writeopen y = pi_writeopen x"

lemma written_trans: "written as x y \<Longrightarrow> written bs y z \<Longrightarrow> written (as @ bs) x z"
  by (simp add: written_def)

lemma pipewrite_loop_ok:
  assumes "may_write c pr pi s" "umapped (mem s) (p_pagetable (procs s pr)) (addr + word_of_int i) n"
  defines "room \<equiv> 512 - length (pipe_q (pipes s pi))"
    and "bs \<equiv> user_bytes (mem s) (p_pagetable (procs s pr)) (addr + word_of_int i)"
  shows "if n \<le> room
    then \<exists>y. pipewrite_loop c pr pi addr n i s = Inr (PStop (i + int n), s\<lparr>pipes := (pipes s)(pi := y)\<rparr>)
       \<and> written (bs n) (pipes s pi) y
    else \<exists>y ps. pipewrite_loop c pr pi addr n i s = Inr (PFull (i + int room), s\<lparr>procs := ps, pipes := (pipes s)(pi := y)\<rparr>)
       \<and> written (bs room) (pipes s pi) y \<and> wakeup c (Some (PipeReadChan pi)) (s\<lparr>pipes := (pipes s)(pi := y)\<rparr>)
          = Inr (s\<lparr>procs := ps, pipes := (pipes s)(pi := y)\<rparr>)"
  using assms(1,2) unfolding room_def bs_def
proof (induction n arbitrary: i s)
  case 0
  have "pipewrite_loop c pr pi addr 0 i s = Inr (PStop (i + int 0), s\<lparr>pipes := (pipes s)(pi := pipes s pi)\<rparr>)" by simp
  moreover have "written (user_bytes (mem s) (p_pagetable (procs s pr)) (addr + word_of_int i) 0) (pipes s pi) (pipes s pi)"
    using 0 by (simp add: written_def may_write_def user_bytes_def)
  ultimately show ?case by (simp only: le0 if_True) blast
next
  case (Suc n)
  let ?x = "pipes s pi" and ?pt = "p_pagetable (procs s pr)" and ?va = "addr + word_of_int i"
  have h: "held c s" "pr < NPROC" "p_killed (procs s pr) = 0" "wft (mem s) 2 ?pt" "pi_readopen ?x" "pipe_ok ?x"
    using Suc.prems(1) by (simp_all add: may_write_def)
  have kl: "killed c pr s = Inr (0, s)" using killed_held [OF h(1,2)] h(3) by simp
  show ?case
  proof (cases "length (pipe_q ?x) = 512")
    case True
    obtain ps where ps: "wakeup c (Some (PipeReadChan pi)) s = Inr (s\<lparr>procs := ps\<rparr>)"
      using wakeup_held [OF h(1)] by blast
    have "pi_nwrite ?x = pi_nread ?x + 512" using True pipe_full_iff h(6) by blast
    then have "pipewrite_loop c pr pi addr (Suc n) i s
        = Inr (PFull (i + int 0), s\<lparr>procs := ps, pipes := (pipes s)(pi := ?x)\<rparr>)"
      using h(5) kl ps by simp
    moreover have "written (user_bytes (mem s) ?pt ?va 0) ?x ?x" using h(6) by (simp add: written_def user_bytes_def)
    moreover have "wakeup c (Some (PipeReadChan pi)) (s\<lparr>pipes := (pipes s)(pi := ?x)\<rparr>)
        = Inr (s\<lparr>procs := ps, pipes := (pipes s)(pi := ?x)\<rparr>)" using ps by simp
    moreover have "512 - length (pipe_q ?x) = 0" "\<not> Suc n \<le> 0" using True by simp_all
    ultimately show ?thesis by (simp only: if_False) blast
  next
    case False
    then have len: "length (pipe_q ?x) < 512" using h(6) by (simp add: pipe_ok_def length_pipe_q)
    have nf: "pi_nwrite ?x \<noteq> pi_nread ?x + 512" using False pipe_full_iff h(6) by blast
    define ch where "ch = mem s (ubyte (mem s) ?pt ?va)"
    define y where "y = ?x\<lparr>pi_data := (pi_data ?x)[unat (pi_nwrite ?x mod 512) := ch], pi_nwrite := pi_nwrite ?x + 1\<rparr>"
    note y = pipe_push [OF h(6) len, of ch, folded y_def]
    define t where "t = s\<lparr>pipes := (pipes s)(pi := y)\<rparr>"
    have va: "addr + word_of_int (i + 1) = ?va + 1" by (simp add: add_ac)
    have um: "umapped (mem s) ?pt ?va 1" "umapped (mem s) ?pt (addr + word_of_int (i + 1)) n"
      using Suc.prems(2) unfolding umapped_Suc [of "mem s" ?pt ?va n] va by blast+
    have "copyin c ?pt ?va 1 s = Inr (0, [ch])"
      using copyin_spec [OF h(4), of ?va 1 c] um(1) by (simp add: ch_def)
    then have step: "pipewrite_loop c pr pi addr (Suc n) i s = pipewrite_loop c pr pi addr n (i + 1) t"
      using h(5) kl nf by (simp add: upd_pipe_def t_def y_def)
    have w1: "written [ch] ?x y" using y by (simp add: written_def) (simp add: y_def)
    have mw: "may_write c pr pi t"
      using h y held_cong [of t s c] by (simp add: may_write_def t_def) (simp add: y_def)
    have tf: "mem t = mem s" "procs t = procs s" "pipes t pi = y" by (simp_all add: t_def)
    have bs: "user_bytes (mem s) ?pt ?va (Suc k) = ch # user_bytes (mem s) ?pt (addr + word_of_int (i + 1)) k" for k
      unfolding va user_bytes_Suc ch_def by (rule refl)
    have lq: "length (pipe_q y) = Suc (length (pipe_q ?x))" using y(1) by simp
    have IH: "if n \<le> 512 - length (pipe_q y)
      then \<exists>z. pipewrite_loop c pr pi addr n (i + 1) t = Inr (PStop (i + 1 + int n), t\<lparr>pipes := (pipes t)(pi := z)\<rparr>)
         \<and> written (user_bytes (mem s) ?pt (addr + word_of_int (i + 1)) n) y z
      else \<exists>z ps. pipewrite_loop c pr pi addr n (i + 1) t
           = Inr (PFull (i + 1 + int (512 - length (pipe_q y))), t\<lparr>procs := ps, pipes := (pipes t)(pi := z)\<rparr>)
         \<and> written (user_bytes (mem s) ?pt (addr + word_of_int (i + 1)) (512 - length (pipe_q y))) y z
         \<and> wakeup c (Some (PipeReadChan pi)) (t\<lparr>pipes := (pipes t)(pi := z)\<rparr>)
          = Inr (t\<lparr>procs := ps, pipes := (pipes t)(pi := z)\<rparr>)"
      using Suc.IH [OF mw, of "i + 1"] um(2) unfolding tf by blast
    have tz: "t\<lparr>pipes := (pipes t)(pi := z)\<rparr> = s\<lparr>pipes := (pipes s)(pi := z)\<rparr>"
      "t\<lparr>procs := ps, pipes := (pipes t)(pi := z)\<rparr> = s\<lparr>procs := ps, pipes := (pipes s)(pi := z)\<rparr>" for z ps
      by (simp_all add: t_def)
    show ?thesis
    proof (cases "Suc n \<le> 512 - length (pipe_q ?x)")
      case True
      then have "n \<le> 512 - length (pipe_q y)" using lq by simp
      with IH obtain z where z: "pipewrite_loop c pr pi addr n (i + 1) t = Inr (PStop (i + 1 + int n), s\<lparr>pipes := (pipes s)(pi := z)\<rparr>)"
        "written (user_bytes (mem s) ?pt (addr + word_of_int (i + 1)) n) y z" unfolding tz by auto
      have "written (user_bytes (mem s) ?pt ?va (Suc n)) ?x z"
        using written_trans [OF w1 z(2)] unfolding bs by simp
      moreover have "i + 1 + int n = i + int (Suc n)" by simp
      ultimately show ?thesis using True step z(1) by (simp only: if_True) blast
    next
      case False
      then have n: "\<not> n \<le> 512 - length (pipe_q y)" and r: "512 - length (pipe_q ?x) = Suc (512 - length (pipe_q y))"
        using lq len by simp_all
      with IH obtain z ps where z: "pipewrite_loop c pr pi addr n (i + 1) t
          = Inr (PFull (i + 1 + int (512 - length (pipe_q y))), s\<lparr>procs := ps, pipes := (pipes s)(pi := z)\<rparr>)"
        "written (user_bytes (mem s) ?pt (addr + word_of_int (i + 1)) (512 - length (pipe_q y))) y z"
        "wakeup c (Some (PipeReadChan pi)) (s\<lparr>pipes := (pipes s)(pi := z)\<rparr>) = Inr (s\<lparr>procs := ps, pipes := (pipes s)(pi := z)\<rparr>)"
        unfolding tz by auto
      have "written (user_bytes (mem s) ?pt ?va (512 - length (pipe_q ?x))) ?x z"
        using written_trans [OF w1 z(2)] unfolding r bs by simp
      moreover have "i + 1 + int (512 - length (pipe_q y)) = i + int (512 - length (pipe_q ?x))" unfolding r by simp
      ultimately show ?thesis using False step z(1,3) by (simp only: if_False) blast
    qed
  qed
qed

text \<open>The process table after \<open>wakeup(chan)\<close>.\<close>

definition awake :: "chan \<Rightarrow> nat option \<Rightarrow> (nat \<Rightarrow> proc) \<Rightarrow> nat \<Rightarrow> proc" where
  "awake ch me ps i = (if i < NPROC then wake (Some ch) me i (ps i) else ps i)"

lemma wakeup_awake:
  assumes "held c s"
  shows "wakeup c (Some ch) s = Inr (s\<lparr>procs := awake ch (cur c s) (procs s)\<rparr>)"
proof -
  have "wakeup c (Some ch) s = Inr (s\<lparr>mach := crit c (mach s), procs := awake ch (cur c s) (procs s)\<rparr>)"
    using assms wakeup_eq [of c s "Some ch"] by (simp add: held_def upd_table_def awake_def [abs_def])
  then show ?thesis using assms by (simp add: held_def)
qed

lemma awake_runnable:
  "i < NPROC \<Longrightarrow> Some i \<noteq> me \<Longrightarrow> p_state (ps i) = SLEEPING \<Longrightarrow> p_chan (ps i) = Some ch \<Longrightarrow>
    p_state (awake ch me ps i) = RUNNABLE"
  by (simp add: awake_def wake_def)

lemma held_taken:
  assumes "quiet c (insert l proc_locks) s" "l \<notin> proc_locks"
  shows "held c (s\<lparr>mach := taken c l (mach s)\<rparr>)"
  using assms by (auto simp: held_def quiet_def)

lemma pipewrite_ok:
  assumes "cur c s = Some pr" "quiet c (insert (PipeLock pi) proc_locks) s" "may_write c pr pi (s\<lparr>mach := taken c (PipeLock pi) (mach s)\<rparr>)"
    "umapped (mem s) (p_pagetable (procs s pr)) addr (nat n)"
  defines "room \<equiv> 512 - length (pipe_q (pipes s pi))"
    and "bs \<equiv> user_bytes (mem s) (p_pagetable (procs s pr)) addr"
  shows "if nat n \<le> room
    then \<exists>y. pipewrite c pi addr n s = Inr (int (nat n), s\<lparr>mach := crit c (mach s),
         procs := awake (PipeReadChan pi) (Some pr) (procs s), pipes := (pipes s)(pi := y)\<rparr>)
       \<and> written (bs (nat n)) (pipes s pi) y
    else \<exists>y. pipewrite c pi addr n s = sleep c (PipeWriteChan pi) (PipeLock pi) (s\<lparr>mach := taken c (PipeLock pi) (mach s),
         procs := awake (PipeReadChan pi) (Some pr) (procs s), pipes := (pipes s)(pi := y)\<rparr>)
       \<and> pipewrite_loop c pr pi addr (nat n) 0 (s\<lparr>mach := taken c (PipeLock pi) (mach s)\<rparr>) = Inr (PFull (int room),
           s\<lparr>mach := taken c (PipeLock pi) (mach s), procs := awake (PipeReadChan pi) (Some pr) (procs s), pipes := (pipes s)(pi := y)\<rparr>)
       \<and> written (bs room) (pipes s pi) y"
proof -
  let ?t = "s\<lparr>mach := taken c (PipeLock pi) (mach s)\<rparr>"
  have q: "cpu_ok c (mach s)" "lock_free (PipeLock pi) (mach s)" using assms(2) by (simp_all add: quiet_def)
  have enter: "pipewrite c pi addr n s = pipewrite_from c pr pi addr n 0 ?t"
    using q assms(1) by (simp add: pipewrite_def curproc_eq)
  have h: "held c (?t\<lparr>pipes := p\<rparr>)" for p
    using assms(3) held_cong [of "?t\<lparr>pipes := p\<rparr>" ?t c] by (simp add: may_write_def)
  have wk: "wakeup c (Some (PipeReadChan pi)) (?t\<lparr>pipes := p\<rparr>)
      = Inr (?t\<lparr>pipes := p, procs := awake (PipeReadChan pi) (Some pr) (procs s)\<rparr>)" for p
    using wakeup_awake [OF h] assms(1) by simp
  note loop = pipewrite_loop_ok [OF assms(3), of addr 0 "nat n"]
  show ?thesis
  proof (cases "nat n \<le> room")
    case True
    then obtain y where y: "pipewrite_loop c pr pi addr (nat n) 0 ?t = Inr (PStop (int (nat n)), ?t\<lparr>pipes := (pipes s)(pi := y)\<rparr>)"
      "written (bs (nat n)) (pipes s pi) y" using loop assms(4) by (auto simp: room_def bs_def)
    let ?u = "?t\<lparr>pipes := (pipes s)(pi := y), procs := awake (PipeReadChan pi) (Some pr) (procs s)\<rparr>"
    have rel: "krelease c (PipeLock pi) ?u = Inr (?u\<lparr>mach := crit c (mach s)\<rparr>)"
      using q by (intro krelease_taken) simp_all
    have "pipewrite c pi addr n s = Inr (int (nat n), ?u\<lparr>mach := crit c (mach s)\<rparr>)"
      unfolding enter pipewrite_from_def using y(1) wk rel by simp
    then have "pipewrite c pi addr n s = Inr (int (nat n), s\<lparr>mach := crit c (mach s),
         procs := awake (PipeReadChan pi) (Some pr) (procs s), pipes := (pipes s)(pi := y)\<rparr>)" by simp
    then show ?thesis using True y(2) by (simp only: if_True) blast
  next
    case False
    then obtain y ps where y: "pipewrite_loop c pr pi addr (nat n) 0 ?t = Inr (PFull (int room), ?t\<lparr>procs := ps, pipes := (pipes s)(pi := y)\<rparr>)"
      "written (bs room) (pipes s pi) y" "wakeup c (Some (PipeReadChan pi)) (?t\<lparr>pipes := (pipes s)(pi := y)\<rparr>)
        = Inr (?t\<lparr>procs := ps, pipes := (pipes s)(pi := y)\<rparr>)" using loop assms(4) by (auto simp: room_def bs_def)
    have "?t\<lparr>procs := ps, pipes := (pipes s)(pi := y)\<rparr>
        = ?t\<lparr>pipes := (pipes s)(pi := y), procs := awake (PipeReadChan pi) (Some pr) (procs s)\<rparr>"
      using y(3) wk by (metis sum.inject(2))
    also have "\<dots> = s\<lparr>mach := taken c (PipeLock pi) (mach s), procs := awake (PipeReadChan pi) (Some pr) (procs s),
        pipes := (pipes s)(pi := y)\<rparr>" by simp
    finally have u: "?t\<lparr>procs := ps, pipes := (pipes s)(pi := y)\<rparr> = \<dots>" .
    have "pipewrite c pi addr n s = sleep c (PipeWriteChan pi) (PipeLock pi) (?t\<lparr>procs := ps, pipes := (pipes s)(pi := y)\<rparr>)"
      unfolding enter pipewrite_from_def using y(1) by simp
    then show ?thesis using False y(1,2) unfolding u by (simp only: if_False) blast
  qed
qed

section \<open>Reading\<close>

lemma store_frame:
  fixes ch :: uchar
  assumes "wft m 2 pt" "upage m pt (PGROUNDDOWN va) \<notin> tbl m 2 pt"
  defines "m' \<equiv> store8 (ubyte m pt va) ch m"
  shows "ubyte m' pt = ubyte m pt" "umapped m' pt = umapped m pt" "wft m' 2 pt" "off_table m' pt = off_table m pt"
proof -
  have b: "0 < unat (copy_chunk va 1)" using copy_chunk_bounds [of 1 va] by simp
  have "PGROUNDDOWN (ubyte m pt va) = upage m pt (PGROUNDDOWN va)"
    using chunk_in_page [OF b _ upage_aligned [of m pt "PGROUNDDOWN va"]] by (simp add: ubyte_def)
  then have "m' x = m x" if "PGROUNDDOWN x \<in> tbl m 2 pt" for x
    using assms(2) that by (auto simp: m'_def store8_def)
  note f = upage_frame [OF assms(1) this]
  then show "ubyte m' pt = ubyte m pt" "umapped m' pt = umapped m pt" "wft m' 2 pt" by simp_all
  show "off_table m' pt = off_table m pt" using f by (simp add: off_table_def [abs_def])
qed

definition drained :: "nat \<Rightarrow> pipe \<Rightarrow> pipe \<Rightarrow> bool" where
  "drained k x y \<longleftrightarrow> pipe_ok y \<and> pipe_q y = drop k (pipe_q x) \<and> pi_nwrite y = pi_nwrite x
     \<and> pi_readopen y = pi_readopen x \<and> pi_writeopen y = pi_writeopen x"

text \<open>The memory of the process after the first \<open>k\<close> bytes of \<open>q\<close> were copied to \<open>va\<close>.\<close>

definition delivered :: "memory \<Rightarrow> uint64 \<Rightarrow> uint64 \<Rightarrow> uchar list \<Rightarrow> nat \<Rightarrow> memory" where
  "delivered m pt va q k = put_bytes m (\<lambda>j. ubyte m pt (va + of_nat j)) (\<lambda>j. q ! j) k"

lemma delivered_Suc:
  assumes "wft m 2 pt" "upage m pt (PGROUNDDOWN va) \<notin> tbl m 2 pt"
  shows "delivered m pt va (ch # q) (Suc k) = delivered (store8 (ubyte m pt va) ch m) pt (va + 1) q k"
proof -
  have "put_bytes m (\<lambda>j. ubyte m pt (va + of_nat j)) (\<lambda>j. (ch # q) ! j) (1 + k)
    = put_bytes (put_bytes m (\<lambda>j. ubyte m pt (va + of_nat j)) (\<lambda>j. (ch # q) ! j) 1)
        (\<lambda>j. ubyte m pt (va + of_nat (1 + j))) (\<lambda>j. (ch # q) ! (1 + j)) k"
    by (rule put_bytes_split)
  then show ?thesis using store_frame(1) [OF assms, of ch] by (simp add: delivered_def put_bytes_def add_ac)
qed

lemma off_table_Suc: "off_table m pt va (Suc n) \<longleftrightarrow> off_table m pt va 1 \<and> off_table m pt (va + 1) n"
  by (auto simp: off_table_def less_Suc_eq_0_disj add_ac)

text \<open>The reader's memory: its page table is in order and the destination is mapped outside it.\<close>

definition may_read :: "nat \<Rightarrow> uint64 \<Rightarrow> nat \<Rightarrow> uint64 \<Rightarrow> 'a fkstate_scheme \<Rightarrow> bool" where
  "may_read pr va n pi s \<longleftrightarrow> (let pt = p_pagetable (procs s pr) in wft (mem s) 2 pt \<and> umapped (mem s) pt va n
     \<and> off_table (mem s) pt va n \<and> pipe_ok (pipes s pi))"

lemma piperead_copy_ok:
  assumes "may_read pr (addr + word_of_int i) n pi s"
  defines "q \<equiv> pipe_q (pipes s pi)"
  shows "\<exists>y. piperead_copy c pr pi addr n i s = Inr (i + int (min n (length q)), s\<lparr>
      mem := delivered (mem s) (p_pagetable (procs s pr)) (addr + word_of_int i) q (min n (length q)),
      pipes := (pipes s)(pi := y)\<rparr>) \<and> drained (min n (length q)) (pipes s pi) y"
  using assms(1) unfolding q_def
proof (induction n arbitrary: i s)
  case 0
  have "piperead_copy c pr pi addr 0 i s = Inr (i + int (min 0 (length (pipe_q (pipes s pi)))), s\<lparr>
      mem := delivered (mem s) (p_pagetable (procs s pr)) (addr + word_of_int i) (pipe_q (pipes s pi))
        (min 0 (length (pipe_q (pipes s pi)))), pipes := (pipes s)(pi := pipes s pi)\<rparr>)"
    by (simp add: delivered_def)
  moreover have "drained (min 0 (length (pipe_q (pipes s pi)))) (pipes s pi) (pipes s pi)"
    using 0 by (simp add: drained_def may_read_def Let_def)
  ultimately show ?case by blast
next
  case (Suc n)
  let ?x = "pipes s pi" and ?pt = "p_pagetable (procs s pr)" and ?va = "addr + word_of_int i" and ?m = "mem s"
  have h: "wft ?m 2 ?pt" "umapped ?m ?pt ?va (Suc n)" "off_table ?m ?pt ?va (Suc n)" "pipe_ok ?x"
    using Suc.prems by (simp_all add: may_read_def Let_def)
  show ?case
  proof (cases "pipe_q ?x = []")
    case True
    then have "pi_nread ?x = pi_nwrite ?x" using pipe_empty_iff by blast
    then have "piperead_copy c pr pi addr (Suc n) i s = Inr (i + int (min (Suc n) (length (pipe_q ?x))), s\<lparr>
      mem := delivered ?m ?pt ?va (pipe_q ?x) (min (Suc n) (length (pipe_q ?x))), pipes := (pipes s)(pi := ?x)\<rparr>)"
      using True by (simp add: delivered_def)
    moreover have "drained (min (Suc n) (length (pipe_q ?x))) ?x ?x" using True h(4) by (simp add: drained_def)
    ultimately show ?thesis by blast
  next
    case False
    then have ne: "pi_nread ?x \<noteq> pi_nwrite ?x" using pipe_empty_iff by blast
    define ch where "ch = pi_data ?x ! unat (pi_nread ?x mod 512)"
    define y where "y = ?x\<lparr>pi_nread := pi_nread ?x + 1\<rparr>"
    note y = pipe_pop [OF h(4) ne, folded y_def ch_def]
    define m where "m = store8 (ubyte ?m ?pt ?va) ch ?m"
    define t where "t = s\<lparr>mem := m, pipes := (pipes s)(pi := y)\<rparr>"
    have um: "umapped ?m ?pt ?va 1" "umapped ?m ?pt (?va + 1) n" "off_table ?m ?pt ?va 1" "off_table ?m ?pt (?va + 1) n"
      using h(2,3) unfolding umapped_Suc [of _ _ _ n] off_table_Suc [of _ _ _ n] by blast+
    have pg: "upage ?m ?pt (PGROUNDDOWN ?va) \<notin> tbl ?m 2 ?pt" using um(3) by (simp add: off_table_def)
    note fr = store_frame [OF h(1) pg, of ch, folded m_def]
    define s1 where "s1 = s\<lparr>pipes := (pipes s)(pi := y)\<rparr>"
    have "copyout c ?pt ?va (\<lambda>_. ch) 1 s1 = Inr (0, s1\<lparr>mem := m\<rparr>)"
      using copyout_spec [of s1 ?pt ?va 1 c "\<lambda>_. ch"] h(1) um(1,3) by (simp add: m_def put_bytes_def s1_def)
    moreover have "s1\<lparr>mem := m\<rparr> = t" by (simp add: s1_def t_def)
    ultimately have co: "copyout c ?pt ?va (\<lambda>_. ch) 1 s1 = Inr (0, t)" by simp
    have up: "upd_pipe pi (\<lambda>x. x\<lparr>pi_nread := pi_nread x + 1\<rparr>) s = s1" "procs s1 = procs s"
      by (simp_all add: upd_pipe_def s1_def y_def)
    have step: "piperead_copy c pr pi addr (Suc n) i s = piperead_copy c pr pi addr n (i + 1) t"
      using ne co by (simp add: up ch_def)
    have va: "addr + word_of_int (i + 1) = ?va + 1" by (simp add: add_ac)
    have tf: "mem t = m" "procs t = procs s" "pipes t pi = y" by (simp_all add: t_def)
    have mr: "may_read pr (addr + word_of_int (i + 1)) n pi t"
      unfolding may_read_def Let_def va tf using um fr y(2) by simp
    obtain z where z: "piperead_copy c pr pi addr n (i + 1) t = Inr (i + 1 + int (min n (length (pipe_q y))), t\<lparr>
        mem := delivered m ?pt (?va + 1) (pipe_q y) (min n (length (pipe_q y))), pipes := (pipes t)(pi := z)\<rparr>)"
      "drained (min n (length (pipe_q y))) y z"
      using Suc.IH [OF mr] unfolding tf va by blast
    have k: "min (Suc n) (length (pipe_q ?x)) = Suc (min n (length (pipe_q y)))" using y(1) by simp
    have "i + 1 + int (min n (length (pipe_q y))) = i + int (min (Suc n) (length (pipe_q ?x)))" unfolding k by simp
    moreover have "delivered m ?pt (?va + 1) (pipe_q y) (min n (length (pipe_q y)))
        = delivered ?m ?pt ?va (pipe_q ?x) (min (Suc n) (length (pipe_q ?x)))"
      unfolding k y(1) m_def using delivered_Suc [OF h(1) pg] by simp
    moreover have "t\<lparr>mem := w, pipes := (pipes t)(pi := z)\<rparr> = s\<lparr>mem := w, pipes := (pipes s)(pi := z)\<rparr>" for w
      by (simp add: t_def)
    moreover have "drained (min (Suc n) (length (pipe_q ?x))) ?x z"
      using z(2) y(1) unfolding k by (simp add: drained_def) (simp add: y_def)
    ultimately show ?thesis using step z(1) by (simp only:) blast
  qed
qed

lemma piperead_ok:
  assumes "cur c s = Some pr" "quiet c (insert (PipeLock pi) proc_locks) s" "may_read pr addr (nat n) pi s" "pr < NPROC"
  defines "q \<equiv> pipe_q (pipes s pi)" and "t \<equiv> s\<lparr>mach := taken c (PipeLock pi) (mach s)\<rparr>"
  shows "if q = [] \<and> pi_writeopen (pipes s pi)
    then piperead c pi addr n s = (if p_killed (procs s pr) \<noteq> 0 then Inr (-1, s\<lparr>mach := crit c (mach s)\<rparr>)
      else sleep c (PipeReadChan pi) (PipeLock pi) t)
    else \<exists>y. piperead c pi addr n s = Inr (int (min (nat n) (length q)), s\<lparr>mach := crit c (mach s),
        mem := delivered (mem s) (p_pagetable (procs s pr)) addr q (min (nat n) (length q)),
        procs := awake (PipeWriteChan pi) (Some pr) (procs s), pipes := (pipes s)(pi := y)\<rparr>)
      \<and> drained (min (nat n) (length q)) (pipes s pi) y"
proof -
  have qq: "cpu_ok c (mach s)" "lock_free (PipeLock pi) (mach s)" using assms(2) by (simp_all add: quiet_def)
  have enter: "piperead c pi addr n s = piperead_body c pr pi addr n t"
    using qq assms(1) by (simp add: piperead_def curproc_eq t_def)
  have h: "held c (t\<lparr>mem := m, pipes := p\<rparr>)" for m p
    using held_taken [OF assms(2)] held_cong [of "t\<lparr>mem := m, pipes := p\<rparr>" t c] by (auto simp: t_def)
  have ht: "held c t" using held_taken [OF assms(2)] by (auto simp: t_def)
  have emp: "pi_nread (pipes s pi) = pi_nwrite (pipes s pi) \<longleftrightarrow> q = []" using pipe_empty_iff by (simp add: q_def)
  show ?thesis
  proof (cases "q = [] \<and> pi_writeopen (pipes s pi)")
    case True
    have rel: "krelease c (PipeLock pi) t = Inr (t\<lparr>mach := crit c (mach s)\<rparr>)"
      using qq by (intro krelease_taken) (simp_all add: t_def)
    show ?thesis using True emp killed_held [OF ht assms(4)] rel
      unfolding enter piperead_body_def by (simp add: t_def)
  next
    case False
    have mr: "may_read pr (addr + word_of_int 0) (nat n) pi t" using assms(3) by (simp add: may_read_def t_def)
    obtain y where y: "piperead_copy c pr pi addr (nat n) 0 t = Inr (int (min (nat n) (length q)), t\<lparr>
        mem := delivered (mem s) (p_pagetable (procs s pr)) addr q (min (nat n) (length q)), pipes := (pipes s)(pi := y)\<rparr>)"
      "drained (min (nat n) (length q)) (pipes s pi) y"
      using piperead_copy_ok [OF mr, of c] by (auto simp: t_def q_def)
    let ?u = "t\<lparr>mem := delivered (mem s) (p_pagetable (procs s pr)) addr q (min (nat n) (length q)), pipes := (pipes s)(pi := y)\<rparr>"
    let ?v = "?u\<lparr>procs := awake (PipeWriteChan pi) (Some pr) (procs s)\<rparr>"
    have wk: "wakeup c (Some (PipeWriteChan pi)) ?u = Inr ?v"
      using wakeup_awake [OF h, of "PipeWriteChan pi"] assms(1) by (simp add: t_def)
    have rel: "krelease c (PipeLock pi) ?v = Inr (?v\<lparr>mach := crit c (mach s)\<rparr>)"
      using qq by (intro krelease_taken) (simp_all add: t_def)
    have nb: "\<not> (pi_nread (pipes t pi) = pi_nwrite (pipes t pi) \<and> pi_writeopen (pipes t pi))"
      using False emp by (simp add: t_def)
    have "piperead c pi addr n s = Inr (int (min (nat n) (length q)), ?v\<lparr>mach := crit c (mach s)\<rparr>)"
      unfolding enter piperead_body_def if_not_P [OF nb] using y(1) wk rel by simp
    also have "?v\<lparr>mach := crit c (mach s)\<rparr> = s\<lparr>mach := crit c (mach s),
        mem := delivered (mem s) (p_pagetable (procs s pr)) addr q (min (nat n) (length q)),
        procs := awake (PipeWriteChan pi) (Some pr) (procs s), pipes := (pipes s)(pi := y)\<rparr>" by (simp add: t_def)
    finally show ?thesis using False y(2) by (simp only: if_False) blast
  qed
qed

section \<open>Correctness\<close>

text \<open>A process on hart 0 with a page of memory, and a pipe with \<open>k\<close> bytes in it.\<close>

definition demo_pipe :: "nat \<Rightarrow> pipe" where
  "demo_pipe k = \<lparr>pi_data = replicate 512 0, pi_nread = 0, pi_nwrite = of_nat k, pi_readopen = True, pi_writeopen = True\<rparr>"

definition demo_pipes :: "nat \<Rightarrow> fkstate" where
  "demo_pipes k = (demo_fk (\<lambda>_ _. 0) (procs demo_user) (mach demo_user))\<lparr>mem := demo_pt, pipes := (\<lambda>_. demo_pipe k)\<rparr>"

lemma demo_pipes_fields [simp]:
  "mem (demo_pipes k) = demo_pt" "procs (demo_pipes k) = procs demo_user" "mach (demo_pipes k) = mach demo_user"
  "pipes (demo_pipes k) p = demo_pipe k"
  by (simp_all add: demo_pipes_def)

lemma demo_pipe_ok: "k \<le> 512 \<Longrightarrow> pipe_ok (demo_pipe k)" "k \<le> 512 \<Longrightarrow> length (pipe_q (demo_pipe k)) = k"
  by (simp_all add: pipe_ok_def demo_pipe_def length_pipe_q unat_of_nat)

lemma demo_pipes_quiet: "quiet 0 L (demo_pipes k)"
  using demo_machine_ok demo_user_fields(3) by (auto simp: quiet_def demo_user_def lock_free_def set_cpu_def)

lemma demo_pipes_user:
  "n \<le> 8 \<Longrightarrow> umapped demo_pt 0x87fff000 0x10 n" "n \<le> 8 \<Longrightarrow> off_table demo_pt 0x87fff000 0x10 n"
  using demo_pt_page0(1) by (auto simp: umapped_def off_table_def demo_pt_upage demo_pt_wft(2))

lemma demo_user_alive: "p_killed (procs demo_user 2) = 0"
  by (simp add: demo_user_def)

text \<open>
  C16. Writing to a pipe appends. If the pipe has room for all the bytes, \<open>pipewrite\<close> returns their number and the
  queue is the old one followed by the bytes of the user's buffer in order; the pipe's lock is free and every
  reader that slept on the pipe is runnable. If not, it fills the pipe with the bytes that fit, wakes up the
  readers, and only then goes to sleep on the writers' channel.
\<close>

theorem pipewrite_fifo:
  assumes "cur c s = Some pr" and "pr < NPROC" and "p_killed (procs s pr) = 0"
    and "quiet c (insert (PipeLock pi) proc_locks) s" and "pipe_ok (pipes s pi)" and "pi_readopen (pipes s pi)"
    and "wft (mem s) 2 (p_pagetable (procs s pr))" and "umapped (mem s) (p_pagetable (procs s pr)) addr (nat n)"
  defines "q \<equiv> pipe_q (pipes s pi)" and "bs \<equiv> user_bytes (mem s) (p_pagetable (procs s pr)) addr"
  shows "if nat n \<le> 512 - length q
    then \<exists>s'. pipewrite c pi addr n s = Inr (int (nat n), s') \<and> pipe_q (pipes s' pi) = q @ bs (nat n)
      \<and> pipe_ok (pipes s' pi) \<and> lock_free (PipeLock pi) (mach s') \<and> procs s' = awake (PipeReadChan pi) (Some pr) (procs s)
    else \<exists>s'. pipewrite_loop c pr pi addr (nat n) 0 (s\<lparr>mach := taken c (PipeLock pi) (mach s)\<rparr>)
          = Inr (PFull (int (512 - length q)), s')
      \<and> pipewrite c pi addr n s = sleep c (PipeWriteChan pi) (PipeLock pi) s'
      \<and> pipe_q (pipes s' pi) = q @ bs (512 - length q) \<and> procs s' = awake (PipeReadChan pi) (Some pr) (procs s)"
proof -
  let ?t = "s\<lparr>mach := taken c (PipeLock pi) (mach s)\<rparr>"
  have mw: "may_write c pr pi ?t"
    using assms(2-7) held_taken [OF assms(4)] by (auto simp: may_write_def)
  have lf: "lock_free (PipeLock pi) (mach s)" using assms(4) by (simp add: quiet_def)
  note w = pipewrite_ok [OF assms(1,4) mw assms(8), folded q_def bs_def]
  show ?thesis
  proof (cases "nat n \<le> 512 - length q")
    case True
    then obtain y where y: "pipewrite c pi addr n s = Inr (int (nat n), s\<lparr>mach := crit c (mach s),
         procs := awake (PipeReadChan pi) (Some pr) (procs s), pipes := (pipes s)(pi := y)\<rparr>)"
      "written (bs (nat n)) (pipes s pi) y" using w by auto
    then show ?thesis using True lf by (simp add: written_def q_def)
  next
    case False
    let ?u = "\<lambda>y. s\<lparr>mach := taken c (PipeLock pi) (mach s), procs := awake (PipeReadChan pi) (Some pr) (procs s),
      pipes := (pipes s)(pi := y)\<rparr>"
    from False obtain y where y: "pipewrite c pi addr n s = sleep c (PipeWriteChan pi) (PipeLock pi) (?u y)"
      "pipewrite_loop c pr pi addr (nat n) 0 ?t = Inr (PFull (int (512 - length q)), ?u y)"
      "written (bs (512 - length q)) (pipes s pi) y" using w by auto
    have "pipe_q (pipes (?u y) pi) = q @ bs (512 - length q)" "procs (?u y) = awake (PipeReadChan pi) (Some pr) (procs s)"
      using y(3) by (simp_all add: written_def q_def)
    with y(1,2) False show ?thesis by (simp only: if_False) blast
  qed
qed

theorem pipewrite_fifo_witness:
  "\<exists>s'. pipewrite 0 0x87ffa000 0x10 3 (demo_pipes 2) = Inr (3, s') \<and> length (pipe_q (pipes s' 0x87ffa000)) = 5"
  using pipewrite_fifo [of "demo_pipes 2" 0 2 "0x87ffa000" "0x10" 3] demo_user_fields demo_user_alive demo_pipes_quiet
    demo_pipe_ok [of 2] demo_pt_wft(1) demo_pipes_user(1) [of 3]
  by (auto simp: user_bytes_def demo_pipe_def)

text \<open>
  C17. Reading from a pipe removes what was written, in order. If the pipe holds data or no writer is left,
  \<open>piperead\<close> returns the smaller of \<open>n\<close> and the number of bytes held, stores exactly those first bytes at the
  user's address and keeps the rest; the lock is free and sleeping writers are runnable. On an empty pipe with a
  writer it returns -1 if the process was killed and otherwise sleeps, with nothing changed.
\<close>

theorem piperead_fifo:
  assumes "cur c s = Some pr" and "pr < NPROC" and "quiet c (insert (PipeLock pi) proc_locks) s" and "pipe_ok (pipes s pi)"
    and "wft (mem s) 2 (p_pagetable (procs s pr))" and "umapped (mem s) (p_pagetable (procs s pr)) addr (nat n)"
    and "off_table (mem s) (p_pagetable (procs s pr)) addr (nat n)"
  defines "q \<equiv> pipe_q (pipes s pi)" and "k \<equiv> min (nat n) (length (pipe_q (pipes s pi)))"
  shows "if q = [] \<and> pi_writeopen (pipes s pi)
    then piperead c pi addr n s = (if p_killed (procs s pr) \<noteq> 0 then Inr (-1, calm c s)
      else sleep c (PipeReadChan pi) (PipeLock pi) (s\<lparr>mach := taken c (PipeLock pi) (mach s)\<rparr>))
    else \<exists>s'. piperead c pi addr n s = Inr (int k, s') \<and> pipe_q (pipes s' pi) = drop k q \<and> pipe_ok (pipes s' pi)
      \<and> mem s' = put_bytes (mem s) (\<lambda>i. ubyte (mem s) (p_pagetable (procs s pr)) (addr + of_nat i)) (\<lambda>i. q ! i) k
      \<and> lock_free (PipeLock pi) (mach s') \<and> procs s' = awake (PipeWriteChan pi) (Some pr) (procs s)"
proof -
  have mr: "may_read pr addr (nat n) pi s" using assms(4-7) by (simp add: may_read_def)
  have lf: "lock_free (PipeLock pi) (mach s)" using assms(3) by (simp add: quiet_def)
  note r = piperead_ok [OF assms(1,3) mr assms(2), folded q_def k_def]
  show ?thesis
  proof (cases "q = [] \<and> pi_writeopen (pipes s pi)")
    case True
    then show ?thesis using r by simp
  next
    case False
    then obtain y where y: "piperead c pi addr n s = Inr (int k, s\<lparr>mach := crit c (mach s),
        mem := delivered (mem s) (p_pagetable (procs s pr)) addr q k,
        procs := awake (PipeWriteChan pi) (Some pr) (procs s), pipes := (pipes s)(pi := y)\<rparr>)" "drained k (pipes s pi) y"
      using r by (auto simp: q_def k_def)
    then show ?thesis unfolding if_not_P [OF False] using lf by (simp add: drained_def delivered_def q_def)
  qed
qed

theorem piperead_fifo_witness:
  "\<exists>s'. piperead 0 0x87ffa000 0x10 8 (demo_pipes 2) = Inr (2, s') \<and> pipe_q (pipes s' 0x87ffa000) = []"
proof -
  let ?q = "pipe_q (demo_pipe 2)"
  have l: "length ?q = 2" "?q \<noteq> []" using demo_pipe_ok(2) [of 2] by auto
  have "\<exists>s'. piperead 0 0x87ffa000 0x10 8 (demo_pipes 2) = Inr (int (min (nat 8) (length ?q)), s')
      \<and> pipe_q (pipes s' 0x87ffa000) = drop (min (nat 8) (length ?q)) ?q"
    using piperead_fifo [of "demo_pipes 2" 0 2 "0x87ffa000" "0x10" 8] l(2) demo_user_fields demo_pipes_quiet
      demo_pipe_ok(1) [of 2] demo_pt_wft(1) demo_pipes_user [of 8] by simp blast
  then show ?thesis using l(1) by auto
qed

end
