(* ===== verification/Ulib.thy ===== *)
theory Ulib
  imports User_Io Kprintf
begin

text \<open>
  The library of the user programs, \<open>user/ulib.c\<close> and \<open>user/printf.c\<close>. The names get the prefix \<open>u\<close> where the kernel has
  a function of the same name.
\<close>

section \<open>Strings and memory\<close>

fun strcpy :: "memory \<Rightarrow> uint64 \<Rightarrow> uchar list \<Rightarrow> memory" where
  "strcpy m s [] = store8 s 0 m"
| "strcpy m s (c # t) = strcpy (store8 s c m) (s + 1) t"

fun strcmp :: "uchar list \<Rightarrow> uchar list \<Rightarrow> int" where
  "strcmp (x # p) (y # q) = (if x = y then strcmp p q else uint x - uint y)"
| "strcmp (x # p) [] = uint x"
| "strcmp [] (y # q) = - uint y"
| "strcmp [] [] = 0"

definition ustrlen :: "uchar list \<Rightarrow> uint" where
  "ustrlen s = of_nat (length s)"

definition umemset :: "memory \<Rightarrow> uint64 \<Rightarrow> uint \<Rightarrow> uint \<Rightarrow> memory" where
  "umemset m dst c n = fold (\<lambda>i m. store8 (dst + of_nat i) (ucast c) m) [0..<unat n] m"

text \<open>
  \<open>gets\<close>: one byte per \<open>read\<close>, whose environment is \<open>ks k\<close>, \<open>ks (k + 1)\<close> and so on; the string, the rest of the input and the
  number of the next call.
\<close>

function gets_loop :: "(nat \<Rightarrow> int) \<Rightarrow> nat \<Rightarrow> nat \<Rightarrow> int \<Rightarrow> uchar list \<Rightarrow> uchar list \<times> uchar list \<times> nat" where
  "gets_loop ks k i mx inp =
     (if int i + 1 < mx
      then case uread (ks k) 1 inp of (cc, d, inp') \<Rightarrow>
        if cc < 1 then ([], inp', k + 1)
        else if hd d = nl \<or> hd d = 13 then ([hd d], inp', k + 1)
        else case gets_loop ks (k + 1) (i + 1) mx inp' of (r, rest, k') \<Rightarrow> (hd d # r, rest, k')
      else ([], inp, k))"
  by pat_completeness auto
termination
  by (relation "measure (\<lambda>(ks, k, i, mx, inp). length inp)") (auto dest: uread_shorter [OF sym])

declare gets_loop.simps [simp del]

definition gets :: "(nat \<Rightarrow> int) \<Rightarrow> nat \<Rightarrow> int \<Rightarrow> uchar list \<Rightarrow> uchar list \<times> uchar list \<times> nat" where
  "gets ks k mx inp = gets_loop ks k 0 mx inp"

lemma gets_loop_rest:
  "gets_loop ks k i mx inp = (r, rest, k') \<Longrightarrow> length rest + length r \<le> length inp"
proof (induction ks k i mx inp arbitrary: r rest k' rule: gets_loop.induct)
  case (1 ks k i mx inp)
  obtain cc d inp' where u: "uread (ks k) 1 inp = (cc, d, inp')" by (metis prod_cases3)
  note eq = gets_loop.simps [of ks k i mx inp, unfolded u prod.case]
  have sp: "inp = d @ inp'" "cc > 0 \<longrightarrow> cc = int (length d)" using uread_split [OF u] by auto
  obtain r2 rest2 k2 where g: "gets_loop ks (k + 1) (i + 1) mx inp' = (r2, rest2, k2)" by (metis prod_cases3)
  show ?case
  proof (cases "int i + 1 < mx \<and> \<not> cc < 1 \<and> \<not> (hd d = nl \<or> hd d = 13)")
    case True
    then have "length rest2 + length r2 \<le> length inp'" using 1(1) [OF _ u [symmetric] refl _ _ g] by auto
    moreover have "0 < length d" using True sp(2) by auto
    ultimately show ?thesis using 1(2) True g sp(1) unfolding eq by (cases d) auto
  next
    case False
    then show ?thesis using 1(2) sp unfolding eq by (cases d) (auto split: if_splits)
  qed
qed

text \<open>\<open>stat\<close>, with the results of \<open>open\<close>, of \<open>fstat\<close> and the log of closed descriptors.\<close>

definition ustat :: "(uchar list \<Rightarrow> int) \<Rightarrow> (int \<Rightarrow> int \<times> 'st) \<Rightarrow> uchar list \<Rightarrow> 'st \<Rightarrow> int \<times> 'st \<times> int list" where
  "ustat open fstat n st =
     (let fd = open n in if fd < 0 then (-1, st, []) else case fstat fd of (r, st) \<Rightarrow> (r, st, [fd]))"

text \<open>\<open>atoi\<close>; the arithmetic is that of \<open>int\<close>, which must not overflow.\<close>

fun atoi_loop :: "int \<Rightarrow> uchar list \<Rightarrow> int kres" where
  "atoi_loop n [] = Inr n"
| "atoi_loop n (c # s) =
     (if 48 \<le> c \<and> c \<le> 57
      then if n * 10 + uint c < 0x80000000 then atoi_loop (n * 10 + uint c - 48) s else Inl (Undefined ''signed overflow'')
      else Inr n)"

definition atoi :: "uchar list \<Rightarrow> int kres" where
  "atoi s = atoi_loop 0 s"

definition umemmove :: "memory \<Rightarrow> uint64 \<Rightarrow> uint64 \<Rightarrow> int \<Rightarrow> memory" where
  "umemmove m dst src n =
     (if src > dst then fold (\<lambda>i m. store8 (dst + of_nat i) (m (src + of_nat i)) m) [0..<nat n] m
      else fold (\<lambda>i m. store8 (dst + of_nat i) (m (src + of_nat i)) m) (rev [0..<nat n]) m)"

fun umemcmp :: "bytes \<Rightarrow> bytes \<Rightarrow> nat \<Rightarrow> int" where
  "umemcmp p1 p2 0 = 0"
| "umemcmp p1 p2 (Suc n) = (if p1 0 \<noteq> p2 0 then uint (p1 0) - uint (p2 0) else umemcmp (adv p1) (adv p2) n)"

definition umemcpy :: "memory \<Rightarrow> uint64 \<Rightarrow> uint64 \<Rightarrow> uint \<Rightarrow> memory" where
  "umemcpy m dst src n = umemmove m dst src (sint n)"

section \<open>Formatted output\<close>

definition udigits :: "uchar list" where
  "udigits = cstr ''0123456789ABCDEF''"

definition uprintint :: "uint \<Rightarrow> uint \<Rightarrow> bool \<Rightarrow> uchar list kres" where
  "uprintint xx base signed1 =
     (let neg = (signed1 \<and> sint xx < 0); x = (if neg then - xx else xx)
      in bnd (digit_loop udigits 16 x base) (\<lambda>buf.
         if neg then (if length buf < 16 then Inr (rev (buf @ [chr CHR ''-''])) else Inl (Undefined ''buffer overflow''))
         else Inr (rev buf)))"

definition uprintptr :: "uint64 \<Rightarrow> uchar list" where
  "uprintptr x = cstr ''0x'' @ hex_digits udigits x"

text \<open>\<open>vprintf\<close>: the bytes written, one \<open>write\<close> each. After a \<open>%\<close> the loop is in its second state.\<close>

definition vconv :: "char \<Rightarrow> arg list \<Rightarrow> (uchar list \<times> arg list) kres" where
  "vconv c ap =
     (if c = CHR ''d'' then (case ap of AInt v # ap \<Rightarrow> bnd (uprintint v 10 True) (\<lambda>o1. Inr (o1, ap)) | _ \<Rightarrow> Inl (Undefined ''va_arg''))
      else if c = CHR ''l'' then (case ap of APtr v # ap \<Rightarrow> bnd (uprintint (ucast v) 10 False) (\<lambda>o1. Inr (o1, ap)) | _ \<Rightarrow> Inl (Undefined ''va_arg''))
      else if c = CHR ''x'' then (case ap of AInt v # ap \<Rightarrow> bnd (uprintint v 16 False) (\<lambda>o1. Inr (o1, ap)) | _ \<Rightarrow> Inl (Undefined ''va_arg''))
      else if c = CHR ''p'' then (case ap of APtr v # ap \<Rightarrow> Inr (uprintptr v, ap) | _ \<Rightarrow> Inl (Undefined ''va_arg''))
      else if c = CHR ''s'' then (case ap of AStr v # ap \<Rightarrow>
          Inr (case v of None \<Rightarrow> cstr ''(null)'' | Some str \<Rightarrow> takeWhile (\<lambda>b. b \<noteq> 0) str, ap) | _ \<Rightarrow> Inl (Undefined ''va_arg''))
      else if c = CHR ''c'' then (case ap of AInt v # ap \<Rightarrow> Inr ([ucast v], ap) | _ \<Rightarrow> Inl (Undefined ''va_arg''))
      else if c = CHR ''%'' then Inr ([chr c], ap)
      else Inr ([chr CHR ''%'', chr c], ap))"

fun vprintf :: "bool \<Rightarrow> string \<Rightarrow> arg list \<Rightarrow> uchar list kres" where
  "vprintf state [] ap = Inr []"
| "vprintf state (c # fmt) ap =
     (if \<not> state then (if c = CHR ''%'' then vprintf True fmt ap else bnd (vprintf False fmt ap) (\<lambda>out. Inr (chr c # out)))
      else bnd (vconv c ap) (\<lambda>(o1, ap). bnd (vprintf False fmt ap) (\<lambda>out. Inr (o1 @ out))))"

definition fprintf :: "int \<Rightarrow> string \<Rightarrow> arg list \<Rightarrow> (int \<times> uchar list) kres" where
  "fprintf fd fmt ap = bnd (vprintf False fmt ap) (\<lambda>out. Inr (fd, out))"

definition uprintf :: "string \<Rightarrow> arg list \<Rightarrow> (int \<times> uchar list) kres" where
  "uprintf fmt ap = bnd (vprintf False fmt ap) (\<lambda>out. Inr (1, out))"

section \<open>Facts\<close>

lemma strcmp_eq: "strcmp p q = 0 \<longleftrightarrow> p = q" if "0 \<notin> set p" "0 \<notin> set q"
  using that
proof (induction p q rule: strcmp.induct)
  case (1 x p y q)
  then show ?case by (auto simp: word_uint_eq_iff)
qed (auto simp: word_uint_eq_iff)

lemma umemmove_apply:
  assumes "unat src + nat n < 18446744073709551616" "unat dst + nat n < 18446744073709551616"
  shows "umemmove m dst src n a = (if unat (a - dst) < nat n then m (src + (a - dst)) else m a)"
proof -
  have k: "nat n < 18446744073709551616" using assms by simp
  have off: "unat (src + of_nat i) = unat src + i" "unat (dst + of_nat i) = unat dst + i" if "i < nat n" for i
    using that assms by (simp_all add: unat_word_ariths unat_of_nat)
  show ?thesis
  proof (cases "src > dst")
    case True
    then have lt: "unat dst < unat src" by (simp add: word_less_nat_alt)
    have "src + of_nat j \<noteq> dst + of_nat i" if h: "i < j" "j < nat n" for i j
    proof
      assume "src + of_nat j = dst + of_nat i"
      then have "unat src + j = unat dst + i" using off(1) [of j] off(2) [of i] h by simp
      then show False using lt h by linarith
    qed
    then show ?thesis using fold_copy_up [OF k] True by (simp add: umemmove_def)
  next
    case False
    then have le: "unat src \<le> unat dst" by (simp add: word_less_nat_alt)
    have "src + of_nat i \<noteq> dst + of_nat j" if h: "i < j" "j < nat n" for i j
    proof
      assume "src + of_nat i = dst + of_nat j"
      then have "unat src + i = unat dst + j" using off(1) [of i] off(2) [of j] h by simp
      then show False using le h by linarith
    qed
    then show ?thesis using fold_copy_down [OF k] False by (simp add: umemmove_def)
  qed
qed

end
