(* ===== verification/Sh.thy ===== *)
theory Sh
  imports Ulib
begin

text \<open>
  The parser of the shell, \<open>user/sh.c\<close>. The line is the list \<open>l\<close> of its bytes before the NUL; a \<open>char *\<close> into it is a position, and the pointer
  \<open>es\<close> is its length. \<open>panic()\<close>, which exits, is an error value; allocation is assumed to succeed.
\<close>

section \<open>Tokens\<close>

definition whitespace :: "uchar list" where "whitespace = cstr '' '' @ [9, 13, 10, 11]"
definition symbols :: "uchar list" where "symbols = cstr ''<|>&;()''"

definition is_ws :: "uchar \<Rightarrow> bool" where "is_ws c \<longleftrightarrow> strchr whitespace c \<noteq> None"
definition is_sym :: "uchar \<Rightarrow> bool" where "is_sym c \<longleftrightarrow> strchr symbols c \<noteq> None"

definition at :: "uchar list \<Rightarrow> nat \<Rightarrow> uchar" where
  "at l s = (if s < length l then l ! s else 0)"

function skip_ws :: "uchar list \<Rightarrow> nat \<Rightarrow> nat" where
  "skip_ws l s = (if s < length l \<and> is_ws (at l s) then skip_ws l (s + 1) else s)"
  by pat_completeness auto
termination
  by (relation "measure (\<lambda>(l, s). length l - s)") auto

function skip_word :: "uchar list \<Rightarrow> nat \<Rightarrow> nat" where
  "skip_word l s = (if s < length l \<and> \<not> is_ws (at l s) \<and> \<not> is_sym (at l s) then skip_word l (s + 1) else s)"
  by pat_completeness auto
termination
  by (relation "measure (\<lambda>(l, s). length l - s)") auto

declare skip_ws.simps [simp del] skip_word.simps [simp del]

text \<open>\<open>gettoken\<close>: the token, its begin and end, and the position after it.\<close>

definition token_at :: "uchar list \<Rightarrow> nat \<Rightarrow> uchar \<times> nat" where
  "token_at l s =
     (let c = at l s
      in if c = 0 then (c, s)
         else if c \<in> {chr CHR ''|'', chr CHR ''('', chr CHR '')'', chr CHR '';'', chr CHR ''&'', chr CHR ''<''} then (c, s + 1)
         else if c = chr CHR ''>'' then (if at l (s + 1) = chr CHR ''>'' then (chr CHR ''+'', s + 2) else (c, s + 1))
         else (chr CHR ''a'', skip_word l s))"

definition gettoken :: "uchar list \<Rightarrow> nat \<Rightarrow> uchar \<times> nat \<times> nat \<times> nat" where
  "gettoken l s = (let q = skip_ws l s in case token_at l q of (ret, eq) \<Rightarrow> (ret, q, eq, skip_ws l eq))"

definition peek :: "uchar list \<Rightarrow> nat \<Rightarrow> string \<Rightarrow> bool \<times> nat" where
  "peek l s toks = (let s = skip_ws l s in (at l s \<noteq> 0 \<and> strchr (cstr toks) (at l s) \<noteq> None, s))"

section \<open>Commands\<close>

text \<open>The strings of a command are pairs of positions: \<open>argv[i]\<close> with \<open>eargv[i]\<close>, \<open>file\<close> with \<open>efile\<close>.\<close>

datatype cmd =
    ExecCmd "(nat \<times> nat) list"
  | RedirCmd cmd "nat \<times> nat" int int
  | PipeCmd cmd cmd
  | ListCmd cmd cmd
  | BackCmd cmd

definition MAXARGS :: nat where [simp]: "MAXARGS = 10"

text \<open>How far the scanner moves.\<close>

lemma skip_ws_ge: "s \<le> skip_ws l s"
  by (induction l s rule: skip_ws.induct) (subst skip_ws.simps, auto)

lemma skip_ws_le: "s \<le> length l \<Longrightarrow> skip_ws l s \<le> length l"
  by (induction l s rule: skip_ws.induct) (subst skip_ws.simps, auto)

lemma skip_word_ge: "s \<le> skip_word l s"
  by (induction l s rule: skip_word.induct) (subst skip_word.simps, auto)

lemma skip_word_le: "s \<le> length l \<Longrightarrow> skip_word l s \<le> length l"
  by (induction l s rule: skip_word.induct) (subst skip_word.simps, auto)

lemma at_end: "at l s \<noteq> 0 \<Longrightarrow> s < length l"
  by (auto simp: at_def split: if_splits)

lemma is_sym_iff: "is_sym c \<longleftrightarrow> c \<in> set symbols"
  by (auto simp: is_sym_def symbols_def cstr_def chr_def)

lemma is_ws_iff: "is_ws c \<longleftrightarrow> c \<in> set whitespace"
  by (auto simp: is_ws_def whitespace_def cstr_def chr_def)

lemma skip_ws_stop: "is_ws (at l (skip_ws l s)) \<Longrightarrow> False"
proof (induction l s rule: skip_ws.induct)
  case (1 l s)
  show ?case
  proof (cases "s < length l \<and> is_ws (at l s)")
    case True
    then show ?thesis using 1 by (subst (asm) skip_ws.simps) simp
  next
    case False
    then have "skip_ws l s = s" by (subst skip_ws.simps) auto
    then show ?thesis using 1(2) False by (auto simp: at_def is_ws_def whitespace_def cstr_def chr_def split: if_splits)
  qed
qed

lemma token_at_pos:
  assumes "token_at l q = (r, e)" "\<not> is_ws (at l q)"
  shows "q \<le> e" "r \<noteq> 0 \<Longrightarrow> q < e \<and> q < length l" "q \<le> length l \<Longrightarrow> e \<le> length l" "r = 0 \<longleftrightarrow> at l q = 0"
proof -
  have word: "q < skip_word l q" if "at l q \<noteq> 0" "\<not> is_sym (at l q)"
  proof -
    have "skip_word l q = skip_word l (q + 1)" using that assms(2) at_end [OF that(1)] by (subst skip_word.simps) simp
    then show ?thesis using skip_word_ge [of "q + 1" l] by simp
  qed
  have sy: "at l q \<in> {chr CHR ''|'', chr CHR ''('', chr CHR '')'', chr CHR '';'', chr CHR ''&'', chr CHR ''<''} \<or> at l q = chr CHR ''>''"
    if "is_sym (at l q)" using that by (auto simp: is_sym_iff symbols_def cstr_def)
  have nz: "chr CHR ''+'' \<noteq> 0" "chr CHR ''a'' \<noteq> 0" "chr CHR ''>'' \<noteq> 0" by (simp_all add: chr_def)
  have gt: "q + 2 \<le> length l" if "at l (q + 1) = chr CHR ''>''" using that nz(3) at_end [of l "q + 1"] by fastforce
  show "q \<le> e" using assms(1) skip_word_ge [of q l] by (auto simp: token_at_def Let_def split: if_splits)
  show z: "r = 0 \<longleftrightarrow> at l q = 0" using assms(1) nz by (auto simp: token_at_def Let_def split: if_splits)
  show "r \<noteq> 0 \<Longrightarrow> q < e \<and> q < length l"
    using assms(1) z word sy at_end by (auto simp: token_at_def Let_def split: if_splits)
  show "q \<le> length l \<Longrightarrow> e \<le> length l"
    using assms(1) skip_word_le [of q l] at_end [of l q] gt by (auto simp: token_at_def Let_def split: if_splits)
qed

lemma gettoken_pos:
  assumes "gettoken l s = (r, q, e, t)"
  shows "s \<le> t" "r \<noteq> 0 \<Longrightarrow> s < t" "s \<le> length l \<Longrightarrow> t \<le> length l" "r = 0 \<longleftrightarrow> at l (skip_ws l s) = 0" "q = skip_ws l s" "q \<le> e"
    "r \<noteq> 0 \<Longrightarrow> q < e" "s \<le> length l \<Longrightarrow> e \<le> length l" "token_at l q = (r, e)" "t = skip_ws l e"
proof -
  obtain r' e' where tk: "token_at l (skip_ws l s) = (r', e')" by (cases "token_at l (skip_ws l s)")
  then have g: "r = r'" "q = skip_ws l s" "e = e'" "t = skip_ws l e'" using assms by (auto simp: gettoken_def Let_def)
  note p = token_at_pos [OF tk] and ge = skip_ws_ge [of s l] skip_ws_ge [of e' l]
  have ns: "\<not> is_ws (at l (skip_ws l s))" using skip_ws_stop by blast
  show "s \<le> t" "r \<noteq> 0 \<Longrightarrow> s < t" "r = 0 \<longleftrightarrow> at l (skip_ws l s) = 0" "q = skip_ws l s" "q \<le> e" "r \<noteq> 0 \<Longrightarrow> q < e"
    "token_at l q = (r, e)" "t = skip_ws l e"
    using p [OF ns] g ge tk by auto
  show "s \<le> length l \<Longrightarrow> e \<le> length l" "s \<le> length l \<Longrightarrow> t \<le> length l"
    using p(3) [OF ns] g skip_ws_le [of s l] skip_ws_le [of e' l] by auto
qed

lemma peek_pos:
  assumes "peek l s toks = (b, t)"
  shows "s \<le> t" "t = skip_ws l s" "b \<Longrightarrow> at l t \<noteq> 0" "s \<le> length l \<Longrightarrow> t \<le> length l"
  using assms skip_ws_ge skip_ws_le [of s l] by (auto simp: peek_def Let_def)

lemma skip_ws_idem [simp]: "skip_ws l (skip_ws l s) = skip_ws l s"
  using skip_ws_stop [of l s] by (subst skip_ws.simps) auto

lemma peek_step:
  assumes "peek l s toks = (True, s1)" "gettoken l s1 = (tok, q, e, s2)"
  shows "s \<le> s1 \<and> s1 < length l \<and> s1 < s2"
proof -
  have "at l s1 \<noteq> 0" "s \<le> s1" "skip_ws l s1 = s1" using peek_pos [OF assms(1)] by auto
  then show ?thesis using gettoken_pos(2,4) [OF assms(2)] at_end [of l s1] by simp
qed

lemma arg_step:
  assumes "peek l s toks = (b, s1)" "gettoken l s1 = (tok, q, e, s2)" "tok \<noteq> 0"
  shows "s \<le> s1 \<and> s1 < length l \<and> s1 < s2"
proof -
  have "s \<le> s1" "skip_ws l s1 = s1" using peek_pos [OF assms(1)] by auto
  then show ?thesis using gettoken_pos(2,4) [OF assms(2)] assms(3) at_end [of l s1] by auto
qed

section \<open>The parser\<close>

type_synonym redir = "(nat \<times> nat) \<times> int \<times> int"

text \<open>The redirection for a token: \<open>O_RDONLY\<close> on descriptor 0, or \<open>O_WRONLY|O_CREATE\<close> with or without \<open>O_TRUNC\<close> on descriptor 1.\<close>

definition redir_of :: "uchar \<Rightarrow> nat \<times> nat \<Rightarrow> redir" where
  "redir_of tok f = (if tok = chr CHR ''<'' then (f, 0, 0) else if tok = chr CHR ''>'' then (f, 0x601, 1) else (f, 0x201, 1))"

definition redirs :: "cmd \<Rightarrow> redir list \<Rightarrow> cmd" where
  "redirs cmd rs = fold (\<lambda>(f, mode, fd) cmd. RedirCmd cmd f mode fd) rs cmd"

text \<open>\<open>parseredirs\<close>: the redirections it puts around the command, in order.\<close>

function parseredirs :: "uchar list \<Rightarrow> nat \<Rightarrow> (redir list \<times> nat) kres" where
  "parseredirs l s =
     (case peek l s ''<>'' of (b, s) \<Rightarrow>
        if \<not> b then Inr ([], s)
        else case gettoken l s of (tok, _, _, s) \<Rightarrow> case gettoken l s of (t2, q, eq, s) \<Rightarrow>
          if t2 \<noteq> chr CHR ''a'' then Inl (Panic ''missing file for redirection'')
          else bnd (parseredirs l s) (\<lambda>(rs, s). Inr (redir_of tok (q, eq) # rs, s)))"
  by pat_completeness auto
termination
  by (relation "measure (\<lambda>(l, s). length l - s)")
    (simp, fastforce dest: peek_step [OF sym sym] gettoken_pos(1) [OF sym])

declare parseredirs.simps [simp del]

lemma parseredirs_pos: "parseredirs l s = Inr (rs, t) \<Longrightarrow> s \<le> t \<and> (s \<le> length l \<longrightarrow> t \<le> length l)"
proof (induction l s arbitrary: rs t rule: parseredirs.induct)
  case (1 l s)
  obtain b s1 where pk: "peek l s ''<>'' = (b, s1)" by (cases "peek l s ''<>''")
  show ?case
  proof (cases b)
    case False
    then show ?thesis using 1(2) pk peek_pos [OF pk] by (subst (asm) parseredirs.simps) auto
  next
    case True
    obtain tok q1 e1 s2 where g1: "gettoken l s1 = (tok, q1, e1, s2)" by (metis prod_cases4)
    obtain t2 q e s3 where g2: "gettoken l s2 = (t2, q, e, s3)" by (metis prod_cases4)
    have a: "t2 = chr CHR ''a''" using 1(2) pk g1 g2 True by (subst (asm) parseredirs.simps) (auto split: if_splits)
    then obtain rs' where r: "parseredirs l s3 = Inr (rs', t)"
      using 1(2) pk g1 g2 True by (subst (asm) parseredirs.simps) auto
    have "s3 \<le> t \<and> (s3 \<le> length l \<longrightarrow> t \<le> length l)"
      using 1(1) [OF pk [symmetric] _ g1 [symmetric] refl refl g2 [symmetric] refl refl _ r] True a by simp
    then show ?thesis using peek_pos [OF pk] gettoken_pos [OF g1] gettoken_pos [OF g2] by auto
  qed
qed

text \<open>The loop of \<open>parseexec\<close> over the arguments; it fills \<open>argv\<close> of the command and puts redirections around it.\<close>

function parseargs :: "uchar list \<Rightarrow> nat \<Rightarrow> (nat \<times> nat) list \<Rightarrow> redir list \<Rightarrow> ((nat \<times> nat) list \<times> redir list \<times> nat) kres" where
  "parseargs l s argv rs =
     (case peek l s ''|)&;'' of (b, s) \<Rightarrow>
        if b then Inr (argv, rs, s)
        else case gettoken l s of (tok, q, eq, s) \<Rightarrow>
          if tok = 0 then Inr (argv, rs, s)
          else if tok \<noteq> chr CHR ''a'' then Inl (Panic ''syntax'')
          else let argv = argv @ [(q, eq)]
               in if length argv \<ge> MAXARGS then Inl (Panic ''too many args'')
                  else bnd (parseredirs l s) (\<lambda>(rs2, s). parseargs l s argv (rs @ rs2)))"
  by pat_completeness auto
termination
  by (relation "measure (\<lambda>(l, s, argv, rs). length l - s)")
    (simp, fastforce dest: arg_step [OF sym sym] parseredirs_pos)

declare parseargs.simps [simp del]

fun backs :: "nat \<Rightarrow> uchar list \<Rightarrow> cmd \<Rightarrow> nat \<Rightarrow> (cmd \<times> nat) kres" where
  "backs 0 l cmd s = Inl (Spin ''parseline'')"
| "backs (Suc n) l cmd s =
     (case peek l s ''&'' of (b, s) \<Rightarrow>
        if b then (case gettoken l s of (_, _, _, s) \<Rightarrow> backs n l (BackCmd cmd) s) else Inr (cmd, s))"

text \<open>The recursive descent. Every function takes an extra argument that bounds the depth of the recursion.\<close>

function (sequential) parseline :: "nat \<Rightarrow> uchar list \<Rightarrow> nat \<Rightarrow> (cmd \<times> nat) kres"
  and parsepipe :: "nat \<Rightarrow> uchar list \<Rightarrow> nat \<Rightarrow> (cmd \<times> nat) kres"
  and parseexec :: "nat \<Rightarrow> uchar list \<Rightarrow> nat \<Rightarrow> (cmd \<times> nat) kres"
  and parseblock :: "nat \<Rightarrow> uchar list \<Rightarrow> nat \<Rightarrow> (cmd \<times> nat) kres" where
  "parseline 0 l s = Inl (Spin ''parseline'')"
| "parseline (Suc n) l s =
     bnd (parsepipe n l s) (\<lambda>(cmd, s).
     bnd (backs (length l + 1) l cmd s) (\<lambda>(cmd, s).
       case peek l s '';'' of (b, s) \<Rightarrow>
         if b then (case gettoken l s of (_, _, _, s) \<Rightarrow> bnd (parseline n l s) (\<lambda>(right, s). Inr (ListCmd cmd right, s)))
         else Inr (cmd, s)))"
| "parsepipe 0 l s = Inl (Spin ''parsepipe'')"
| "parsepipe (Suc n) l s =
     bnd (parseexec n l s) (\<lambda>(cmd, s).
       case peek l s ''|'' of (b, s) \<Rightarrow>
         if b then (case gettoken l s of (_, _, _, s) \<Rightarrow> bnd (parsepipe n l s) (\<lambda>(right, s). Inr (PipeCmd cmd right, s)))
         else Inr (cmd, s))"
| "parseexec 0 l s = Inl (Spin ''parseexec'')"
| "parseexec (Suc n) l s =
     (case peek l s ''('' of (b, s) \<Rightarrow>
        if b then parseblock n l s
        else bnd (parseredirs l s) (\<lambda>(rs, s).
             bnd (parseargs l s [] rs) (\<lambda>(argv, rs, s). Inr (redirs (ExecCmd argv) rs, s))))"
| "parseblock 0 l s = Inl (Spin ''parseblock'')"
| "parseblock (Suc n) l s =
     (case peek l s ''('' of (b, s) \<Rightarrow>
        if \<not> b then Inl (Panic ''parseblock'')
        else case gettoken l s of (_, _, _, s) \<Rightarrow>
          bnd (parseline n l s) (\<lambda>(cmd, s).
            case peek l s '')'' of (b, s) \<Rightarrow>
              if \<not> b then Inl (Panic ''syntax - missing )'')
              else case gettoken l s of (_, _, _, s) \<Rightarrow> bnd (parseredirs l s) (\<lambda>(rs, s). Inr (redirs cmd rs, s))))"
  by pat_completeness auto
termination
  by (relation "measure (case_sum (case_sum fst fst) (case_sum fst fst))") auto

text \<open>\<open>nulterminate\<close>: the positions where it stores NUL, in order.\<close>

fun nulterminate :: "cmd \<Rightarrow> nat list" where
  "nulterminate (ExecCmd argv) = map snd argv"
| "nulterminate (RedirCmd cmd f mode fd) = nulterminate cmd @ [snd f]"
| "nulterminate (PipeCmd left right) = nulterminate left @ nulterminate right"
| "nulterminate (ListCmd left right) = nulterminate left @ nulterminate right"
| "nulterminate (BackCmd cmd) = nulterminate cmd"

text \<open>\<open>parsecmd\<close>: the command and the line with the NULs stored.\<close>

definition parsecmd :: "uchar list \<Rightarrow> (cmd \<times> uchar list) kres" where
  "parsecmd l =
     bnd (parseline (4 * length l + 4) l 0) (\<lambda>(cmd, s).
       case peek l s [] of (_, s) \<Rightarrow>
         if s \<noteq> length l then Inl (Panic ''syntax'')
         else Inr (cmd, fold (\<lambda>e l. l[e := 0]) (nulterminate cmd) (l @ [0])))"

section \<open>Every line is parsed or refused\<close>

text \<open>A token is a nonempty run of bytes that are neither blank nor symbols, ended by one that is, or by the end of the line.\<close>

definition tok_ok :: "uchar list \<Rightarrow> nat \<times> nat \<Rightarrow> bool" where
  "tok_ok l t = (case t of (q, e) \<Rightarrow> q < e \<and> e \<le> length l \<and> (\<forall>i<e. q \<le> i \<longrightarrow> \<not> is_ws (l ! i) \<and> \<not> is_sym (l ! i))
     \<and> (e < length l \<longrightarrow> is_ws (l ! e) \<or> is_sym (l ! e)))"

fun cmd_ok :: "uchar list \<Rightarrow> cmd \<Rightarrow> bool" where
  "cmd_ok l (ExecCmd argv) \<longleftrightarrow> length argv < MAXARGS \<and> list_all (tok_ok l) argv"
| "cmd_ok l (RedirCmd cmd f mode fd) \<longleftrightarrow> cmd_ok l cmd \<and> tok_ok l f \<and> (mode, fd) \<in> {(0, 0), (0x601, 1), (0x201, 1)}"
| "cmd_ok l (PipeCmd left right) \<longleftrightarrow> cmd_ok l left \<and> cmd_ok l right"
| "cmd_ok l (ListCmd left right) \<longleftrightarrow> cmd_ok l left \<and> cmd_ok l right"
| "cmd_ok l (BackCmd cmd) \<longleftrightarrow> cmd_ok l cmd"

text \<open>A parser started at \<open>s\<close> panics, or returns a good result and a position of the line not before \<open>s\<close>.\<close>

definition parsed :: "uchar list \<Rightarrow> nat \<Rightarrow> ('a \<Rightarrow> bool) \<Rightarrow> ('a \<times> nat) kres \<Rightarrow> bool" where
  "parsed l s P r = (case r of Inl e \<Rightarrow> (\<exists>m. e = Panic m) | Inr (x, t) \<Rightarrow> P x \<and> s \<le> t \<and> t \<le> length l)"

lemma parsed_bnd:
  "parsed l s P m \<Longrightarrow> (\<And>x t. P x \<Longrightarrow> s \<le> t \<Longrightarrow> t \<le> length l \<Longrightarrow> parsed l s Q (f (x, t))) \<Longrightarrow> parsed l s Q (bnd m f)"
  by (cases m) (auto simp: parsed_def)

lemma parsed_mono: "parsed l t P r \<Longrightarrow> s \<le> t \<Longrightarrow> parsed l s P r"
  by (auto simp: parsed_def split: sum.splits)

lemma parsed_simps [simp]:
  "parsed l s P (Inr (x, t)) \<longleftrightarrow> P x \<and> s \<le> t \<and> t \<le> length l" "parsed l s P (Inl (Panic m))"
  by (simp_all add: parsed_def)

lemma skip_word_run:
  "s \<le> i \<Longrightarrow> i < skip_word l s \<Longrightarrow> i < length l \<and> \<not> is_ws (l ! i) \<and> \<not> is_sym (l ! i)"
proof (induction l s rule: skip_word.induct)
  case (1 l s)
  show ?case
  proof (cases "s < length l \<and> \<not> is_ws (at l s) \<and> \<not> is_sym (at l s)")
    case True
    then have e: "skip_word l s = skip_word l (s + 1)" by (subst skip_word.simps) simp
    show ?thesis using 1 True e by (cases "i = s") (auto simp: at_def)
  next
    case False
    then have "skip_word l s = s" by (subst skip_word.simps) auto
    then show ?thesis using 1 by simp
  qed
qed

lemma skip_word_end: "skip_word l s < length l \<Longrightarrow> is_ws (l ! skip_word l s) \<or> is_sym (l ! skip_word l s)"
proof (induction l s rule: skip_word.induct)
  case (1 l s)
  show ?case
  proof (cases "s < length l \<and> \<not> is_ws (at l s) \<and> \<not> is_sym (at l s)")
    case True
    then have e: "skip_word l s = skip_word l (s + 1)" by (subst skip_word.simps) simp
    show ?thesis using 1 True e by simp
  next
    case False
    then have "skip_word l s = s" by (subst skip_word.simps) auto
    then show ?thesis using 1(2) False by (auto simp: at_def split: if_splits)
  qed
qed

lemma gettoken_word:
  assumes g: "gettoken l s = (chr CHR ''a'', q, e, t)" and s: "s \<le> length l" and z: "0 \<notin> set l"
  shows "tok_ok l (q, e)"
proof -
  have tk: "token_at l q = (chr CHR ''a'', e)" using gettoken_pos(9) [OF g] by simp
  then have e: "e = skip_word l q" by (auto simp: token_at_def Let_def chr_def split: if_splits)
  have "q < e" "e \<le> length l" using gettoken_pos(7,8) [OF g] s by (auto simp: chr_def)
  then show ?thesis using skip_word_run [of q _ l] skip_word_end [of l q] by (auto simp: tok_ok_def e)
qed

lemma gettoken_end: "s \<le> length l \<Longrightarrow> gettoken l s = (r, q, e, t) \<Longrightarrow> s \<le> t \<and> t \<le> length l"
  using gettoken_pos(1,3) by blast

lemma peek_le: "s \<le> length l \<Longrightarrow> peek l s toks = (b, t) \<Longrightarrow> s \<le> t \<and> t \<le> length l"
  using peek_pos(1,4) by blast

definition redir_ok :: "uchar list \<Rightarrow> redir \<Rightarrow> bool" where
  "redir_ok l r = (case r of (f, mode, fd) \<Rightarrow> tok_ok l f \<and> (mode, fd) \<in> {(0, 0), (0x601, 1), (0x201, 1)})"

lemma redirs_ok: "cmd_ok l cmd \<Longrightarrow> list_all (redir_ok l) rs \<Longrightarrow> cmd_ok l (redirs cmd rs)"
  unfolding redirs_def by (induction rs arbitrary: cmd) (auto simp: redir_ok_def)

lemma parseredirs_ok:
  "0 \<notin> set l \<Longrightarrow> s \<le> length l \<Longrightarrow> parsed l s (list_all (redir_ok l)) (parseredirs l s)"
proof (induction l s rule: parseredirs.induct)
  case (1 l s)
  obtain b s1 where pk: "peek l s ''<>'' = (b, s1)" by (cases "peek l s ''<>''")
  obtain tok q1 e1 s2 where g1: "gettoken l s1 = (tok, q1, e1, s2)" by (metis prod_cases4)
  obtain t2 q e s3 where g2: "gettoken l s2 = (t2, q, e, s3)" by (metis prod_cases4)
  note eq = parseredirs.simps [of l s, unfolded pk prod.case g1 g2]
  have le: "s \<le> s1" "s1 \<le> length l" "s1 \<le> s2" "s2 \<le> length l" "s2 \<le> s3" "s3 \<le> length l"
    using peek_le [OF 1(3) pk] gettoken_end [OF _ g1] gettoken_end [OF _ g2] by auto
  show ?case
  proof (cases "b \<and> t2 = chr CHR ''a''")
    case True
    have "parsed l s3 (list_all (redir_ok l)) (parseredirs l s3)"
      by (rule 1(1) [OF pk [symmetric] _ g1 [symmetric] refl refl g2 [symmetric] refl refl]) (use True 1(2) le in auto)
    then have "parsed l s (list_all (redir_ok l)) (parseredirs l s3)" by (rule parsed_mono) (use le in simp)
    moreover have "redir_ok l (redir_of tok (q, e))"
      using gettoken_word [of l s2 q e s3] g2 True le 1(2) by (simp add: redir_ok_def redir_of_def)
    ultimately show ?thesis unfolding eq using True by (auto intro: parsed_bnd)
  next
    case False
    then show ?thesis unfolding eq using le by auto
  qed
qed

lemma parseargs_ok:
  "0 \<notin> set l \<Longrightarrow> s \<le> length l \<Longrightarrow> length argv < MAXARGS \<Longrightarrow> list_all (tok_ok l) argv \<Longrightarrow> list_all (redir_ok l) rs \<Longrightarrow>
    case parseargs l s argv rs of Inl e \<Rightarrow> \<exists>m. e = Panic m
    | Inr (argv, rs, t) \<Rightarrow> length argv < MAXARGS \<and> list_all (tok_ok l) argv \<and> list_all (redir_ok l) rs \<and> s \<le> t \<and> t \<le> length l"
proof (induction l s argv rs rule: parseargs.induct)
  case (1 l s argv rs)
  obtain b s1 where pk: "peek l s ''|)&;'' = (b, s1)" by (cases "peek l s ''|)&;''")
  obtain tok q e s2 where g: "gettoken l s1 = (tok, q, e, s2)" by (metis prod_cases4)
  note eq = parseargs.simps [of l s argv rs, unfolded pk prod.case g Let_def]
  have le: "s \<le> s1" "s1 \<le> length l" "s1 \<le> s2" "s2 \<le> length l"
    using peek_le [OF 1(3) pk] gettoken_end [OF _ g] by auto
  show ?case
  proof (cases "\<not> b \<and> tok = chr CHR ''a'' \<and> length argv + 1 < MAXARGS")
    case True
    then have na: "tok \<noteq> 0" "\<not> tok \<noteq> chr CHR ''a''" "\<not> MAXARGS \<le> length (argv @ [(q, e)])" by (auto simp: chr_def)
    have w: "tok_ok l (q, e)" using gettoken_word [of l s1 q e s2] g True le 1(2) by simp
    have e2: "parseargs l s argv rs = bnd (parseredirs l s2) (\<lambda>(rs2, s). parseargs l s (argv @ [(q, e)]) (rs @ rs2))"
      unfolding eq using True na by simp
    from parseredirs_ok [OF 1(2) le(4)] show ?thesis
    proof (cases "parseredirs l s2")
      case (Inr x)
      obtain rs2 s3 where x: "x = (rs2, s3)" by (cases x)
      then have r: "parseredirs l s2 = Inr (rs2, s3)" "list_all (redir_ok l) rs2" "s2 \<le> s3" "s3 \<le> length l"
        using Inr parseredirs_ok [OF 1(2) le(4)] by auto
      have "case parseargs l s3 (argv @ [(q, e)]) (rs @ rs2) of Inl e \<Rightarrow> \<exists>m. e = Panic m
        | Inr (argv, rs, t) \<Rightarrow> length argv < MAXARGS \<and> list_all (tok_ok l) argv \<and> list_all (redir_ok l) rs \<and> s3 \<le> t \<and> t \<le> length l"
        by (rule 1(1) [OF pk [symmetric] _ g [symmetric] refl refl na(1,2) refl na(3) r(1) refl])
          (use True 1 w r in auto)
      then show ?thesis unfolding e2 r(1) using le r by (auto split: sum.splits)
    qed (simp add: e2 parsed_def)
  next
    case False
    then show ?thesis unfolding eq using le 1 by (auto simp: chr_def)
  qed
qed

text \<open>Looking for a symbol and, if it is there, going on after it; otherwise going on without it.\<close>

lemma parsed_next:
  assumes t: "s \<le> t" "t \<le> length l"
    and f: "\<And>u. t < u \<Longrightarrow> u \<le> length l \<Longrightarrow> parsed l s Q (f u)" and g: "\<And>u. t \<le> u \<Longrightarrow> u \<le> length l \<Longrightarrow> parsed l s Q (g u)"
  shows "parsed l s Q (case peek l t toks of (b, s) \<Rightarrow> if b then case gettoken l s of (_, _, _, s) \<Rightarrow> f s else g s)"
    and "parsed l s Q (case peek l t toks of (b, s) \<Rightarrow> if \<not> b then g s else case gettoken l s of (_, _, _, s) \<Rightarrow> f s)"
proof -
  obtain b u where pk: "peek l t toks = (b, u)" by (cases "peek l t toks")
  obtain tok q e v where tk: "gettoken l u = (tok, q, e, v)" by (metis prod_cases4)
  have le: "t \<le> u" "u \<le> length l" "v \<le> length l" using peek_le [OF t(2) pk] gettoken_end [OF _ tk] by auto
  have "t < v" if b using peek_step [of l t toks u tok q e v] pk tk that by auto
  then show "parsed l s Q (case peek l t toks of (b, s) \<Rightarrow> if b then case gettoken l s of (_, _, _, s) \<Rightarrow> f s else g s)"
    "parsed l s Q (case peek l t toks of (b, s) \<Rightarrow> if \<not> b then g s else case gettoken l s of (_, _, _, s) \<Rightarrow> f s)"
    using pk tk le f g by (cases b; simp)+
qed

lemma backs_ok:
  "s \<le> length l \<Longrightarrow> length l - s < n \<Longrightarrow> cmd_ok l cmd \<Longrightarrow> parsed l s (cmd_ok l) (backs n l cmd s)"
proof (induction n arbitrary: s cmd)
  case (Suc n)
  show ?case unfolding backs.simps
  proof (rule parsed_next(1))
    fix u assume "s < u" "u \<le> length l"
    then show "parsed l s (cmd_ok l) (backs n l (BackCmd cmd) u)" using Suc by (intro parsed_mono [OF Suc.IH, of u]) auto
  qed (use Suc.prems in auto)
qed simp

lemma parseline_step:
  assumes s: "s \<le> length l" and P: "parsed l s (cmd_ok l) (parsepipe n l s)"
    and L: "\<And>u. s < u \<Longrightarrow> u \<le> length l \<Longrightarrow> parsed l u (cmd_ok l) (parseline n l u)"
  shows "parsed l s (cmd_ok l) (parseline (Suc n) l s)"
  unfolding parseline.simps
proof (rule parsed_bnd [OF P], unfold prod.case, rule parsed_bnd [where P = "cmd_ok l"], goal_cases)
  case (1 c t)
  show ?case by (rule parsed_mono [OF backs_ok]) (use 1 in auto)
next
  case (2 c t c' t')
  show ?case unfolding prod.case
  proof (rule parsed_next(1) [OF 2(5,6)])
    fix u assume u: "t' < u" "u \<le> length l"
    have "parsed l s (cmd_ok l) (parseline n l u)" by (rule parsed_mono [OF L]) (use u 2(5) in auto)
    then show "parsed l s (cmd_ok l) (bnd (parseline n l u) (\<lambda>(right, s). Inr (ListCmd c' right, s)))"
      by (rule parsed_bnd) (use 2(4) in simp)
  qed (use 2 in auto)
qed

lemma parsepipe_step:
  assumes E: "parsed l s (cmd_ok l) (parseexec n l s)"
    and P: "\<And>u. s < u \<Longrightarrow> u \<le> length l \<Longrightarrow> parsed l u (cmd_ok l) (parsepipe n l u)"
  shows "parsed l s (cmd_ok l) (parsepipe (Suc n) l s)"
  unfolding parsepipe.simps
proof (rule parsed_bnd [OF E], unfold prod.case, rule parsed_next(1), assumption, assumption)
  fix c t u assume c: "cmd_ok l c" "s \<le> t" and u: "t < u" "u \<le> length l"
  have "parsed l s (cmd_ok l) (parsepipe n l u)" by (rule parsed_mono [OF P]) (use u c in auto)
  then show "parsed l s (cmd_ok l) (bnd (parsepipe n l u) (\<lambda>(right, s). Inr (PipeCmd c right, s)))"
    by (rule parsed_bnd) (use c in simp)
qed auto

lemma redirs_step:
  assumes "0 \<notin> set l" "cmd_ok l c" "s \<le> t" "t \<le> length l"
  shows "parsed l s (cmd_ok l) (bnd (parseredirs l t) (\<lambda>(rs, s). Inr (redirs c rs, s)))"
  by (rule parsed_bnd [OF parsed_mono [OF parseredirs_ok [OF assms(1,4)] assms(3)]]) (use assms(2) redirs_ok in auto)

lemma parseexec_step:
  assumes z: "0 \<notin> set l" and s: "s \<le> length l" and B: "\<And>u. s \<le> u \<Longrightarrow> u \<le> length l \<Longrightarrow> parsed l u (cmd_ok l) (parseblock n l u)"
  shows "parsed l s (cmd_ok l) (parseexec (Suc n) l s)"
proof -
  obtain b u where pk: "peek l s ''('' = (b, u)" by (cases "peek l s ''(''")
  have le: "s \<le> u" "u \<le> length l" using peek_le [OF s pk] by auto
  have a: "parsed l s (cmd_ok l) (bnd (parseargs l t [] rs) (\<lambda>(argv, rs, s). Inr (redirs (ExecCmd argv) rs, s)))"
    if "list_all (redir_ok l) rs" "s \<le> t" "t \<le> length l" for rs t
    using parseargs_ok [OF z that(3), of "[]" rs] that redirs_ok by (cases "parseargs l t [] rs") (auto simp: parsed_def)
  have "parsed l s (list_all (redir_ok l)) (parseredirs l u)" by (rule parsed_mono [OF parseredirs_ok [OF z le(2)] le(1)])
  then have "parsed l s (cmd_ok l) (bnd (parseredirs l u) (\<lambda>(rs, s).
      bnd (parseargs l s [] rs) (\<lambda>(argv, rs, s). Inr (redirs (ExecCmd argv) rs, s))))" by (rule parsed_bnd) (use a in simp)
  moreover have "parsed l s (cmd_ok l) (parseblock n l u)" by (rule parsed_mono [OF B]) (use le in auto)
  ultimately show ?thesis using pk by simp
qed

lemma parseblock_step:
  assumes z: "0 \<notin> set l" and s: "s \<le> length l" and L: "\<And>u. s < u \<Longrightarrow> u \<le> length l \<Longrightarrow> parsed l u (cmd_ok l) (parseline n l u)"
  shows "parsed l s (cmd_ok l) (parseblock (Suc n) l s)"
  unfolding parseblock.simps
proof (rule parsed_next(2) [OF order_refl s])
  fix u assume u: "s < u" "u \<le> length l"
  have "parsed l s (cmd_ok l) (parseline n l u)" by (rule parsed_mono [OF L]) (use u in auto)
  then show "parsed l s (cmd_ok l) (bnd (parseline n l u) (\<lambda>(cmd, s). case peek l s '')'' of (b, s) \<Rightarrow>
      if \<not> b then Inl (Panic ''syntax - missing )'')
      else case gettoken l s of (_, _, _, s) \<Rightarrow> bnd (parseredirs l s) (\<lambda>(rs, s). Inr (redirs cmd rs, s))))"
  proof (rule parsed_bnd, unfold prod.case, goal_cases)
    case (1 c t)
    show ?case by (rule parsed_next(2) [OF 1(2,3)]) (use 1 z in \<open>auto intro: redirs_step\<close>)
  qed
qed simp

lemma parse_ok:
  assumes z: "0 \<notin> set l"
  shows "\<forall>s\<le>length l.
      (4 * (length l - s) + 4 \<le> n \<longrightarrow> parsed l s (cmd_ok l) (parseline n l s))
    \<and> (4 * (length l - s) + 3 \<le> n \<longrightarrow> parsed l s (cmd_ok l) (parsepipe n l s))
    \<and> (4 * (length l - s) + 2 \<le> n \<longrightarrow> parsed l s (cmd_ok l) (parseexec n l s))
    \<and> (4 * (length l - s) + 1 \<le> n \<longrightarrow> parsed l s (cmd_ok l) (parseblock n l s))"
proof (induction n)
  case (Suc n)
  then show ?case
    by (intro allI impI conjI; intro parseline_step parsepipe_step parseexec_step [OF z] parseblock_step [OF z]; simp)
qed simp

text \<open>The string at position \<open>q\<close> of the memory of the line.\<close>

definition str_at :: "uchar list \<Rightarrow> nat \<Rightarrow> uchar list" where
  "str_at l q = takeWhile (\<lambda>c. c \<noteq> 0) (drop q l)"

fun toks :: "cmd \<Rightarrow> (nat \<times> nat) list" where
  "toks (ExecCmd argv) = argv"
| "toks (RedirCmd cmd f mode fd) = f # toks cmd"
| "toks (PipeCmd left right) = toks left @ toks right"
| "toks (ListCmd left right) = toks left @ toks right"
| "toks (BackCmd cmd) = toks cmd"

lemma cmd_ok_toks: "cmd_ok l c \<Longrightarrow> t \<in> set (toks c) \<Longrightarrow> tok_ok l t"
  by (induction c) (auto simp: list_all_iff)

lemma nulterminate_toks: "set (nulterminate c) = snd ` set (toks c)"
  by (induction c) auto

lemma fold_nul_nth:
  "e \<notin> set es \<Longrightarrow> fold (\<lambda>e l. l[e := 0]) es l ! e = l ! e" "length (fold (\<lambda>e l. l[e := 0]) es l) = length l"
  by (induction es arbitrary: l) auto

lemma fold_nul_zero: "e \<in> set es \<Longrightarrow> e < length l \<Longrightarrow> fold (\<lambda>e l. l[e := (0 :: uchar)]) es l ! e = 0"
proof (induction es arbitrary: l)
  case (Cons a es)
  then show ?case using fold_nul_nth(1) [of e es "l[e := 0]"] by (cases "e \<in> set es") auto
qed simp

lemma str_at_sub:
  assumes "q < e" "e < length l" "\<And>i. q \<le> i \<Longrightarrow> i < e \<Longrightarrow> l ! i \<noteq> 0" "l ! e = 0"
  shows "str_at l q = take (e - q) (drop q l)"
  unfolding str_at_def by (rule takeWhile_eq_take_P_nth) (use assms in auto)

lemma nulterminated_str:
  assumes z: "0 \<notin> set l" and c: "cmd_ok l c" and t: "(q, e) \<in> set (toks c)"
  shows "str_at (fold (\<lambda>e l. l[e := 0]) (nulterminate c) (l @ [0])) q = take (e - q) (drop q l)"
proof -
  let ?l = "fold (\<lambda>e l. l[e := 0]) (nulterminate c) (l @ [0])"
  have ok: "tok_ok l (q, e)" by (rule cmd_ok_toks [OF c t])
  have keep: "?l ! i = l ! i" if i: "q \<le> i" "i < e" for i
  proof -
    have "i \<noteq> e'" if "(q', e') \<in> set (toks c)" for q' e'
      using cmd_ok_toks [OF c that] ok i by (auto simp: tok_ok_def)
    then have "i \<notin> set (nulterminate c)" by (fastforce simp: nulterminate_toks)
    then show ?thesis using fold_nul_nth(1) [of i "nulterminate c" "l @ [0]"] ok i by (auto simp: tok_ok_def nth_append)
  qed
  have le: "q < e" "e \<le> length l" using ok by (auto simp: tok_ok_def)
  have "e \<in> set (nulterminate c)" using t by (force simp: nulterminate_toks)
  then have "?l ! e = 0" using fold_nul_zero le by simp
  moreover have "?l ! i \<noteq> 0" if "q \<le> i" "i < e" for i using keep [OF that] z that le nth_mem [of i l] by fastforce
  ultimately have "str_at ?l q = take (e - q) (drop q ?l)" using le by (intro str_at_sub) (auto simp: fold_nul_nth(2))
  also have "\<dots> = take (e - q) (drop q l)"
    by (rule nth_equalityI) (use keep le in \<open>auto simp: fold_nul_nth(2)\<close>)
  finally show ?thesis .
qed

lemma parsecmd_cases:
  assumes "0 \<notin> set l"
  obtains m where "parsecmd l = Inl (Panic m)"
  | c where "parsecmd l = Inr (c, fold (\<lambda>e l. l[e := 0]) (nulterminate c) (l @ [0]))" "cmd_ok l c"
proof -
  have "parsed l 0 (cmd_ok l) (parseline (4 * length l + 4) l 0)" using parse_ok [OF assms, of "4 * length l + 4"] by simp
  then consider m where "parseline (4 * length l + 4) l 0 = Inl (Panic m)"
    | c t where "parseline (4 * length l + 4) l 0 = Inr (c, t)" "cmd_ok l c"
    by (cases "parseline (4 * length l + 4) l 0") (auto simp: parsed_def)
  then show ?thesis
  proof cases
    case 1
    then show ?thesis using that(1) by (simp add: parsecmd_def)
  next
    case 2
    then show ?thesis using that by (cases "peek l t []"; cases "snd (peek l t []) = length l") (auto simp: parsecmd_def)
  qed
qed

text \<open>
  C13. The parser of the shell terminates on every line: the recursive descent through \<open>parseline\<close>, \<open>parsepipe\<close>,
  \<open>parseexec\<close> and \<open>parseblock\<close> is never deeper than four times the length of the line plus four, all its loops end,
  and \<open>parsecmd\<close> returns a command or panics.
\<close>

theorem parsecmd_terminates:
  assumes "0 \<notin> set l"
  shows "(\<exists>c l'. parsecmd l = Inr (c, l')) \<or> (\<exists>m. parsecmd l = Inl (Panic m))"
  using parsecmd_cases [OF assms] by metis

theorem parsecmd_terminates_witness:
  "(\<exists>c l'. parsecmd (cstr ''echo (a|b'') = Inr (c, l')) \<or> (\<exists>m. parsecmd (cstr ''echo (a|b'') = Inl (Panic m))"
  by (rule parsecmd_terminates) (simp add: cstr_def chr_def)

text \<open>
  C8. The commands that the parser returns are well formed: an \<open>execcmd\<close> has fewer than \<open>MAXARGS\<close> arguments, so that the
  terminating null pointer fits; every redirection has one of the three combinations of mode and descriptor; every argument
  and file name is a nonempty run of bytes of the line without blanks and symbols; and after \<open>nulterminate\<close>
  each of these pointers is a C string that holds exactly that run.
\<close>

theorem parsecmd_well_formed:
  assumes "0 \<notin> set l" and "parsecmd l = Inr (c, l')"
  shows "cmd_ok l c \<and> length l' = length l + 1 \<and> (\<forall>(q, e)\<in>set (toks c). str_at l' q = take (e - q) (drop q l))"
proof -
  have "cmd_ok l c" "l' = fold (\<lambda>e l. l[e := 0]) (nulterminate c) (l @ [0])" using parsecmd_cases [OF assms(1)] assms(2) by auto
  then show ?thesis using nulterminated_str [OF assms(1)] by (auto simp: fold_nul_nth(2))
qed

lemma demo_parse: "parsecmd [97, 62, 98] = Inr (RedirCmd (ExecCmd [(0, 1)]) (2, 3) 0x601 1, [97, 0, 98, 0])"
  by code_simp

theorem parsecmd_well_formed_witness:
  "\<exists>c l'. parsecmd [97, 62, 98] = Inr (c, l') \<and> cmd_ok [97, 62, 98] c \<and> str_at l' 2 = [98]"
  using parsecmd_well_formed [OF _ demo_parse] demo_parse by auto

end
