(* ===== verification/Sh_Run.thy ===== *)
theory Sh_Run
  imports Sh
begin

text \<open>
  Running commands, \<open>runcmd\<close>, \<open>getcmd\<close> and \<open>main\<close> of \<open>user/sh.c\<close>. A process is the list of the system calls it makes, with the
  list of the child at every \<open>fork\<close>. The results of the calls are the record \<open>shenv\<close>; a call of \<open>exec\<close> that succeeds
  ends the list, as does \<open>exit\<close>.
\<close>

section \<open>System calls\<close>

datatype act =
    AExit int | AExec "uchar list" "uchar list list" | AClose int | AOpen "uchar list" int | AFork "act list" | AForkFailed
  | AWait | APipe | ADup int | AChdir "uchar list" | AMessage string "uchar list"

record shenv =
  e_exec :: "uchar list \<Rightarrow> bool"
  e_open :: "uchar list \<Rightarrow> int \<Rightarrow> int"
  e_fork :: int
  e_pipe :: "int \<times> int \<times> int"
  e_chdir :: "uchar list \<Rightarrow> int"

definition shpanic :: "string \<Rightarrow> act list" where
  "shpanic msg = [AMessage msg [], AExit 1]"

text \<open>\<open>fork1\<close>: the child runs \<open>kid\<close>, the parent goes on with \<open>rest\<close>.\<close>

definition fork1 :: "shenv \<Rightarrow> act list \<Rightarrow> act list \<Rightarrow> act list" where
  "fork1 e kid rest = (if e_fork e = -1 then AForkFailed # shpanic ''fork'' else AFork kid # rest)"

section \<open>Commands\<close>

fun runcmd :: "shenv \<Rightarrow> uchar list \<Rightarrow> cmd \<Rightarrow> act list" where
  "runcmd e l (ExecCmd argv) =
     (if argv = [] then [AExit 1]
      else let path = str_at l (fst (hd argv))
           in AExec path (map (\<lambda>t. str_at l (fst t)) argv) # (if e_exec e path then [] else [AMessage ''exec failed'' path, AExit 0]))"
| "runcmd e l (RedirCmd cmd f mode fd) =
     AClose fd # AOpen (str_at l (fst f)) mode #
       (if e_open e (str_at l (fst f)) mode < 0 then [AMessage ''open failed'' (str_at l (fst f)), AExit 1] else runcmd e l cmd)"
| "runcmd e l (ListCmd left right) = fork1 e (runcmd e l left) (AWait # runcmd e l right)"
| "runcmd e l (PipeCmd left right) =
     APipe # (case e_pipe e of (r, p0, p1) \<Rightarrow>
       if r < 0 then shpanic ''pipe''
       else fork1 e ([AClose 1, ADup p1, AClose p0, AClose p1] @ runcmd e l left)
           (fork1 e ([AClose 0, ADup p0, AClose p0, AClose p1] @ runcmd e l right)
             [AClose p0, AClose p1, AWait, AWait, AExit 0]))"
| "runcmd e l (BackCmd cmd) = fork1 e (runcmd e l cmd) [AExit 0]"

section \<open>The main loop\<close>

text \<open>\<open>getcmd\<close>: the line, or nothing at the end of the input.\<close>

definition getcmd :: "(nat \<Rightarrow> int) \<Rightarrow> nat \<Rightarrow> int \<Rightarrow> uchar list \<Rightarrow> uchar list option \<times> uchar list \<times> nat" where
  "getcmd ks k nbuf inp = (case gets ks k nbuf inp of (buf, rest, k) \<Rightarrow> (if at buf 0 = 0 then None else Some buf, rest, k))"

lemma getcmd_rest: "getcmd ks k nbuf inp = (Some buf, rest, k') \<Longrightarrow> length rest < length inp"
proof -
  assume a: "getcmd ks k nbuf inp = (Some buf, rest, k')"
  obtain r t k2 where g: "gets ks k nbuf inp = (r, t, k2)" by (metis prod_cases3)
  then have "r = buf" "t = rest" "at buf 0 \<noteq> 0" using a by (auto simp: getcmd_def split: if_splits)
  then show ?thesis using gets_loop_rest [of ks k 0 nbuf inp r t k2] g at_end [of buf 0] by (cases buf) (simp_all add: gets_def)
qed

text \<open>The descriptors that \<open>open("console")\<close> returns one after the other; the last one is closed.\<close>

fun open_console :: "int list \<Rightarrow> act list" where
  "open_console [] = []"
| "open_console (fd # fds) = AOpen (cstr ''console'') 2 # (if fd \<ge> 3 then [AClose fd] else if fd < 0 then [] else open_console fds)"

definition run_line :: "shenv \<Rightarrow> uchar list \<Rightarrow> act list" where
  "run_line e buf =
     (let buf = takeWhile (\<lambda>c. c \<noteq> 0) buf
      in if at buf 0 = chr CHR ''c'' \<and> at buf 1 = chr CHR ''d'' \<and> at buf 2 = 32
         then let dir = drop 3 (butlast buf) in AChdir dir # (if e_chdir e dir < 0 then [AMessage ''cannot cd'' dir] else [])
         else fork1 e (case parsecmd buf of Inl (Panic m) \<Rightarrow> shpanic m | Inl _ \<Rightarrow> [] | Inr (cmd, l) \<Rightarrow> runcmd e l cmd) [AWait])"

text \<open>The loop of \<open>main\<close>; it ends at the end of the input or when \<open>fork1\<close> has panicked.\<close>

function sh_loop :: "shenv \<Rightarrow> (nat \<Rightarrow> int) \<Rightarrow> nat \<Rightarrow> uchar list \<Rightarrow> act list" where
  "sh_loop e ks k inp =
     (case getcmd ks k 100 inp of (line, rest, k) \<Rightarrow>
        (case line of None \<Rightarrow> [AExit 0]
         | Some buf \<Rightarrow> let acts = run_line e buf in if last acts = AExit 1 then acts else acts @ sh_loop e ks k rest))"
  by pat_completeness auto
termination
  by (relation "measure (\<lambda>(e, ks, k, inp). length inp)") (auto dest: getcmd_rest [OF sym])

definition sh_main :: "shenv \<Rightarrow> int list \<Rightarrow> (nat \<Rightarrow> int) \<Rightarrow> uchar list \<Rightarrow> act list" where
  "sh_main e fds ks inp = open_console fds @ sh_loop e ks 0 inp"

section \<open>No command returns\<close>

text \<open>A process ends with \<open>exit\<close> or with a call of \<open>exec\<close>, and does nothing after it; the same holds for all its children.\<close>

fun ends :: "act list \<Rightarrow> bool" where
  "ends [] = False"
| "ends [a] = (case a of AExit _ \<Rightarrow> True | AExec _ _ \<Rightarrow> True | _ \<Rightarrow> False)"
| "ends (a # as) = ((case a of AExit _ \<Rightarrow> False | AFork kid \<Rightarrow> ends kid | _ \<Rightarrow> True) \<and> ends as)"

lemma ends_Cons: "ends as \<Longrightarrow> ends (a # as) = (case a of AExit _ \<Rightarrow> False | AFork kid \<Rightarrow> ends kid | _ \<Rightarrow> True)"
  by (cases as) auto

lemma runcmd_ends: "ends (runcmd e l cmd)"
  by (induction cmd) (auto simp: ends_Cons fork1_def shpanic_def Let_def split: prod.split)

end
