(* ===== verification/Sleep_Smp.thy ===== *)
theory Sleep_Smp
  imports Proc
begin

text \<open>
  The sleep/wakeup protocol of \<open>kernel/proc.c\<close>, interleaved. Any number of kernel threads share a
  condition protected by a lock \<open>lk\<close>: a thread that finds it false calls \<open>sleep(chan, lk)\<close>, one that
  establishes it calls \<open>wakeup(chan)\<close> while holding \<open>lk\<close>. Each lock operation and each change of a
  process state is a step. The theorem is that no wakeup is lost.
\<close>

section \<open>Threads and steps\<close>

datatype wpc =
    Outside
  | Holding         \<comment> \<open>holds \<open>lk\<close>: may test or change the condition\<close>
  | Entering        \<comment> \<open>in \<open>sleep\<close>, holds \<open>lk\<close> and its own \<open>p->lock\<close>\<close>
  | Dropped         \<comment> \<open>in \<open>sleep\<close>, has released \<open>lk\<close>, holds \<open>p->lock\<close>\<close>
  | Switching       \<comment> \<open>\<open>p->state\<close> is \<open>SLEEPING\<close>, the scheduler has not yet released \<open>p->lock\<close>\<close>
  | Asleep
  | Resumed         \<comment> \<open>scheduled again, about to reacquire \<open>lk\<close>\<close>
  | Scanning nat    \<comment> \<open>in \<open>wakeup\<close>, next slot of the table\<close>
  | Inspecting nat  \<comment> \<open>in \<open>wakeup\<close>, holds \<open>p->lock\<close> of that slot\<close>

record wstate =
  wcond :: bool
  wlk :: "nat option"
  wplock :: "nat \<Rightarrow> nat option"
  wsleeping :: "nat \<Rightarrow> bool"
  wpcs :: "nat \<Rightarrow> wpc"

definition at :: "nat \<Rightarrow> wpc \<Rightarrow> wstate \<Rightarrow> wstate" where
  "at p x s = s\<lparr>wpcs := (wpcs s)(p := x)\<rparr>"

inductive wstep :: "wstate \<Rightarrow> wstate \<Rightarrow> bool" where
  w_lock: "wpcs s p = Outside \<Longrightarrow> wlk s = None \<Longrightarrow> wstep s (at p Holding (s\<lparr>wlk := Some p\<rparr>))"
| w_unlock: "wpcs s p = Holding \<Longrightarrow> wstep s (at p Outside (s\<lparr>wlk := None\<rparr>))"
| w_set: "wpcs s p = Holding \<Longrightarrow> wstep s (at p (Scanning 0) (s\<lparr>wcond := True\<rparr>))"
| w_clear: "wpcs s p = Holding \<Longrightarrow> wstep s (s\<lparr>wcond := False\<rparr>)"
| s_acquire: "wpcs s p = Holding \<Longrightarrow> \<not> wcond s \<Longrightarrow> wplock s p = None \<Longrightarrow>
    wstep s (at p Entering (s\<lparr>wplock := (wplock s)(p := Some p)\<rparr>))"
| s_release: "wpcs s p = Entering \<Longrightarrow> wstep s (at p Dropped (s\<lparr>wlk := None\<rparr>))"
| s_state: "wpcs s p = Dropped \<Longrightarrow> wstep s (at p Switching (s\<lparr>wsleeping := (wsleeping s)(p := True)\<rparr>))"
| s_switch: "wpcs s p = Switching \<Longrightarrow> wstep s (at p Asleep (s\<lparr>wplock := (wplock s)(p := None)\<rparr>))"
| s_resume: "wpcs s p = Asleep \<Longrightarrow> \<not> wsleeping s p \<Longrightarrow> wplock s p = None \<Longrightarrow> wstep s (at p Resumed s)"
| s_relock: "wpcs s p = Resumed \<Longrightarrow> wlk s = None \<Longrightarrow> wstep s (at p Holding (s\<lparr>wlk := Some p\<rparr>))"
| k_self: "wpcs s p = Scanning p \<Longrightarrow> p < NPROC \<Longrightarrow> wstep s (at p (Scanning (Suc p)) s)"
| k_acquire: "wpcs s p = Scanning i \<Longrightarrow> i < NPROC \<Longrightarrow> i \<noteq> p \<Longrightarrow> wplock s i = None \<Longrightarrow>
    wstep s (at p (Inspecting i) (s\<lparr>wplock := (wplock s)(i := Some p)\<rparr>))"
| k_release: "wpcs s p = Inspecting i \<Longrightarrow>
    wstep s (at p (Scanning (Suc i)) (s\<lparr>wsleeping := (wsleeping s)(i := False), wplock := (wplock s)(i := None)\<rparr>))"
| k_kill: "wplock s i = None \<Longrightarrow> wstep s (s\<lparr>wsleeping := (wsleeping s)(i := False)\<rparr>)"
| k_done: "wpcs s p = Scanning NPROC \<Longrightarrow> wstep s (at p Holding s)"

definition winit :: "wstate \<Rightarrow> bool" where
  "winit s \<longleftrightarrow> wlk s = None \<and> (\<forall>p. wplock s p = None \<and> \<not> wsleeping s p \<and> wpcs s p = Outside)"

declare NPROC_def [simp del]

section \<open>The invariant\<close>

fun has_lk :: "wpc \<Rightarrow> bool" where
  "has_lk Holding = True"
| "has_lk Entering = True"
| "has_lk (Scanning i) = True"
| "has_lk (Inspecting i) = True"
| "has_lk _ = False"

fun has_own :: "wpc \<Rightarrow> bool" where
  "has_own Entering = True"
| "has_own Dropped = True"
| "has_own Switching = True"
| "has_own _ = False"

text \<open>The wakeup in progress, if any, will still reach slot \<open>p\<close>.\<close>

fun will_visit :: "nat \<Rightarrow> wpc \<Rightarrow> bool" where
  "will_visit p (Scanning i) = (i \<le> p)"
| "will_visit p (Inspecting i) = (i \<le> p)"
| "will_visit p _ = False"

definition committed :: "wstate \<Rightarrow> nat \<Rightarrow> bool" where
  "committed s p \<longleftrightarrow> wpcs s p = Dropped \<or> wpcs s p = Switching \<or> wpcs s p = Asleep \<and> wsleeping s p"

definition winv :: "wstate \<Rightarrow> bool" where
  "winv s \<longleftrightarrow> (\<forall>p. has_lk (wpcs s p) \<longleftrightarrow> wlk s = Some p)
     \<and> (\<forall>p. has_own (wpcs s p) \<longrightarrow> wplock s p = Some p)
     \<and> (\<forall>p i. wpcs s p = Inspecting i \<longrightarrow> wplock s i = Some p \<and> i \<noteq> p)
     \<and> (\<forall>p. wpcs s p = Entering \<longrightarrow> \<not> wcond s)
     \<and> (\<forall>p. wsleeping s p \<longrightarrow> wpcs s p = Switching \<or> wpcs s p = Asleep)
     \<and> (\<forall>p<NPROC. committed s p \<longrightarrow> wcond s \<longrightarrow> (\<exists>w. wlk s = Some w \<and> will_visit p (wpcs s w)))"

lemma winv_init: "winit s \<Longrightarrow> winv s"
  by (simp add: winit_def winv_def committed_def)

lemma winvD:
  assumes "winv s"
  shows "has_lk (wpcs s p) \<longleftrightarrow> wlk s = Some p" "has_own (wpcs s p) \<Longrightarrow> wplock s p = Some p"
    "wpcs s p = Inspecting i \<Longrightarrow> wplock s i = Some p \<and> i \<noteq> p" "wpcs s p = Entering \<Longrightarrow> \<not> wcond s"
    "wsleeping s p \<Longrightarrow> wpcs s p = Switching \<or> wpcs s p = Asleep"
    "p < NPROC \<Longrightarrow> committed s p \<Longrightarrow> wcond s \<Longrightarrow> \<exists>w. wlk s = Some w \<and> will_visit p (wpcs s w)"
  using assms unfolding winv_def by blast+

lemma winv_lk:
  assumes "winv s"
  shows "wpcs s p = Entering \<Longrightarrow> wlk s = Some p" "wpcs s p = Inspecting i \<Longrightarrow> wlk s = Some p"
    "wpcs s p = Scanning i \<Longrightarrow> wlk s = Some p" "wpcs s p = Holding \<Longrightarrow> wlk s = Some p"
    "wlk s = Some p \<Longrightarrow> has_lk (wpcs s p)"
    "wpcs s p = Entering \<Longrightarrow> wplock s p = Some p" "wpcs s p = Dropped \<Longrightarrow> wplock s p = Some p"
    "wpcs s p = Switching \<Longrightarrow> wplock s p = Some p"
  using winvD(1,2) [OF assms, of p] by auto

lemma winv_visit:
  assumes "winv s" "q < NPROC" "committed s q" "wcond s" "\<not> has_lk (wpcs s p)"
  shows "\<exists>w. w \<noteq> p \<and> wlk s = Some w \<and> will_visit q (wpcs s w)"
  using winvD(1) [OF assms(1), of p] winvD(6) [OF assms(1-4)] assms(5) by metis

lemma winv_holder:
  assumes "winv s" "q < NPROC" "committed s q" "wcond s" "wlk s = Some p"
  shows "will_visit q (wpcs s p)"
  using winvD(6) [OF assms(1-4)] assms(5) by simp

lemma winvI:
  assumes "\<And>p. has_lk (wpcs s p) \<longleftrightarrow> wlk s = Some p" "\<And>p. has_own (wpcs s p) \<Longrightarrow> wplock s p = Some p"
    "\<And>p i. wpcs s p = Inspecting i \<Longrightarrow> wplock s i = Some p \<and> i \<noteq> p" "\<And>p. wpcs s p = Entering \<Longrightarrow> \<not> wcond s"
    "\<And>p. wsleeping s p \<Longrightarrow> wpcs s p = Switching \<or> wpcs s p = Asleep"
    "\<And>p. p < NPROC \<Longrightarrow> committed s p \<Longrightarrow> wcond s \<Longrightarrow> \<exists>w. wlk s = Some w \<and> will_visit p (wpcs s w)"
  shows "winv s"
  using assms unfolding winv_def by blast

lemma at_simps [simp]:
  "wcond (at p x s) = wcond s" "wlk (at p x s) = wlk s" "wplock (at p x s) = wplock s"
  "wsleeping (at p x s) = wsleeping s" "wpcs (at p x s) q = (if q = p then x else wpcs s q)"
  by (simp_all add: at_def)

lemma committed_simps [simp]:
  "committed (at p x s) q \<longleftrightarrow> (if q = p then x = Dropped \<or> x = Switching \<or> x = Asleep \<and> wsleeping s p else committed s q)"
  "committed (s\<lparr>wlk := l\<rparr>) q \<longleftrightarrow> committed s q" "committed (s\<lparr>wcond := b\<rparr>) q \<longleftrightarrow> committed s q"
  "committed (s\<lparr>wplock := f\<rparr>) q \<longleftrightarrow> committed s q"
  "committed (s\<lparr>wsleeping := (wsleeping s)(r := False)\<rparr>) q \<longleftrightarrow>
     committed s q \<and> (q = r \<longrightarrow> wpcs s q = Dropped \<or> wpcs s q = Switching)"
  "q \<noteq> r \<Longrightarrow> committed (s\<lparr>wsleeping := (wsleeping s)(r := b)\<rparr>) q \<longleftrightarrow> committed s q"
  by (auto simp: committed_def)

lemma winv_step: "wstep s t \<Longrightarrow> winv s \<Longrightarrow> winv t"
proof (induction rule: wstep.induct)
  case (w_lock s p)
  note I = winvD [OF w_lock(3)] and L = winv_lk [OF w_lock(3)]
  show ?case by (rule winvI) (use w_lock(1,2) I(1) in \<open>auto split: if_splits dest: L I(2-6)\<close>)
next
  case (w_unlock s p)
  note I = winvD [OF w_unlock(2)] and L = winv_lk [OF w_unlock(2)]
  have "wlk s = Some p" using I(1) [of p] w_unlock(1) by simp
  then show ?case by (intro winvI) (use w_unlock(1) I(1) in \<open>auto split: if_splits dest: L I(2-6)\<close>)
next
  case (w_set s p)
  note I = winvD [OF w_set(2)] and L = winv_lk [OF w_set(2)]
  have "wlk s = Some p" using I(1) [of p] w_set(1) by simp
  then show ?case by (intro winvI) (use w_set(1) I(1) in \<open>auto split: if_splits dest: L I(2-6)\<close>)
next
  case (w_clear s p)
  note I = winvD [OF w_clear(2)] and L = winv_lk [OF w_clear(2)]
  show ?case by (rule winvI) (use I(1) in \<open>auto dest: L I(2-5)\<close>)
next
  case (s_acquire s p)
  note I = winvD [OF s_acquire(4)] and L = winv_lk [OF s_acquire(4)]
  show ?case by (rule winvI) (use s_acquire(1-3) I(1) in \<open>auto split: if_splits dest: L I(2-6)\<close>)
next
  case (s_release s p)
  note I = winvD [OF s_release(2)] and L = winv_lk [OF s_release(2)]
  have "wlk s = Some p" using I(1) [of p] s_release(1) by simp
  then show ?case by (intro winvI) (use s_release(1) I(1) I(4) [of p] in \<open>auto split: if_splits dest: L I(2-6)\<close>)
next
  case (s_state s p)
  note I = winvD [OF s_state(2)] and L = winv_lk [OF s_state(2)]
  show ?case
  proof (rule winvI, goal_cases)
    case (6 q)
    have "committed s q" using 6(2) s_state(1) by (auto simp: committed_def split: if_splits)
    then obtain w where "w \<noteq> p" "wlk s = Some w" "will_visit q (wpcs s w)"
      using winv_visit [OF s_state(2) 6(1), of p] 6(3) s_state(1) by auto
    then show ?case by auto
  qed (use s_state(1) I(1) in \<open>auto split: if_splits dest: L I(2-5)\<close>)
next
  case (s_switch s p)
  note I = winvD [OF s_switch(2)] and L = winv_lk [OF s_switch(2)]
  show ?case
  proof (rule winvI, goal_cases)
    case (6 q)
    have "committed s q" using 6(2) s_switch(1) by (auto simp: committed_def split: if_splits)
    then obtain w where "w \<noteq> p" "wlk s = Some w" "will_visit q (wpcs s w)"
      using winv_visit [OF s_switch(2) 6(1), of p] 6(3) s_switch(1) by auto
    then show ?case by auto
  qed (use s_switch(1) L(8) [OF s_switch(1)] I(1) in \<open>auto split: if_splits dest: L I(2-5)\<close>)
next
  case (s_resume s p)
  note I = winvD [OF s_resume(4)] and L = winv_lk [OF s_resume(4)]
  show ?case
  proof (rule winvI, goal_cases)
    case (6 q)
    have "committed s q" using 6(2) s_resume(1) by (auto simp: committed_def split: if_splits)
    then obtain w where "w \<noteq> p" "wlk s = Some w" "will_visit q (wpcs s w)"
      using winv_visit [OF s_resume(4) 6(1), of p] 6(3) s_resume(1) by auto
    then show ?case by auto
  qed (use s_resume(1-3) I(1) in \<open>auto split: if_splits dest: L I(2-5)\<close>)
next
  case (s_relock s p)
  note I = winvD [OF s_relock(3)] and L = winv_lk [OF s_relock(3)]
  show ?case by (rule winvI) (use s_relock(1-2) I(1) in \<open>auto split: if_splits dest: L I(2-6)\<close>)
next
  case (k_self s p)
  note I = winvD [OF k_self(3)] and L = winv_lk [OF k_self(3)]
  have l: "wlk s = Some p" using k_self(1) by (rule L(3))
  show ?case
  proof (rule winvI, goal_cases)
    case (6 q)
    have q: "committed s q" "q \<noteq> p" using 6(2) k_self(1) by (auto simp: committed_def split: if_splits)
    have "will_visit q (wpcs s p)" using winv_holder [OF k_self(3) 6(1) q(1) _ l] 6(3) by simp
    then show ?case using l q 6(1,2) k_self(1-2) by (auto simp: committed_def split: if_splits dest: L)
  qed (use k_self(1-2) l I(1) in \<open>auto split: if_splits dest: L I(2-5)\<close>)
next
  case (k_acquire s p i)
  note I = winvD [OF k_acquire(5)] and L = winv_lk [OF k_acquire(5)]
  have l: "wlk s = Some p" using k_acquire(1) by (rule L(3))
  show ?case
  proof (rule winvI, goal_cases)
    case (6 q)
    have q: "committed s q" "q \<noteq> p" using 6(2) k_acquire(1) by (auto simp: committed_def split: if_splits)
    have "will_visit q (wpcs s p)" using winv_holder [OF k_acquire(5) 6(1) q(1) _ l] 6(3) by simp
    then show ?case using l q 6(1,2) k_acquire(1-4) by (auto simp: committed_def split: if_splits dest: L)
  qed (use k_acquire(1-4) l I(1) in \<open>auto split: if_splits dest: L I(2-5)\<close>)
next
  case (k_release s p i)
  note I = winvD [OF k_release(2)] and L = winv_lk [OF k_release(2)]
  have l: "wlk s = Some p" using k_release(1) by (rule L(2))
  show ?case
  proof (rule winvI, goal_cases)
    case (6 q)
    have q: "committed s q" "q \<noteq> p" using 6(2) k_release(1) by (auto simp: committed_def split: if_splits)
    have "will_visit q (wpcs s p)" using winv_holder [OF k_release(2) 6(1) q(1) _ l] 6(3) by simp
    then show ?case using l q 6(1,2) k_release(1) I(3) [OF k_release(1)] by (auto simp: committed_def split: if_splits dest: L)
  next
    case (1 q)
    then show ?case using l I(1) [of q] I(1) [of p] k_release(1) by auto
  next
    case (2 q)
    then show ?case using I(2) [of q] I(3) [OF k_release(1)] by (auto split: if_splits)
  next
    case (3 q j)
    then have "wlk s = Some q" "q \<noteq> p" using L(2) [of q j] by (auto split: if_splits)
    then show ?case using l by simp
  next
    case (4 q)
    then show ?case using I(4) [of q] by (auto split: if_splits)
  next
    case (5 q)
    then show ?case using I(5) [of q] k_release(1) by (auto split: if_splits)
  qed
next
  case (k_kill s i)
  note I = winvD [OF k_kill(2)] and L = winv_lk [OF k_kill(2)]
  show ?case by (rule winvI) (use k_kill(1) I(1) in \<open>auto split: if_splits dest: L I(2-6)\<close>)
next
  case (k_done s p)
  note I = winvD [OF k_done(2)] and L = winv_lk [OF k_done(2)]
  have l: "wlk s = Some p" using k_done(1) by (rule L(3))
  show ?case
  proof (rule winvI, goal_cases)
    case (6 q)
    have q: "committed s q" "q \<noteq> p" using 6(2) k_done(1) by (auto simp: committed_def split: if_splits)
    have "will_visit q (wpcs s p)" using winv_holder [OF k_done(2) 6(1) q(1) _ l] 6(3) by simp
    then show ?case using l q 6(1,2) k_done(1) by (auto simp: committed_def split: if_splits dest: L)
  qed (use k_done(1) l I(1) in \<open>auto split: if_splits dest: L I(2-5)\<close>)
qed

interpretation sleepers: inv_system winit wstep winv
  by unfold_locales (blast intro: winv_init winv_step)+

section \<open>No wakeup is lost\<close>

text \<open>A run in which thread 0 goes to sleep and thread 1 then establishes the condition.\<close>

definition w0 :: wstate where
  "w0 = \<lparr>wcond = False, wlk = None, wplock = (\<lambda>_. None), wsleeping = (\<lambda>_. False), wpcs = (\<lambda>_. Outside)\<rparr>"

definition w_asleep :: wstate where
  "w_asleep = w0\<lparr>wsleeping := (\<lambda>_. False)(0 := True), wpcs := (\<lambda>_. Outside)(0 := Asleep)\<rparr>"

definition w_waking :: wstate where
  "w_waking = at 1 (Scanning 0) (w_asleep\<lparr>wlk := Some 1, wcond := True\<rparr>)"

lemma w_asleep_run: "wstep\<^sup>*\<^sup>* w0 w_asleep"
proof -
  let ?s1 = "at 0 Holding (w0\<lparr>wlk := Some 0\<rparr>)"
  let ?s2 = "at 0 Entering (?s1\<lparr>wplock := (wplock ?s1)(0 := Some 0)\<rparr>)"
  let ?s3 = "at 0 Dropped (?s2\<lparr>wlk := None\<rparr>)"
  let ?s4 = "at 0 Switching (?s3\<lparr>wsleeping := (wsleeping ?s3)(0 := True)\<rparr>)"
  let ?s5 = "at 0 Asleep (?s4\<lparr>wplock := (wplock ?s4)(0 := None)\<rparr>)"
  have "wstep w0 ?s1" by (rule w_lock) (simp_all add: w0_def)
  moreover have "wstep ?s1 ?s2" by (rule s_acquire) (simp_all add: w0_def at_def)
  moreover have "wstep ?s2 ?s3" by (rule s_release) (simp add: at_def)
  moreover have "wstep ?s3 ?s4" by (rule s_state) (simp add: at_def)
  moreover have "wstep ?s4 ?s5" by (rule s_switch) (simp add: at_def)
  moreover have "?s5 = w_asleep" by (simp add: w_asleep_def w0_def at_def fun_eq_iff)
  ultimately show ?thesis by (metis (no_types, lifting) rtranclp.simps)
qed

lemma w_waking_reach: "reach winit wstep w_waking"
proof -
  have r: "reach winit wstep t" if "wstep\<^sup>*\<^sup>* s t" "reach winit wstep s" for s t
    using that by (induction rule: rtranclp_induct) (auto intro: reach_step)
  have "winit w0" by (simp add: winit_def w0_def)
  then have a: "reach winit wstep w_asleep" using r [OF w_asleep_run] by (simp add: reach_init)
  let ?s1 = "at 1 Holding (w_asleep\<lparr>wlk := Some 1\<rparr>)"
  have 1: "wstep w_asleep ?s1" by (rule w_lock) (simp_all add: w_asleep_def w0_def)
  have 2: "wstep ?s1 (at 1 (Scanning 0) (?s1\<lparr>wcond := True\<rparr>))" by (rule w_set) simp
  have 3: "at 1 (Scanning 0) (?s1\<lparr>wcond := True\<rparr>) = w_waking" by (simp add: w_waking_def at_def)
  show ?thesis using reach_step [of winit wstep, OF reach_step [of winit wstep, OF a 1] 2] 3 by simp
qed

text \<open>
  C12. No wakeup is lost: in every interleaving, a process that is \<open>SLEEPING\<close> on the channel while
  the condition it waits for holds is still ahead of a running \<open>wakeup()\<close>, whose caller holds the
  condition's lock. In particular no process sleeps on while the condition holds and the lock is free.
\<close>

theorem no_lost_wakeup:
  assumes "reach winit wstep s" and "p < NPROC" and "wsleeping s p" and "wcond s"
  shows "\<exists>w. wlk s = Some w \<and> will_visit p (wpcs s w)"
proof -
  have inv: "winv s" using sleepers.inv_reach assms(1) by blast
  have "committed s p" using winvD(5) [OF inv assms(3)] assms(3) by (auto simp: committed_def)
  then show ?thesis using winvD(6) [OF inv assms(2)] assms(4) by simp
qed

theorem no_lost_wakeup_witness: "\<exists>w. wlk w_waking = Some w \<and> will_visit 0 (wpcs w_waking w)"
  by (rule no_lost_wakeup [OF w_waking_reach])
    (simp_all add: w_waking_def w_asleep_def w0_def NPROC_def)

end
