(* ===== verification/Spinlock_Smp.thy ===== *)
theory Spinlock_Smp
  imports Spinlock
begin

text \<open>
  The spinlock under true concurrency. Each hart runs \<open>acquire\<close> and \<open>release\<close> one memory access at
  a time, in any interleaving with the other harts. The program counter of a hart is the point of
  \<open>spinlock.c\<close> it has reached; \<open>sheld\<close> is the list of locks for which it has returned from
  \<open>acquire\<close> and not yet entered \<open>release\<close>.
\<close>

datatype spc =
    Running
  | Swapping lockid   \<comment> \<open>in the \<open>__sync_lock_test_and_set\<close> loop\<close>
  | Recording lockid  \<comment> \<open>swap won, \<open>lk->cpu\<close> not yet written\<close>
  | Clearing lockid   \<comment> \<open>\<open>lk->cpu\<close> cleared, \<open>__sync_lock_release\<close> not yet done\<close>
  | Popping           \<comment> \<open>lock released, \<open>pop_off()\<close> not yet done\<close>
  | Panicked

record smp =
  smach :: machine
  spcs :: "nat \<Rightarrow> spc"
  sheld :: "nat \<Rightarrow> lockid list"

definition goto :: "nat \<Rightarrow> spc \<Rightarrow> smp \<Rightarrow> smp" where
  "goto c p s = s\<lparr>spcs := (spcs s)(c := p)\<rparr>"

definition acq_start :: "nat \<Rightarrow> lockid \<Rightarrow> smp \<Rightarrow> smp" where
  "acq_start c l s =
     (let m = push_off c (smach s)
      in goto c (if holding c l m then Panicked else Swapping l) (s\<lparr>smach := m\<rparr>))"

definition acq_swap :: "nat \<Rightarrow> lockid \<Rightarrow> smp \<Rightarrow> smp" where
  "acq_swap c l s =
     (let m = smach s; old = locked (locks m l);
          s = s\<lparr>smach := set_lock l ((locks m l)\<lparr>locked := 1\<rparr>) m\<rparr>
      in if old \<noteq> 0 then s else goto c (Recording l) s)"

definition acq_record :: "nat \<Rightarrow> lockid \<Rightarrow> smp \<Rightarrow> smp" where
  "acq_record c l s =
     (let m = smach s
      in goto c Running
           (s\<lparr>smach := set_lock l ((locks m l)\<lparr>lcpu := Some c\<rparr>) m,
              sheld := (sheld s)(c := l # sheld s c)\<rparr>))"

definition rel_start :: "nat \<Rightarrow> lockid \<Rightarrow> smp \<Rightarrow> smp" where
  "rel_start c l s =
     (let m = smach s
      in if \<not> holding c l m then goto c Panicked s
         else goto c (Clearing l)
                (s\<lparr>smach := set_lock l ((locks m l)\<lparr>lcpu := None\<rparr>) m,
                   sheld := (sheld s)(c := remove1 l (sheld s c))\<rparr>))"

definition rel_clear :: "nat \<Rightarrow> lockid \<Rightarrow> smp \<Rightarrow> smp" where
  "rel_clear c l s =
     (let m = smach s
      in goto c Popping (s\<lparr>smach := set_lock l ((locks m l)\<lparr>locked := 0\<rparr>) m\<rparr>))"

definition rel_pop :: "nat \<Rightarrow> smp \<Rightarrow> smp" where
  "rel_pop c s =
     (case pop_off c (smach s) of
        Inl e \<Rightarrow> goto c Panicked s
      | Inr m \<Rightarrow> goto c Running (s\<lparr>smach := m\<rparr>))"

inductive smp_step :: "smp \<Rightarrow> smp \<Rightarrow> bool" where
  step_acquire: "spcs s c = Running \<Longrightarrow> smp_step s (acq_start c l s)"
| step_swap: "spcs s c = Swapping l \<Longrightarrow> smp_step s (acq_swap c l s)"
| step_record: "spcs s c = Recording l \<Longrightarrow> smp_step s (acq_record c l s)"
| step_release: "spcs s c = Running \<Longrightarrow> smp_step s (rel_start c l s)"
| step_clear: "spcs s c = Clearing l \<Longrightarrow> smp_step s (rel_clear c l s)"
| step_pop: "spcs s c = Popping \<Longrightarrow> smp_step s (rel_pop c s)"

definition smp_init :: "smp \<Rightarrow> bool" where
  "smp_init s \<longleftrightarrow> (\<forall>c. spcs s c = Running \<and> sheld s c = [] \<and> noff (cpus (smach s) c) = 0)
     \<and> (\<forall>l. lock_free l (smach s))"

section \<open>The invariant\<close>

definition owns :: "smp \<Rightarrow> nat \<Rightarrow> lockid \<Rightarrow> bool" where
  "owns s c l \<longleftrightarrow> l \<in> set (sheld s c) \<or> spcs s c = Recording l \<or> spcs s c = Clearing l"

fun depth :: "spc \<Rightarrow> int" where
  "depth Running = 0"
| "depth Panicked = 0"
| "depth _ = 1"

definition lock_inv :: "smp \<Rightarrow> lockid \<Rightarrow> bool" where
  "lock_inv s l \<longleftrightarrow>
     (locked (locks (smach s) l) \<noteq> 0 \<longleftrightarrow> (\<exists>c. owns s c l))
   \<and> (\<forall>c d. owns s c l \<longrightarrow> owns s d l \<longrightarrow> c = d)
   \<and> (\<forall>c. lcpu (locks (smach s) l) = Some c \<longleftrightarrow> l \<in> set (sheld s c))
   \<and> (\<forall>c. l \<in> set (sheld s c) \<longrightarrow> spcs s c \<noteq> Recording l \<and> spcs s c \<noteq> Clearing l)"

definition hart_inv :: "smp \<Rightarrow> nat \<Rightarrow> bool" where
  "hart_inv s c \<longleftrightarrow> distinct (sheld s c)
   \<and> (spcs s c \<noteq> Panicked \<longrightarrow>
        noff (cpus (smach s) c) = int (length (sheld s c)) + depth (spcs s c))
   \<and> (0 < noff (cpus (smach s) c) \<longrightarrow> \<not> intr_get (sstatus (smach s) c))"

definition smp_inv :: "smp \<Rightarrow> bool" where
  "smp_inv s \<longleftrightarrow> (\<forall>l. lock_inv s l) \<and> (\<forall>c. hart_inv s c)"

lemma smp_inv_init: "smp_init s \<Longrightarrow> smp_inv s"
  by (auto simp: smp_init_def smp_inv_def lock_inv_def hart_inv_def owns_def lock_free_def)

text \<open>Locks and harts that a step does not touch keep their part of the invariant.\<close>

lemma lock_inv_frame:
  assumes "lock_inv s l" and "locks (smach t) l = locks (smach s) l"
    and "\<And>c. l \<in> set (sheld t c) \<longleftrightarrow> l \<in> set (sheld s c)"
    and "\<And>c. spcs t c = Recording l \<longleftrightarrow> spcs s c = Recording l"
    and "\<And>c. spcs t c = Clearing l \<longleftrightarrow> spcs s c = Clearing l"
  shows "lock_inv t l"
proof -
  have "owns t c l \<longleftrightarrow> owns s c l" for c using assms by (simp add: owns_def)
  then show ?thesis using assms by (simp add: lock_inv_def)
qed

lemma hart_inv_frame:
  assumes "hart_inv s d" and "cpus (smach t) d = cpus (smach s) d"
    and "sstatus (smach t) d = sstatus (smach s) d"
    and "sheld t d = sheld s d" and "spcs t d = spcs s d"
  shows "hart_inv t d"
  using assms by (simp add: hart_inv_def)

lemma smp_invI:
  assumes "\<And>k. k \<noteq> l \<Longrightarrow> lock_inv s k" "lock_inv s l"
    and "\<And>d. d \<noteq> c \<Longrightarrow> hart_inv s d" "hart_inv s c"
  shows "smp_inv s"
  using assms by (metis smp_inv_def)

lemma smp_inv_acq_start:
  assumes "smp_inv s" "spcs s c = Running"
  shows "smp_inv (acq_start c l s)"
proof (rule smp_invI [where l = l and c = c])
  have L: "lock_inv s k" for k using assms by (simp add: smp_inv_def)
  have H: "hart_inv s d" for d using assms by (simp add: smp_inv_def)
  show "lock_inv (acq_start c l s) k" for k
    using assms(2) by (intro lock_inv_frame [OF L]) (simp_all add: acq_start_def Let_def goto_def)
  then show "lock_inv (acq_start c l s) l" .
  show "hart_inv (acq_start c l s) d" if "d \<noteq> c" for d
    using that by (intro hart_inv_frame [OF H])
      (simp_all add: acq_start_def Let_def goto_def push_off_other)
  show "hart_inv (acq_start c l s) c"
    using H [of c] assms(2) sstatus_push_off [of c "smach s"]
    by (simp add: hart_inv_def acq_start_def Let_def goto_def noff_push_off)
qed

lemma smp_inv_acq_swap:
  assumes "smp_inv s" "spcs s c = Swapping l"
  shows "smp_inv (acq_swap c l s)"
proof (rule smp_invI [where l = l and c = c])
  have L: "lock_inv s k" for k using assms by (simp add: smp_inv_def)
  have H: "hart_inv s d" for d using assms by (simp add: smp_inv_def)
  show "lock_inv (acq_swap c l s) k" if "k \<noteq> l" for k
    using assms(2) that
    by (intro lock_inv_frame [OF L]) (auto simp: acq_swap_def Let_def goto_def)
  show "lock_inv (acq_swap c l s) l"
  proof (cases "locked (locks (smach s) l) = 0")
    case True
    then have "\<not> owns s d l" for d using L [of l] by (auto simp: lock_inv_def)
    with True L [of l] show ?thesis
      by (auto simp: lock_inv_def owns_def acq_swap_def Let_def goto_def)
  next
    case False
    with L [of l] show ?thesis by (simp add: lock_inv_def owns_def acq_swap_def Let_def)
  qed
  show "hart_inv (acq_swap c l s) d" if "d \<noteq> c" for d
    using that by (intro hart_inv_frame [OF H]) (simp_all add: acq_swap_def Let_def goto_def set_lock_def)
  show "hart_inv (acq_swap c l s) c"
    using H [of c] assms(2) by (simp add: hart_inv_def acq_swap_def Let_def goto_def set_lock_def)
qed

lemma smp_inv_acq_record:
  assumes "smp_inv s" "spcs s c = Recording l"
  shows "smp_inv (acq_record c l s)"
proof (rule smp_invI [where l = l and c = c])
  have L: "lock_inv s k" for k using assms by (simp add: smp_inv_def)
  have H: "hart_inv s d" for d using assms by (simp add: smp_inv_def)
  have own: "owns s c l" using assms(2) by (simp add: owns_def)
  then have new: "l \<notin> set (sheld s c)" using L [of l] assms(2) by (auto simp: lock_inv_def)
  show "lock_inv (acq_record c l s) k" if "k \<noteq> l" for k
    using assms(2) that
    by (intro lock_inv_frame [OF L]) (auto simp: acq_record_def Let_def goto_def)
  have "owns (acq_record c l s) d l \<longleftrightarrow> owns s d l" for d
    using assms(2) by (simp add: owns_def acq_record_def Let_def goto_def)
  moreover have "d = c" if "l \<in> set (sheld s d)" for d
    using that own L [of l] by (auto simp: lock_inv_def owns_def)
  ultimately show "lock_inv (acq_record c l s) l"
    using L [of l] new by (auto simp: lock_inv_def acq_record_def Let_def goto_def)
  show "hart_inv (acq_record c l s) d" if "d \<noteq> c" for d
    using that by (intro hart_inv_frame [OF H])
      (simp_all add: acq_record_def Let_def goto_def set_lock_def)
  show "hart_inv (acq_record c l s) c"
    using H [of c] assms(2) new
    by (simp add: hart_inv_def acq_record_def Let_def goto_def set_lock_def)
qed

lemma lock_inv_holding:
  "lock_inv s l \<Longrightarrow> holding c l (smach s) \<longleftrightarrow> l \<in> set (sheld s c)"
  unfolding lock_inv_def holding_def owns_def by blast

lemma smp_inv_rel_start:
  assumes "smp_inv s" "spcs s c = Running"
  shows "smp_inv (rel_start c l s)"
proof (rule smp_invI [where l = l and c = c])
  have L: "lock_inv s k" for k using assms by (simp add: smp_inv_def)
  have H: "hart_inv s d" for d using assms by (simp add: smp_inv_def)
  have dist: "distinct (sheld s c)" using H [of c] by (simp add: hart_inv_def)
  show "lock_inv (rel_start c l s) k" if "k \<noteq> l" for k
    using assms(2) that
    by (intro lock_inv_frame [OF L]) (auto simp: rel_start_def Let_def goto_def)
  show "lock_inv (rel_start c l s) l"
  proof (cases "holding c l (smach s)")
    case True
    then have mem: "l \<in> set (sheld s c)"
      using L [of l] lock_inv_holding by blast
    then have own: "owns s c l" by (simp add: owns_def)
    have "owns (rel_start c l s) d l \<longleftrightarrow> owns s d l" for d
      using assms(2) True mem dist by (auto simp: owns_def rel_start_def Let_def goto_def)
    moreover have "l \<notin> set (sheld s d)" if "d \<noteq> c" for d
      using that own L [of l] by (auto simp: lock_inv_def owns_def)
    ultimately show ?thesis
      using L [of l] True dist by (auto simp: lock_inv_def rel_start_def Let_def goto_def)
  next
    case False
    then show ?thesis
      using assms(2) by (intro lock_inv_frame [OF L]) (auto simp: rel_start_def Let_def goto_def)
  qed
  show "hart_inv (rel_start c l s) d" if "d \<noteq> c" for d
    using that by (intro hart_inv_frame [OF H])
      (simp_all add: rel_start_def Let_def goto_def set_lock_def)
  have "l \<in> set (sheld s c)" if "holding c l (smach s)"
    using that L [of l] lock_inv_holding by blast
  then show "hart_inv (rel_start c l s) c"
    using H [of c] assms(2) dist length_pos_if_in_set [of l "sheld s c"]
    by (auto simp: hart_inv_def rel_start_def Let_def goto_def set_lock_def length_remove1
        of_nat_diff Suc_le_eq)
qed

lemma smp_inv_rel_clear:
  assumes "smp_inv s" "spcs s c = Clearing l"
  shows "smp_inv (rel_clear c l s)"
proof (rule smp_invI [where l = l and c = c])
  have L: "lock_inv s k" for k using assms by (simp add: smp_inv_def)
  have H: "hart_inv s d" for d using assms by (simp add: smp_inv_def)
  show "lock_inv (rel_clear c l s) k" if "k \<noteq> l" for k
    using assms(2) that
    by (intro lock_inv_frame [OF L]) (auto simp: rel_clear_def Let_def goto_def)
  have own: "owns s c l" using assms(2) by (simp add: owns_def)
  moreover have "l \<notin> set (sheld s c)" using L [of l] assms(2) by (auto simp: lock_inv_def)
  ultimately have "\<not> owns (rel_clear c l s) d l" for d
    using L [of l] by (auto simp: lock_inv_def owns_def rel_clear_def Let_def goto_def)
  then show "lock_inv (rel_clear c l s) l"
    using L [of l] by (auto simp: lock_inv_def owns_def rel_clear_def Let_def goto_def)
  show "hart_inv (rel_clear c l s) d" if "d \<noteq> c" for d
    using that by (intro hart_inv_frame [OF H])
      (simp_all add: rel_clear_def Let_def goto_def set_lock_def)
  show "hart_inv (rel_clear c l s) c"
    using H [of c] assms(2) by (simp add: hart_inv_def rel_clear_def Let_def goto_def set_lock_def)
qed

lemma popping_returns:
  assumes "smp_inv s" "spcs s c = Popping"
  shows "\<exists>m. pop_off c (smach s) = Inr m"
  using assms by (auto simp: smp_inv_def hart_inv_def pop_off_def mycpu_def Let_def
      dest!: spec [of _ c])

lemma pop_off_Inr:
  assumes "pop_off c m = Inr m'"
  shows "locks m' = locks m" "d \<noteq> c \<Longrightarrow> cpus m' d = cpus m d"
    "d \<noteq> c \<Longrightarrow> sstatus m' d = sstatus m d" "noff (cpus m' c) = noff (cpus m c) - 1"
    "0 < noff (cpus m' c) \<Longrightarrow> \<not> intr_get (sstatus m' c)"
  using assms by (auto simp: pop_off_def machine_defs split: if_splits)

lemma smp_inv_rel_pop:
  assumes "smp_inv s" "spcs s c = Popping"
  shows "smp_inv (rel_pop c s)"
proof (rule smp_invI [where l = KmemLock and c = c])
  have L: "lock_inv s k" for k using assms by (simp add: smp_inv_def)
  have H: "hart_inv s d" for d using assms by (simp add: smp_inv_def)
  obtain m where m: "pop_off c (smach s) = Inr m" using popping_returns [OF assms] by blast
  note M = pop_off_Inr [OF m]
  show "lock_inv (rel_pop c s) k" for k
    using assms(2) by (intro lock_inv_frame [OF L]) (auto simp: rel_pop_def m M goto_def)
  then show "lock_inv (rel_pop c s) KmemLock" .
  show "hart_inv (rel_pop c s) d" if "d \<noteq> c" for d
    using that by (intro hart_inv_frame [OF H]) (simp_all add: rel_pop_def m M goto_def)
  show "hart_inv (rel_pop c s) c"
    using H [of c] assms(2) M(4,5) by (simp add: hart_inv_def rel_pop_def m goto_def)
qed

lemma smp_inv_step: "smp_inv s \<Longrightarrow> smp_step s t \<Longrightarrow> smp_inv t"
  by (erule smp_step.cases)
    (auto intro: smp_inv_acq_start smp_inv_acq_swap smp_inv_acq_record smp_inv_rel_start
      smp_inv_rel_clear smp_inv_rel_pop)

interpretation smp: inv_system smp_init smp_step smp_inv
  by unfold_locales (auto intro: smp_inv_init smp_inv_step)

section \<open>The sequential functions are runs of these steps\<close>

lemma acquire_run:
  assumes "acquire c l (smach s) = Inr m" and "spcs s c = Running"
  defines "t \<equiv> acq_record c l (acq_swap c l (acq_start c l s))"
  shows "smach t = m \<and> spcs t c = Running \<and> sheld t c = l # sheld s c \<and> smp_step\<^sup>*\<^sup>* s t"
proof -
  let ?s1 = "acq_start c l s" and ?s2 = "acq_swap c l (acq_start c l s)"
  have free: "\<not> holding c l (push_off c (smach s))" "locked (locks (smach s) l) = 0"
    and m: "m = set_lock l ((locks (smach s) l)\<lparr>locked := 1, lcpu := Some c\<rparr>) (push_off c (smach s))"
    using assms(1) by (auto simp: acquire_def Let_def split: if_splits)
  have pc: "spcs ?s1 c = Swapping l" "spcs ?s2 c = Recording l"
    using free by (simp_all add: acq_start_def acq_swap_def Let_def goto_def)
  have "smp_step s ?s1" "smp_step ?s1 ?s2" "smp_step ?s2 t"
    using assms(2) pc unfolding t_def by (auto intro: smp_step.intros)
  then have "smp_step\<^sup>*\<^sup>* s t" by (meson converse_rtranclp_into_rtranclp r_into_rtranclp)
  moreover have "smach t = m" "spcs t c = Running" "sheld t c = l # sheld s c"
    using free by (simp_all add: t_def m acq_record_def acq_swap_def acq_start_def Let_def goto_def)
  ultimately show ?thesis by simp
qed

lemma release_run:
  assumes "release c l (smach s) = Inr m" and "spcs s c = Running"
  defines "t \<equiv> rel_pop c (rel_clear c l (rel_start c l s))"
  shows "smach t = m \<and> spcs t c = Running \<and> sheld t c = remove1 l (sheld s c) \<and> smp_step\<^sup>*\<^sup>* s t"
proof -
  let ?s1 = "rel_start c l s" and ?s2 = "rel_clear c l (rel_start c l s)"
  have h: "holding c l (smach s)" and pop: "pop_off c (smach ?s2) = Inr m"
    using assms(1) by (auto simp: release_def rel_start_def rel_clear_def Let_def goto_def
        split: if_splits)
  have pc: "spcs ?s1 c = Clearing l" "spcs ?s2 c = Popping"
    using h by (simp_all add: rel_start_def rel_clear_def Let_def goto_def)
  have "smp_step s ?s1" "smp_step ?s1 ?s2" "smp_step ?s2 t"
    using assms(2) pc unfolding t_def by (auto intro: smp_step.intros)
  then have "smp_step\<^sup>*\<^sup>* s t" by (meson converse_rtranclp_into_rtranclp r_into_rtranclp)
  moreover have "smach t = m" "spcs t c = Running" "sheld t c = remove1 l (sheld s c)"
    using h pop by (simp_all add: t_def rel_pop_def) (simp_all add: rel_clear_def rel_start_def Let_def goto_def)
  ultimately show ?thesis by simp
qed

section \<open>Correctness of the spinlock\<close>

text \<open>A concrete machine just after boot, on which the statements below are exercised.\<close>

definition boot_machine :: machine where
  "boot_machine = \<lparr>cpus = (\<lambda>_. \<lparr>cproc = None, noff = 0, intena = False\<rparr>),
     sstatus = (\<lambda>_. SSTATUS_SIE), locks = (\<lambda>_. \<lparr>locked = 0, lname = ''lock'', lcpu = None\<rparr>)\<rparr>"

definition boot_smp :: smp where
  "boot_smp = \<lparr>smach = boot_machine, spcs = (\<lambda>_. Running), sheld = (\<lambda>_. [])\<rparr>"

lemma boot_smp_init: "smp_init boot_smp"
  by (simp add: smp_init_def boot_smp_def boot_machine_def lock_free_def)

definition locked_smp :: smp where
  "locked_smp = acq_record 0 KmemLock (acq_swap 0 KmemLock (acq_start 0 KmemLock boot_smp))"

lemma locked_smp_reach: "reach smp_init smp_step locked_smp"
proof -
  let ?s1 = "acq_start 0 KmemLock boot_smp" and ?s2 = "acq_swap 0 KmemLock (acq_start 0 KmemLock boot_smp)"
  have "spcs boot_smp 0 = Running" "spcs ?s1 0 = Swapping KmemLock" "spcs ?s2 0 = Recording KmemLock"
    by (simp_all add: boot_smp_def boot_machine_def acq_start_def acq_swap_def holding_def goto_def Let_def)
  then have "smp_step boot_smp ?s1" "smp_step ?s1 ?s2" "smp_step ?s2 locked_smp"
    unfolding locked_smp_def by (auto intro: smp_step.intros)
  then show ?thesis using boot_smp_init by (metis reach_init reach_step)
qed

lemma locked_smp_held: "KmemLock \<in> set (sheld locked_smp 0)"
  by (simp add: locked_smp_def acq_record_def goto_def Let_def)

text \<open>
  C1. Mutual exclusion of \<open>acquire\<close>/\<open>release\<close> in every interleaving of the harts' memory accesses:
  while hart \<open>c\<close> is between the return of \<open>acquire(l)\<close> and the call of \<open>release(l)\<close>, the lock word
  is set, no other hart is in such a section of \<open>l\<close>, and \<open>holding()\<close> is true on \<open>c\<close> and only there.
\<close>

theorem spinlock_mutual_exclusion:
  assumes "reach smp_init smp_step s" and "l \<in> set (sheld s c)"
  shows "locked (locks (smach s) l) \<noteq> 0
    \<and> (\<forall>d. l \<in> set (sheld s d) \<or> holding d l (smach s) \<longrightarrow> d = c) \<and> holding c l (smach s)"
proof -
  have inv: "lock_inv s l" using smp.inv_reach [OF assms(1)] by (simp add: smp_inv_def)
  have "holding d l (smach s) \<longleftrightarrow> l \<in> set (sheld s d)" for d
    using inv by (auto simp: lock_inv_def holding_def owns_def)
  then show ?thesis using inv assms(2) by (auto simp: lock_inv_def owns_def)
qed

theorem spinlock_mutual_exclusion_witness:
  "locked (locks (smach locked_smp) KmemLock) \<noteq> 0 \<and> KmemLock \<notin> set (sheld locked_smp 1)
    \<and> \<not> holding 1 KmemLock (smach locked_smp) \<and> holding 0 KmemLock (smach locked_smp)"
  using spinlock_mutual_exclusion [OF locked_smp_reach locked_smp_held] zero_neq_one by metis

text \<open>
  C9. The interrupt bookkeeping: in every reachable state the nesting depth \<open>noff\<close> of a hart that
  has not panicked is the number of locks it holds, plus one while it is inside \<open>acquire\<close> or
  \<open>release\<close>; interrupts are off whenever it is positive; so the \<open>pop_off()\<close> at the end of
  \<open>release\<close> never panics.
\<close>

theorem push_off_balanced:
  assumes "reach smp_init smp_step s" and "spcs s c \<noteq> Panicked"
  shows "noff (cpus (smach s) c) = int (length (sheld s c)) + depth (spcs s c)
    \<and> (0 < noff (cpus (smach s) c) \<longrightarrow> \<not> intr_get (sstatus (smach s) c))
    \<and> (spcs s c = Popping \<longrightarrow> (\<exists>m. pop_off c (smach s) = Inr m))"
  using smp.inv_reach [OF assms(1)] assms(2) popping_returns [of s c]
  by (auto simp: smp_inv_def hart_inv_def)

theorem push_off_balanced_witness:
  "noff (cpus (smach locked_smp) 0) = 1 \<and> \<not> intr_get (sstatus (smach locked_smp) 0)"
proof -
  have "spcs locked_smp 0 = Running" "sheld locked_smp 0 = [KmemLock]"
    by (simp_all add: locked_smp_def acq_record_def acq_swap_def acq_start_def goto_def Let_def boot_smp_def)
  then show ?thesis using push_off_balanced [OF locked_smp_reach, of 0] by simp
qed



end
