(* ===== verification/Zemaphore.thy ===== *)
theory Zemaphore
  imports Main
begin

text \<open>
  The semaphores of project 5, \<open>zemaphore.h\<close>: a counter with a mutex and a condition variable. Every thread is at one of the points between
  the pthread calls of \<open>Zem_wait\<close> and \<open>Zem_post\<close>; one step is one call together with the accesses to \<open>value\<close> that
  the mutex protects. A condition variable may also wake a thread without a signal. A post that would
  overflow the counter is undefined in C and is no step.
\<close>

section \<open>Steps\<close>

datatype zpc =
    Outside
  | WaitLock       \<comment> \<open>before \<open>Mutex_lock\<close> of \<open>Zem_wait\<close>\<close>
  | WaitTest       \<comment> \<open>at the test of the loop, holding the mutex\<close>
  | Asleep         \<comment> \<open>inside \<open>Cond_wait\<close>, not signalled\<close>
  | Woken          \<comment> \<open>inside \<open>Cond_wait\<close>, waiting for the mutex again\<close>
  | WaitUnlock     \<comment> \<open>after the decrement, before \<open>Mutex_unlock\<close>\<close>
  | PostLock
  | PostSignal     \<comment> \<open>after the increment, before \<open>Cond_signal\<close>\<close>
  | PostUnlock

record zem =
  zvalue :: int
  zlock :: "nat option"  \<comment> \<open>the thread that holds the mutex\<close>
  zpcs :: "nat \<Rightarrow> zpc"

definition INT_MAX :: int where
  "INT_MAX = 2147483647"

definition goto_z :: "nat \<Rightarrow> zpc \<Rightarrow> zem \<Rightarrow> zem" where
  "goto_z t pc z = z\<lparr>zpcs := (zpcs z)(t := pc)\<rparr>"

definition Zem_init :: "int \<Rightarrow> zem" where
  "Zem_init v = \<lparr>zvalue = v, zlock = None, zpcs = (\<lambda>_. Outside)\<rparr>"

inductive zstep :: "nat \<Rightarrow> zem \<Rightarrow> zem \<Rightarrow> bool" for n :: nat where
  wait_call: "t < n \<Longrightarrow> zpcs z t = Outside \<Longrightarrow> zstep n z (goto_z t WaitLock z)"
| wait_lock: "t < n \<Longrightarrow> zpcs z t = WaitLock \<Longrightarrow> zlock z = None \<Longrightarrow> zstep n z (goto_z t WaitTest (z\<lparr>zlock := Some t\<rparr>))"
| wait_sleep: "t < n \<Longrightarrow> zpcs z t = WaitTest \<Longrightarrow> zvalue z \<le> 0 \<Longrightarrow> zstep n z (goto_z t Asleep (z\<lparr>zlock := None\<rparr>))"
| wait_spurious: "t < n \<Longrightarrow> zpcs z t = Asleep \<Longrightarrow> zstep n z (goto_z t Woken z)"
| wait_again: "t < n \<Longrightarrow> zpcs z t = Woken \<Longrightarrow> zlock z = None \<Longrightarrow> zstep n z (goto_z t WaitTest (z\<lparr>zlock := Some t\<rparr>))"
| wait_take: "t < n \<Longrightarrow> zpcs z t = WaitTest \<Longrightarrow> zvalue z > 0 \<Longrightarrow> zstep n z (goto_z t WaitUnlock (z\<lparr>zvalue := zvalue z - 1\<rparr>))"
| wait_done: "t < n \<Longrightarrow> zpcs z t = WaitUnlock \<Longrightarrow> zstep n z (goto_z t Outside (z\<lparr>zlock := None\<rparr>))"
| post_call: "t < n \<Longrightarrow> zpcs z t = Outside \<Longrightarrow> zstep n z (goto_z t PostLock z)"
| post_lock: "t < n \<Longrightarrow> zpcs z t = PostLock \<Longrightarrow> zlock z = None \<Longrightarrow> zvalue z < INT_MAX \<Longrightarrow>
    zstep n z (goto_z t PostSignal (z\<lparr>zlock := Some t, zvalue := zvalue z + 1\<rparr>))"
| post_signal: "t < n \<Longrightarrow> zpcs z t = PostSignal \<Longrightarrow> u < n \<Longrightarrow> zpcs z u = Asleep \<Longrightarrow>
    zstep n z (goto_z t PostUnlock (goto_z u Woken z))"
| post_nobody: "t < n \<Longrightarrow> zpcs z t = PostSignal \<Longrightarrow> (\<forall>u<n. zpcs z u \<noteq> Asleep) \<Longrightarrow> zstep n z (goto_z t PostUnlock z)"
| post_done: "t < n \<Longrightarrow> zpcs z t = PostUnlock \<Longrightarrow> zstep n z (goto_z t Outside (z\<lparr>zlock := None\<rparr>))"

inductive zreach :: "nat \<Rightarrow> int \<Rightarrow> zem \<Rightarrow> bool" for n :: nat and v :: int where
  init: "zreach n v (Zem_init v)"
| step: "zreach n v z \<Longrightarrow> zstep n z z' \<Longrightarrow> zreach n v z'"

section \<open>The invariant\<close>

definition zholder :: "zpc \<Rightarrow> bool" where
  "zholder pc \<longleftrightarrow> pc \<in> {WaitTest, WaitUnlock, PostSignal, PostUnlock}"

definition woken_set :: "nat \<Rightarrow> (nat \<Rightarrow> zpc) \<Rightarrow> nat set" where
  "woken_set n pcs = {t. t < n \<and> pcs t = Woken}"

lemma woken_set_upd:
  "t < n \<Longrightarrow> woken_set n (pcs(t := pc)) = (if pc = Woken then insert t (woken_set n pcs) else woken_set n pcs - {t})"
  by (auto simp: woken_set_def)

lemma finite_woken_set [simp]: "finite (woken_set n pcs)"
  by (simp add: woken_set_def)

lemma card_woken_upd:
  assumes "t < n"
  shows "int (card (woken_set n (pcs(t := pc)))) =
    int (card (woken_set n pcs)) + (if pc = Woken then 1 else 0) - (if pcs t = Woken then 1 else 0)"
proof -
  have m: "t \<in> woken_set n pcs \<longleftrightarrow> pcs t = Woken" using assms by (simp add: woken_set_def)
  have "card (woken_set n pcs) > 0" if "t \<in> woken_set n pcs" using that by (metis card_gt_0_iff empty_iff finite_woken_set)
  then show ?thesis using m by (auto simp: woken_set_upd [OF assms] card_insert_if card_Diff_singleton of_nat_diff)
qed

text \<open>
  The threads between the calls of \<open>Mutex_lock\<close> and \<open>Mutex_unlock\<close> hold the mutex, the counter is not negative, and while a thread sleeps,
  every unit of the counter has a woken thread or a signal on the way to it.
\<close>

definition pend :: "nat \<Rightarrow> (nat \<Rightarrow> zpc) \<Rightarrow> nat option \<Rightarrow> int" where
  "pend n pcs k = int (card (woken_set n pcs)) + (case k of None \<Rightarrow> 0 | Some t \<Rightarrow> if pcs t \<in> {PostSignal, WaitTest} then 1 else 0)"

definition zinv :: "nat \<Rightarrow> zem \<Rightarrow> bool" where
  "zinv n z \<longleftrightarrow> 0 \<le> zvalue z \<and> (\<forall>t. zholder (zpcs z t) \<longleftrightarrow> zlock z = Some t)
     \<and> (\<forall>t<n. zpcs z t = Asleep \<longrightarrow> zvalue z \<le> pend n (zpcs z) (zlock z))"

text \<open>A step of thread \<open>t\<close> to \<open>pc\<close> that leaves the mutex to \<open>k\<close> and the counter at \<open>v\<close>.\<close>

lemma zinv_goto:
  assumes z: "zinv n z"
    and h: "if zholder pc then k = Some t \<and> (zlock z = None \<or> zlock z = Some t) else k = (if zlock z = Some t then None else zlock z)"
    and v: "0 \<le> v" "pc = Asleep \<Longrightarrow> v \<le> 0" "pc \<noteq> Asleep \<Longrightarrow> v - zvalue z \<le> pend n ((zpcs z)(t := pc)) k - pend n (zpcs z) (zlock z)"
    and z': "zvalue z' = v" "zlock z' = k" "zpcs z' = (zpcs z)(t := pc)"
  shows "zinv n z'"
proof -
  have "\<forall>u. zholder (zpcs z u) \<longleftrightarrow> zlock z = Some u" using z by (simp add: zinv_def)
  then have "\<forall>u. zholder (zpcs z' u) \<longleftrightarrow> zlock z' = Some u" using h z'(2,3) by (auto split: if_splits)
  moreover have "v \<le> pend n ((zpcs z)(t := pc)) k" if u: "u < n" "((zpcs z)(t := pc)) u = Asleep" for u
  proof (cases "pc = Asleep")
    case True
    have "0 \<le> pend n ((zpcs z)(t := pc)) k" by (simp add: pend_def split: option.split)
    then show ?thesis using v(2) [OF True] by linarith
  next
    case False
    then have "zpcs z u = Asleep" using u(2) by (simp split: if_splits)
    then have "zvalue z \<le> pend n (zpcs z) (zlock z)" using z u(1) by (simp add: zinv_def)
    then show ?thesis using v(3) [OF False] by linarith
  qed
  ultimately show ?thesis using v(1) z' by (simp add: zinv_def)
qed

lemma zinv_lock:
  assumes "zinv n z"
  shows "0 \<le> zvalue z" "zpcs z t \<in> {WaitTest, WaitUnlock, PostSignal, PostUnlock} \<longleftrightarrow> zlock z = Some t"
  using assms by (auto simp: zinv_def zholder_def)

lemmas zinv_defs = goto_z_def zholder_def pend_def card_woken_upd

lemma zinv_step: "zstep n z z' \<Longrightarrow> zinv n z \<Longrightarrow> zinv n z'"
proof (induction rule: zstep.induct)
  case (wait_call t z)
  then have l: "zlock z \<noteq> Some t" "0 \<le> zvalue z" using zinv_lock(1) [OF wait_call.prems] zinv_lock(2) [OF wait_call.prems, of t] wait_call by auto
  show ?case by (rule zinv_goto [of n z WaitLock "zlock z" t "zvalue z"]) (use wait_call l in \<open>simp_all add: zinv_defs split: option.split\<close>)
next
  case (wait_lock t z)
  note l = zinv_lock(1) [OF wait_lock.prems] zinv_lock(2) [OF wait_lock.prems, of t]
  show ?case by (rule zinv_goto [of n z WaitTest "Some t" t "zvalue z"]) (use wait_lock l in \<open>simp_all add: zinv_defs\<close>)
next
  case (wait_sleep t z)
  note l = zinv_lock(1) [OF wait_sleep.prems] zinv_lock(2) [OF wait_sleep.prems, of t]
  show ?case by (rule zinv_goto [of n z Asleep None t "zvalue z"]) (use wait_sleep l in \<open>simp_all add: zinv_defs\<close>)
next
  case (wait_spurious t z)
  then have l: "zlock z \<noteq> Some t" "0 \<le> zvalue z" using zinv_lock(1) [OF wait_spurious.prems] zinv_lock(2) [OF wait_spurious.prems, of t] wait_spurious by auto
  show ?case by (rule zinv_goto [of n z Woken "zlock z" t "zvalue z"]) (use wait_spurious l in \<open>simp_all add: zinv_defs split: option.split\<close>)
next
  case (wait_again t z)
  note l = zinv_lock(1) [OF wait_again.prems] zinv_lock(2) [OF wait_again.prems, of t]
  show ?case by (rule zinv_goto [of n z WaitTest "Some t" t "zvalue z"]) (use wait_again l in \<open>simp_all add: zinv_defs\<close>)
next
  case (wait_take t z)
  then have l: "zlock z = Some t" using zinv_lock(1) [OF wait_take.prems] zinv_lock(2) [OF wait_take.prems, of t] by simp
  show ?case by (rule zinv_goto [of n z WaitUnlock "Some t" t "zvalue z - 1"]) (use wait_take l in \<open>simp_all add: zinv_defs\<close>)
next
  case (wait_done t z)
  note l = zinv_lock(1) [OF wait_done.prems] zinv_lock(2) [OF wait_done.prems, of t]
  show ?case by (rule zinv_goto [of n z Outside None t "zvalue z"]) (use wait_done l in \<open>simp_all add: zinv_defs\<close>)
next
  case (post_call t z)
  then have l: "zlock z \<noteq> Some t" "0 \<le> zvalue z" using zinv_lock(1) [OF post_call.prems] zinv_lock(2) [OF post_call.prems, of t] post_call by auto
  show ?case by (rule zinv_goto [of n z PostLock "zlock z" t "zvalue z"]) (use post_call l in \<open>simp_all add: zinv_defs split: option.split\<close>)
next
  case (post_lock t z)
  note l = zinv_lock(1) [OF post_lock.prems] zinv_lock(2) [OF post_lock.prems, of t]
  show ?case by (rule zinv_goto [of n z PostSignal "Some t" t "zvalue z + 1"]) (use post_lock l in \<open>simp_all add: zinv_defs\<close>)
next
  case (post_signal t z u)
  then have l: "zlock z = Some t" "0 \<le> zvalue z" "u \<noteq> t" using zinv_lock(1) [OF post_signal.prems] zinv_lock(2) [OF post_signal.prems, of t] by auto
  then have "pend n ((zpcs z)(u := Woken, t := PostUnlock)) (Some t) = pend n (zpcs z) (zlock z)"
    using post_signal by (simp add: zinv_defs)
  then show ?case using post_signal l by (auto simp: zinv_def goto_z_def zholder_def)
next
  case (post_nobody t z)
  then have l: "zlock z = Some t" "0 \<le> zvalue z" using zinv_lock(1) [OF post_nobody.prems] zinv_lock(2) [OF post_nobody.prems, of t] by auto
  show ?case using post_nobody l by (auto simp: zinv_def goto_z_def zholder_def)
next
  case (post_done t z)
  note l = zinv_lock(1) [OF post_done.prems] zinv_lock(2) [OF post_done.prems, of t]
  show ?case by (rule zinv_goto [of n z Outside None t "zvalue z"]) (use post_done l in \<open>simp_all add: zinv_defs\<close>)
qed

lemma zinv_init: "0 \<le> v \<Longrightarrow> zinv n (Zem_init v)"
  by (simp add: Zem_init_def zinv_def zholder_def)

lemma zinv_reach: "zreach n v z \<Longrightarrow> 0 \<le> v \<Longrightarrow> zinv n z"
  by (induction rule: zreach.induct) (blast intro: zinv_step zinv_init)+

text \<open>
  C19. In every interleaving of threads that call Zem_wait and Zem_post on a semaphore of the project, at most one thread is inside the mutex, the
  counter never becomes negative, and no wakeup is lost: while a thread sleeps although the counter is positive and the mutex is free, another thread
  has been woken and is about to test the counter again.
\<close>

theorem zemaphore_no_lost_wakeup:
  assumes "zreach n v z" "0 \<le> v"
  shows "0 \<le> zvalue z \<and> (\<forall>t u. zholder (zpcs z t) \<and> zholder (zpcs z u) \<longrightarrow> t = u) \<and>
    (\<forall>t<n. zpcs z t = Asleep \<and> 0 < zvalue z \<and> zlock z = None \<longrightarrow> (\<exists>u<n. zpcs z u = Woken \<and> zstep n z (goto_z u WaitTest (z\<lparr>zlock := Some u\<rparr>))))"
proof -
  have i: "zinv n z" by (rule zinv_reach [OF assms])
  have "\<exists>u<n. zpcs z u = Woken" if "t < n" "zpcs z t = Asleep" "0 < zvalue z" "zlock z = None" for t
  proof -
    have "zvalue z \<le> pend n (zpcs z) (zlock z)" using i that by (auto simp: zinv_def)
    then have "0 < int (card (woken_set n (zpcs z)))" using that by (simp add: pend_def)
    then have "woken_set n (zpcs z) \<noteq> {}" by (metis card.empty of_nat_0 order_less_irrefl)
    then show ?thesis by (auto simp: woken_set_def)
  qed
  then show ?thesis using i wait_again by (fastforce simp: zinv_def)
qed

text \<open>Two threads wait on an empty semaphore and a third one posts: one of the two is woken, the other one sleeps on.\<close>

definition sleep_z :: "nat \<Rightarrow> zem \<Rightarrow> zem" where
  "sleep_z t z = goto_z t Asleep ((goto_z t WaitTest ((goto_z t WaitLock z)\<lparr>zlock := Some t\<rparr>))\<lparr>zlock := None\<rparr>)"

definition post_z :: "nat \<Rightarrow> nat \<Rightarrow> zem \<Rightarrow> zem" where
  "post_z t u z = goto_z t Outside ((goto_z t PostUnlock (goto_z u Woken
     (goto_z t PostSignal ((goto_z t PostLock z)\<lparr>zlock := Some t, zvalue := zvalue z + 1\<rparr>))))\<lparr>zlock := None\<rparr>)"

lemma sleep_z_reach:
  assumes "zreach n v z" "t < n" "zpcs z t = Outside" "zlock z = None" "zvalue z \<le> 0"
  shows "zreach n v (sleep_z t z)"
  unfolding sleep_z_def
  by (rule zreach.step [OF zreach.step [OF zreach.step [OF assms(1) wait_call] wait_lock] wait_sleep]) (use assms in \<open>simp_all add: goto_z_def\<close>)

lemma post_z_reach:
  assumes "zreach n v z" "t < n" "zpcs z t = Outside" "zlock z = None" "zvalue z < INT_MAX" "u < n" "zpcs z u = Asleep"
  shows "zreach n v (post_z t u z)"
  unfolding post_z_def
proof (rule zreach.step [OF zreach.step [OF zreach.step [OF zreach.step [OF assms(1) post_call]]] post_done])
  show "zstep n (goto_z t PostLock z) (goto_z t PostSignal ((goto_z t PostLock z)\<lparr>zlock := Some t, zvalue := zvalue z + 1\<rparr>))"
    using post_lock [of t n "goto_z t PostLock z"] assms by (simp add: goto_z_def)
  show "zstep n (goto_z t PostSignal ((goto_z t PostLock z)\<lparr>zlock := Some t, zvalue := zvalue z + 1\<rparr>))
     (goto_z t PostUnlock (goto_z u Woken (goto_z t PostSignal ((goto_z t PostLock z)\<lparr>zlock := Some t, zvalue := zvalue z + 1\<rparr>))))"
    by (rule post_signal) (use assms in \<open>auto simp: goto_z_def\<close>)
qed (use assms in \<open>simp_all add: goto_z_def\<close>)

theorem zemaphore_no_lost_wakeup_witness:
  "\<exists>u. u < 3 \<and> zpcs (post_z 1 0 (sleep_z 2 (sleep_z 0 (Zem_init 0)))) u = Woken"
proof -
  define z where "z = post_z 1 0 (sleep_z 2 (sleep_z 0 (Zem_init 0)))"
  have r: "zreach 3 0 z" unfolding z_def
    by (intro post_z_reach sleep_z_reach zreach.init) (simp_all add: sleep_z_def goto_z_def Zem_init_def INT_MAX_def)
  have a: "zpcs z 2 = Asleep \<and> 0 < zvalue z \<and> zlock z = None"
    by (simp add: z_def post_z_def sleep_z_def goto_z_def Zem_init_def)
  have "2 < (3::nat)" "0 \<le> (0::int)" by simp_all
  then show ?thesis using zemaphore_no_lost_wakeup [OF r] a unfolding z_def [symmetric] by blast
qed

end
