(* ===== verification/Spec2Isabelle.thy ===== *)
theory Spec2Isabelle
  imports Asm Boot Getfilenum Grep Log_Ok Lottery Pipe_Fifo Sh_Run Sleep_Smp Spinlock_Smp Zemaphore
begin

text \<open>
  Verification of an xv6-riscv kernel and of the course projects built on it.
\<close>

end
